(* ===== verification/Mini_Prelude.thy ===== *)
theory Mini_Prelude
  imports Main "HOL-Library.Word" "HOL-Library.FSet" "HOL-Library.Finite_Map"
    "HOL-Library.Char_ord" "HOL-Library.List_Lexorder"
begin

text \<open>
  Shared vocabulary of the development: the machine integers of the program, its byte strings and
  the UTF-8 check of \<^verbatim>\<open>std::str::from_utf8\<close>, the iteration order of a
  \<^verbatim>\<open>std::collections\<close> hash table, saturating arithmetic, and the generic lemmas on
  results, finite maps and lists that several components use.

  Rust types and their images: \<open>u8\<close>, \<open>u16\<close>, \<open>u32\<close>, \<open>u64\<close> are words of that width
  (\<open>i32\<close> and \<open>i64\<close> are the same words read with \<open>sint\<close>); \<open>&[u8]\<close> is a list of \<open>u8\<close>;
  \<open>String\<close> is a list of \<open>char\<close>, one per UTF-8 byte, as \<open>String::len\<close> counts;
  \<open>Result<T, E>\<close> is the sum \<open>E + T\<close>; \<open>HashMap<K, V>\<close> is a finite map and \<open>HashSet<T>\<close>
  a finite set.
\<close>

section \<open>Machine integers\<close>

type_synonym u8 = "8 word"
type_synonym u16 = "16 word"
type_synonym u32 = "32 word"
type_synonym u64 = "64 word"
type_synonym i32 = "32 word"
type_synonym i64 = "64 word"

named_theorems wire_intros \<open>facts that build the effect of one reader call\<close>
named_theorems inv_intros \<open>preservation facts of the component invariants\<close>
named_theorems model_defs \<open>definitions unfolded in concrete evaluations\<close>

text \<open>\<open>u64::saturating_add\<close>, \<open>u64::saturating_sub\<close> and \<open>u64::saturating_mul\<close>.\<close>

definition saturating_add :: "u64 \<Rightarrow> u64 \<Rightarrow> u64" where
  "saturating_add a b = (if unat a + unat b < 2 ^ 64 then a + b else - 1)"

definition saturating_sub :: "u64 \<Rightarrow> u64 \<Rightarrow> u64" where
  "saturating_sub a b = (if b \<le> a then a - b else 0)"

definition saturating_mul :: "u64 \<Rightarrow> u64 \<Rightarrow> u64" where
  "saturating_mul a b = (if unat a * unat b < 2 ^ 64 then a * b else - 1)"

lemma unat_lt64: "unat (a :: u64) < 18446744073709551616"
  using unsigned_less [of a] by simp

lemma unat_max64: "unat (- 1 :: u64) = 18446744073709551615"
  by (simp add: unsigned_minus_1_eq_mask mask_eq_exp_minus_1)

lemma unat_saturating_add:
  "unat (saturating_add a b) = min (unat a + unat b) 18446744073709551615"
  using unat_lt64 [of a] unat_lt64 [of b]
  by (auto simp: saturating_add_def unat_word_ariths unat_max64)

lemma unat_saturating_sub: "unat (saturating_sub a b) = unat a - unat b"
  by (auto simp: saturating_sub_def unat_sub word_le_nat_alt)

lemma unat_saturating_mul:
  "unat (saturating_mul a b) = min (unat a * unat b) 18446744073709551615"
proof (cases "unat a * unat b < 2 ^ 64")
  case True
  then show ?thesis by (auto simp: saturating_mul_def unat_word_ariths)
next
  case False
  then show ?thesis by (auto simp: saturating_mul_def unat_max64)
qed

text \<open>Two's complement: an \<open>i32\<close> is negative from \<open>2 ^ 31\<close> on.\<close>

lemma sint32:
  fixes w :: i32
  shows "sint w = (if unat w < 2 ^ 31 then int (unat w) else int (unat w) - 2 ^ 32)"
proof -
  have bound: "0 \<le> uint w" "uint w < 4294967296"
    using unsigned_less [of w, where ?'a = int] by simp_all
  have "bit (uint w) 31 \<longleftrightarrow> odd (uint w div 2147483648)" by (simp add: bit_iff_odd)
  also have "\<dots> \<longleftrightarrow> 2147483648 \<le> uint w"
  proof (cases "2147483648 \<le> uint w")
    case True
    then have "uint w div 2147483648 = 1" using bound by (simp add: int_div_pos_eq [of "uint w" _ 1 "uint w - 2147483648"])
    with True show ?thesis by simp
  qed (use bound in simp)
  finally have "sint w = uint w - 4294967296 * of_bool (2147483648 \<le> uint w)"
    using bound by (simp add: sint_uint signed_take_bit_eq_take_bit_minus take_bit_int_eq_self)
  moreover have "unat w < 2147483648 \<longleftrightarrow> \<not> 2147483648 \<le> uint w"
    by (simp only: unat_eq_nat_uint) (use bound in arith)
  ultimately show ?thesis by auto
qed
lemma sint32_neg_iff: "sint (w :: i32) < 0 \<longleftrightarrow> 2 ^ 31 \<le> unat w"
proof -
  have "uint w < 4294967296" using unsigned_less [of w, where ?'a = int] by simp
  then show ?thesis by (auto simp: sint32)
qed

lemma nat_sint32: "unat (w :: i32) < 2 ^ 31 \<Longrightarrow> nat (sint w) = unat w"
  by (simp add: sint32)

section \<open>Bytes and strings\<close>

text \<open>A byte and the \<open>char\<close> with the same code.\<close>

definition char_of_byte :: "u8 \<Rightarrow> char" where
  "char_of_byte b = char_of (unat b)"

definition byte_of_char :: "char \<Rightarrow> u8" where
  "byte_of_char c = of_nat (of_char c)"

lemma byte_of_char_of_byte [simp]: "byte_of_char (char_of_byte b) = b"
proof -
  have "unat b < 256" using unsigned_less [of b, where ?'a = nat] by simp
  then show ?thesis by (simp add: byte_of_char_def char_of_byte_def)
qed

lemma char_of_byte_of_char [simp]: "char_of_byte (byte_of_char c) = c"
proof -
  have "(of_char c :: nat) < 256" by (rule nat_of_char_less_256)
  then show ?thesis
    by (simp add: byte_of_char_def char_of_byte_def unat_of_nat)
qed

lemma char_of_byte_inject [simp]: "char_of_byte a = char_of_byte b \<longleftrightarrow> a = b"
  by (metis byte_of_char_of_byte)

lemma byte_of_char_inject [simp]: "byte_of_char c = byte_of_char d \<longleftrightarrow> c = d"
  by (metis char_of_byte_of_char)

definition as_bytes :: "string \<Rightarrow> u8 list" where
  "as_bytes s = map byte_of_char s"

lemma length_as_bytes [simp]: "length (as_bytes s) = length s"
  by (simp add: as_bytes_def)

lemma as_bytes_map [simp]: "as_bytes (map char_of_byte bs) = bs"
  by (simp add: as_bytes_def comp_def)

lemma map_as_bytes [simp]: "map char_of_byte (as_bytes s) = s"
  by (simp add: as_bytes_def comp_def)

lemma as_bytes_inject [simp]: "as_bytes s = as_bytes t \<longleftrightarrow> s = t"
  by (metis map_as_bytes)

text \<open>
  The check of \<^verbatim>\<open>std::str::from_utf8\<close>: well-formed UTF-8 as the Unicode standard's
  table of byte sequences defines it (no overlong form, no surrogate, nothing above U+10FFFF).
\<close>

definition utf8_tail :: "u8 \<Rightarrow> bool" where
  "utf8_tail b \<longleftrightarrow> 0x80 \<le> b \<and> b \<le> 0xBF"

fun utf8_valid :: "u8 list \<Rightarrow> bool" where
  "utf8_valid [] = True"
| "utf8_valid (b # bs) =
    (if b \<le> 0x7F then utf8_valid bs
     else if 0xC2 \<le> b \<and> b \<le> 0xDF then
       (case bs of
          c # cs \<Rightarrow> utf8_tail c \<and> utf8_valid cs
        | [] \<Rightarrow> False)
     else if 0xE0 \<le> b \<and> b \<le> 0xEF then
       (case bs of
          c # d # ds \<Rightarrow>
            (if b = 0xE0 then 0xA0 else 0x80) \<le> c \<and> c \<le> (if b = 0xED then 0x9F else 0xBF)
            \<and> utf8_tail d \<and> utf8_valid ds
        | _ \<Rightarrow> False)
     else if 0xF0 \<le> b \<and> b \<le> 0xF4 then
       (case bs of
          c # d # e # es \<Rightarrow>
            (if b = 0xF0 then 0x90 else 0x80) \<le> c \<and> c \<le> (if b = 0xF4 then 0x8F else 0xBF)
            \<and> utf8_tail d \<and> utf8_tail e \<and> utf8_valid es
        | _ \<Rightarrow> False)
     else False)"

definition from_utf8 :: "u8 list \<Rightarrow> string option" where
  "from_utf8 bs = (if utf8_valid bs then Some (map char_of_byte bs) else None)"

lemma from_utf8_Some_iff: "from_utf8 bs = Some s \<longleftrightarrow> bs = as_bytes s \<and> utf8_valid bs"
  by (auto simp: from_utf8_def)

lemma from_utf8_as_bytes: "utf8_valid (as_bytes s) \<Longrightarrow> from_utf8 (as_bytes s) = Some s"
  by (simp add: from_utf8_def)

lemma utf8_valid_ascii: "\<forall>b \<in> set bs. b \<le> 0x7F \<Longrightarrow> utf8_valid bs"
  by (induction bs) auto

text \<open>ASCII texts, and the bytes of character literals.\<close>

lemma byte_of_Char [model_defs]:
  "byte_of_char (Char b0 b1 b2 b3 b4 b5 b6 b7) =
    of_nat (of_bool b0 + 2 * (of_bool b1 + 2 * (of_bool b2 + 2 * (of_bool b3 + 2 * (of_bool b4 +
      2 * (of_bool b5 + 2 * (of_bool b6 + 2 * of_bool b7)))))))"
  by (simp add: byte_of_char_def)

definition ascii :: "string \<Rightarrow> bool" where
  "ascii s \<longleftrightarrow> list_all (\<lambda>c. \<not> digit7 c \<and> c \<noteq> CHR 0x00) s"

lemma ascii_byte:
  assumes "\<not> digit7 c"
  shows "byte_of_char c \<le> 0x7F"
proof -
  obtain b0 b1 b2 b3 b4 b5 b6 b7 where c: "c = Char b0 b1 b2 b3 b4 b5 b6 b7" by (cases c)
  with assms show ?thesis
    by (cases b0; cases b1; cases b2; cases b3; cases b4; cases b5; cases b6)
      (simp_all add: byte_of_Char)
qed

lemma byte_zero: "byte_of_char c = 0 \<longleftrightarrow> c = CHR 0x00"
proof -
  have "byte_of_char (CHR 0x00) = 0" by (simp add: byte_of_Char)
  then show ?thesis by (metis byte_of_char_inject)
qed

lemma ascii_valid: "ascii s \<Longrightarrow> utf8_valid (as_bytes s)"
  by (rule utf8_valid_ascii) (auto simp: ascii_def list_all_iff as_bytes_def ascii_byte)

section \<open>Hash tables\<close>

text \<open>
  The order in which a \<^verbatim>\<open>HashMap\<close> or \<^verbatim>\<open>HashSet\<close> is iterated is not specified by the
  standard library (the hasher is seeded at random): it visits every element exactly once, in an
  arbitrary order. A function that iterates over a hash table takes the order as an argument, and
  this is all that is assumed of it.
\<close>

definition iteration_order :: "('a fset \<Rightarrow> 'a list) \<Rightarrow> bool" where
  "iteration_order it \<longleftrightarrow> (\<forall>S. fset_of_list (it S) = S \<and> distinct (it S))"

lemma iteration_order_set: "iteration_order it \<Longrightarrow> set (it S) = fset S"
  by (metis fset_of_list.rep_eq iteration_order_def)

lemma iteration_order_distinct: "iteration_order it \<Longrightarrow> distinct (it S)"
  by (simp add: iteration_order_def)

lemma iteration_order_sorted: "iteration_order sorted_list_of_fset"
  by (auto simp: iteration_order_def sorted_list_of_fset.rep_eq fset_of_list.rep_eq
      simp flip: fset_inject)

text \<open>\<^verbatim>\<open>HashMap::entry(k).or_default()\<close> on a map of lists and of sets: the value read.\<close>

definition entry_list :: "('k, 'v list) fmap \<Rightarrow> 'k \<Rightarrow> 'v list" where
  "entry_list m k = (case fmlookup m k of None \<Rightarrow> [] | Some v \<Rightarrow> v)"

definition entry_fset :: "('k, 'v fset) fmap \<Rightarrow> 'k \<Rightarrow> 'v fset" where
  "entry_fset m k = (case fmlookup m k of None \<Rightarrow> {||} | Some v \<Rightarrow> v)"

lemma entry_list_upd [simp]: "entry_list (fmupd k v m) k' = (if k' = k then v else entry_list m k')"
  by (simp add: entry_list_def)

lemma entry_list_drop [simp]: "entry_list (fmdrop k m) k' = (if k' = k then [] else entry_list m k')"
  by (simp add: entry_list_def)

lemma entry_list_empty [simp]: "entry_list fmempty k = []"
  by (simp add: entry_list_def)

lemma entry_fset_upd [simp]: "entry_fset (fmupd k v m) k' = (if k' = k then v else entry_fset m k')"
  by (simp add: entry_fset_def)

lemma entry_fset_drop [simp]: "entry_fset (fmdrop k m) k' = (if k' = k then {||} else entry_fset m k')"
  by (simp add: entry_fset_def)

lemma entry_fset_empty [simp]: "entry_fset fmempty k = {||}"
  by (simp add: entry_fset_def)

section \<open>Lists\<close>

lemma drop_eq_append_drop:
  assumes "drop n xs = ys @ zs" and "n \<le> length xs"
  shows "n + length ys \<le> length xs" and "drop (n + length ys) xs = zs"
    and "take (length ys) (drop n xs) = ys"
proof -
  have "length (drop n xs) = length ys + length zs" using assms(1) by simp
  then show "n + length ys \<le> length xs" using assms(2) by simp
  have "drop (length ys) (drop n xs) = zs" using assms(1) by simp
  then show "drop (n + length ys) xs = zs" by (simp add: add.commute)
  show "take (length ys) (drop n xs) = ys" using assms(1) by simp
qed

end
