(* ===== verification/Byte_Reader.thy ===== *)
theory Byte_Reader
  imports Mini_Prelude
begin

text \<open>
  \<^verbatim>\<open>src/wal/byte_reader.rs\<close>: a cursor over a byte slice, with one reading operation per wire
  type, and the error type of \<^verbatim>\<open>src/wal/pgoutput.rs\<close> it reports.

  A reading operation takes the cursor and returns either the error or the value with the moved
  cursor. The cursor of a failed read is dropped: every caller propagates the error with \<open>?\<close> up
  to \<^verbatim>\<open>parse_pgoutput_messages\<close>, which owns the cursor.

  The contract every reading operation satisfies is the locale \<open>wire_format\<close>: reading succeeds
  exactly on the encodings of a well-formed wire value, consumes exactly that encoding, and returns
  what the wire value stands for. It is closed under counted repetition (locale \<open>wire_loop\<close>).
\<close>

section \<open>Errors and the cursor\<close>

datatype pg_output_error =
    Truncated string
  | InvalidUtf8 string
  | UnsupportedTupleKind u8
  | UnknownMessageTag u8

record byte_reader =
  data :: "u8 list"
  pos :: nat

type_synonym 'a parser = "byte_reader \<Rightarrow> pg_output_error + ('a \<times> byte_reader)"

text \<open>Sequencing with the \<open>?\<close> operator, and the value of a finished computation.\<close>

definition and_then :: "'a parser \<Rightarrow> ('a \<Rightarrow> 'b parser) \<Rightarrow> 'b parser" where
  "and_then p f r = (case p r of Inl e \<Rightarrow> Inl e | Inr (a, r') \<Rightarrow> f a r')"

definition give :: "'a \<Rightarrow> 'a parser" where
  "give a r = Inr (a, r)"

definition throw :: "pg_output_error \<Rightarrow> 'a parser" where
  "throw e r = Inl e"

text \<open>A loop \<^verbatim>\<open>for _ in 0..n { out.push(body(reader)?) }\<close>.\<close>

fun repeat_parse :: "nat \<Rightarrow> 'a parser \<Rightarrow> 'a list parser" where
  "repeat_parse 0 p = give []"
| "repeat_parse (Suc n) p =
    and_then p (\<lambda>a. and_then (repeat_parse n p) (\<lambda>as. give (a # as)))"

section \<open>Reading operations\<close>

definition new_reader :: "u8 list \<Rightarrow> byte_reader" where
  "new_reader d = \<lparr>data = d, pos = 0\<rparr>"

definition reader_is_empty :: "byte_reader \<Rightarrow> bool" where
  "reader_is_empty r \<longleftrightarrow> length (data r) \<le> pos r"

definition read_bytes :: "nat \<Rightarrow> string \<Rightarrow> u8 list parser" where
  "read_bytes len ctx r =
    (if length (data r) < pos r + len then Inl (Truncated ctx)
     else Inr (take len (drop (pos r) (data r)), r\<lparr>pos := pos r + len\<rparr>))"

text \<open>\<^verbatim>\<open>from_be_bytes\<close>: the number whose base-256 digits, most significant first, are the bytes.\<close>

definition be_value :: "u8 list \<Rightarrow> nat" where
  "be_value bs = foldl (\<lambda>v b. v * 256 + unat b) 0 bs"

definition read_u8 :: "string \<Rightarrow> u8 parser" where
  "read_u8 ctx = and_then (read_bytes 1 ctx) (\<lambda>bytes. give (bytes ! 0))"

definition read_u16 :: "string \<Rightarrow> u16 parser" where
  "read_u16 ctx =
    and_then (read_bytes 2 ctx) (\<lambda>bytes. give (of_nat (be_value [bytes ! 0, bytes ! 1])))"

definition read_u32 :: "string \<Rightarrow> u32 parser" where
  "read_u32 ctx =
    and_then (read_bytes 4 ctx)
      (\<lambda>bytes. give (of_nat (be_value [bytes ! 0, bytes ! 1, bytes ! 2, bytes ! 3])))"

definition read_i32 :: "string \<Rightarrow> i32 parser" where
  "read_i32 ctx =
    and_then (read_bytes 4 ctx)
      (\<lambda>bytes. give (of_nat (be_value [bytes ! 0, bytes ! 1, bytes ! 2, bytes ! 3])))"

text \<open>\<^verbatim>\<open>Iterator::position\<close>.\<close>

fun position :: "('a \<Rightarrow> bool) \<Rightarrow> 'a list \<Rightarrow> nat option" where
  "position P [] = None"
| "position P (x # xs) = (if P x then Some 0 else map_option Suc (position P xs))"

definition read_cstring :: "string \<Rightarrow> string parser" where
  "read_cstring ctx r =
    (let start = pos r in
     case position (\<lambda>b. b = 0) (drop start (data r)) of
       None \<Rightarrow> Inl (Truncated ctx)
     | Some n \<Rightarrow>
        let stop = start + n;
            bytes = take (stop - start) (drop start (data r));
            r' = r\<lparr>pos := stop + 1\<rparr>
        in (case from_utf8 bytes of
             None \<Rightarrow> Inl (InvalidUtf8 ctx)
           | Some s \<Rightarrow> Inr (s, r')))"

text \<open>
  \<^verbatim>\<open>read_bytes\<close> as the machine runs it, the cursor, the slice length and their sum in a 64-bit
  \<open>usize\<close> that wraps. \<open>read_bytes_usize_eq\<close> shows where the two agree.
\<close>

definition read_bytes_usize ::
    "u64 \<Rightarrow> string \<Rightarrow> u8 list \<Rightarrow> u64 \<Rightarrow> pg_output_error + (u8 list \<times> u64)" where
  "read_bytes_usize len ctx d p =
    (if of_nat (length d) < p + len then Inl (Truncated ctx)
     else Inr (take (unat len) (drop (unat p) d), p + len))"

section \<open>Sequencing laws\<close>

lemma and_then_Inr_iff:
  "and_then p f r = Inr (b, r'') \<longleftrightarrow> (\<exists>a r'. p r = Inr (a, r') \<and> f a r' = Inr (b, r''))"
  by (auto simp: and_then_def split: sum.splits)

lemma and_then_assoc:
  "and_then (and_then p f) g = and_then p (\<lambda>a. and_then (f a) g)"
  by (simp add: fun_eq_iff and_then_def split: sum.split)

lemma and_then_Inr [simp]: "p r = Inr (a, r') \<Longrightarrow> and_then p f r = f a r'"
  by (simp add: and_then_def)

lemma and_then_Inl [simp]: "p r = Inl e \<Longrightarrow> and_then p f r = Inl e"
  by (simp add: and_then_def)

lemma give_simp [simp]: "give a r = Inr (a, r)"
  by (simp add: give_def)

lemma throw_simp [simp]: "throw e r = Inl e"
  by (simp add: throw_def)

section \<open>Readers never move back and never change the slice\<close>

definition forward :: "'a parser \<Rightarrow> bool" where
  "forward p \<longleftrightarrow> (\<forall>r a r'. p r = Inr (a, r') \<longrightarrow> data r' = data r \<and> pos r \<le> pos r')"

lemma forwardD: "forward p \<Longrightarrow> p r = Inr (a, r') \<Longrightarrow> data r' = data r \<and> pos r \<le> pos r'"
  by (auto simp: forward_def)

lemma forward_and_then [wire_intros]:
  assumes "forward p" and "\<And>a. forward (f a)"
  shows "forward (and_then p f)"
  using assms by (fastforce simp: forward_def and_then_Inr_iff)

lemma forward_give [wire_intros]: "forward (give a)"
  by (simp add: forward_def)

lemma forward_throw [wire_intros]: "forward (throw e)"
  by (simp add: forward_def)

lemma forward_read_bytes [wire_intros]: "forward (read_bytes n ctx)"
  by (auto simp: forward_def read_bytes_def split: if_splits)

lemma forward_read_u8 [wire_intros]: "forward (read_u8 ctx)"
  unfolding read_u8_def by (intro wire_intros)

lemma forward_read_u16 [wire_intros]: "forward (read_u16 ctx)"
  unfolding read_u16_def by (intro wire_intros)

lemma forward_read_u32 [wire_intros]: "forward (read_u32 ctx)"
  unfolding read_u32_def by (intro wire_intros)

lemma forward_read_i32 [wire_intros]: "forward (read_i32 ctx)"
  unfolding read_i32_def by (intro wire_intros)

lemma forward_read_cstring [wire_intros]: "forward (read_cstring ctx)"
  by (auto simp: forward_def read_cstring_def Let_def split: option.splits)

lemma forward_repeat [wire_intros]: "forward p \<Longrightarrow> forward (repeat_parse n p)"
  by (induction n) (auto intro: wire_intros)

lemma read_u8_moves: "read_u8 ctx r = Inr (b, r') \<Longrightarrow> data r' = data r \<and> pos r' = pos r + 1"
  by (auto simp: read_u8_def read_bytes_def and_then_Inr_iff split: if_splits)

section \<open>The cursor inside the slice\<close>

text \<open>
  \<open>reader_at before after\<close> is the cursor between two parts of the slice. Every cursor that has not
  run past the end is of this form, and it is the invariant \<open>reader_ok\<close> that no operation breaks.
\<close>

definition reader_at :: "u8 list \<Rightarrow> u8 list \<Rightarrow> byte_reader" where
  "reader_at before after = \<lparr>data = before @ after, pos = length before\<rparr>"

definition reader_ok :: "byte_reader \<Rightarrow> bool" where
  "reader_ok r \<longleftrightarrow> pos r \<le> length (data r)"

lemma reader_ok_at [simp]: "reader_ok (reader_at before after)"
  by (simp add: reader_ok_def reader_at_def)

lemma reader_ok_iff: "reader_ok r \<longleftrightarrow> (\<exists>before after. r = reader_at before after)"
proof
  assume ok: "reader_ok r"
  have "r = reader_at (take (pos r) (data r)) (drop (pos r) (data r))"
    using ok by (simp add: reader_at_def reader_ok_def min_def)
  then show "\<exists>before after. r = reader_at before after" by blast
qed auto

lemma new_reader_at: "new_reader d = reader_at [] d"
  by (simp add: new_reader_def reader_at_def)

lemma reader_at_inject [simp]:
  "reader_at b a = reader_at b' a' \<longleftrightarrow> b = b' \<and> a = a'"
  by (auto simp: reader_at_def)

lemma reader_is_empty_at [simp]: "reader_is_empty (reader_at before after) \<longleftrightarrow> after = []"
  by (simp add: reader_is_empty_def reader_at_def)

lemma pos_reader_at [simp]: "pos (reader_at before after) = length before"
  by (simp add: reader_at_def)

lemma data_reader_at [simp]: "data (reader_at before after) = before @ after"
  by (simp add: reader_at_def)

lemma read_bytes_at:
  "read_bytes n ctx (reader_at before after) =
    (if length after < n then Inl (Truncated ctx)
     else Inr (take n after, reader_at (before @ take n after) (drop n after)))"
  by (auto simp: read_bytes_def reader_at_def)

section \<open>Big-endian encodings\<close>

fun be_bytes :: "nat \<Rightarrow> nat \<Rightarrow> u8 list" where
  "be_bytes 0 v = []"
| "be_bytes (Suc n) v = be_bytes n (v div 256) @ [of_nat v]"

lemma be_bytes_2 [model_defs]: "be_bytes 2 v = [of_nat (v div 256), of_nat v]"
  by (simp only: numeral_2_eq_2 be_bytes.simps append.simps)

lemma div_256_256:
  "v div 256 div 256 = v div (65536 :: nat)" "v div 65536 div 256 = v div (16777216 :: nat)"
  by (simp_all flip: div_mult2_eq)

lemma be_bytes_4 [model_defs]:
  "be_bytes 4 v = [of_nat (v div 16777216), of_nat (v div 65536), of_nat (v div 256), of_nat v]"
proof -
  have "4 = Suc (Suc (Suc (Suc 0)))" by simp
  then show ?thesis by (simp only: be_bytes.simps append.simps div_256_256)
qed

lemma length_be_bytes [simp]: "length (be_bytes n v) = n"
  by (induction n arbitrary: v) auto

lemma be_value_Nil [simp]: "be_value [] = 0"
  by (simp add: be_value_def)

lemma be_value_snoc [simp]: "be_value (bs @ [b]) = be_value bs * 256 + unat b"
  by (simp add: be_value_def)

lemma unat_byte_of_nat: "unat (of_nat v :: u8) = v mod 256"
  by (simp add: unat_of_nat)

lemma be_value_be_bytes: "be_value (be_bytes n v) = v mod 256 ^ n"
proof (induction n arbitrary: v)
  case (Suc n)
  have "v mod 256 ^ Suc n = v div 256 mod 256 ^ n * 256 + v mod 256"
    by (metis add.commute mod_mult2_eq mult.commute power_Suc)
  with Suc show ?case by (simp add: unat_byte_of_nat)
qed simp

lemma be_bytes_be_value: "be_bytes (length bs) (be_value bs) = bs"
proof (induction bs rule: rev_induct)
  case (snoc b bs)
  have "unat b < 256" using unsigned_less [of b, where ?'a = nat] by simp
  then have "(be_value bs * 256 + unat b) div 256 = be_value bs" by simp
  moreover have "(of_nat (be_value bs * 256 + unat b) :: u8) = b"
    by (rule unsigned_word_eqI [where ?'a = nat])
      (simp add: unat_byte_of_nat \<open>unat b < 256\<close> del: of_nat_add of_nat_mult)
  ultimately show ?case using snoc by (simp del: of_nat_add of_nat_mult)
qed simp

lemma be_value_less: "be_value bs < 256 ^ length bs"
  by (metis be_bytes_be_value be_value_be_bytes mod_less_divisor zero_less_numeral zero_less_power)

lemma be_bytes_of_value: "length bs = n \<Longrightarrow> be_bytes n (be_value bs) = bs"
  using be_bytes_be_value by blast

section \<open>The contract of a reading operation\<close>

text \<open>
  \<open>parse\<close> reads the values of a wire type: \<open>enc w\<close> is the encoding of the wire value \<open>w\<close>,
  \<open>wf\<close> says which wire values have one, \<open>view w\<close> is what the program keeps of it.
\<close>

locale wire_format =
  fixes parse :: "'a parser"
    and wf :: "'w \<Rightarrow> bool"
    and enc :: "'w \<Rightarrow> u8 list"
    and view :: "'w \<Rightarrow> 'a"
  assumes complete:
      "wf w \<Longrightarrow> parse (reader_at before (enc w @ after))
        = Inr (view w, reader_at (before @ enc w) after)"
    and sound:
      "parse (reader_at before bs) = Inr (a, r') \<Longrightarrow>
        \<exists>w after. wf w \<and> a = view w \<and> bs = enc w @ after \<and> r' = reader_at (before @ enc w) after"
begin

lemma parse_iff:
  "parse (reader_at before bs) = Inr (a, r') \<longleftrightarrow>
    (\<exists>w after. wf w \<and> a = view w \<and> bs = enc w @ after \<and> r' = reader_at (before @ enc w) after)"
  using complete sound by blast

text \<open>The encoding of a value tells where it ends and what it means.\<close>

lemma unambiguous:
  assumes "wf w" "wf w'" "enc w @ after = enc w' @ after'"
  shows "view w = view w'" and "enc w = enc w'"
proof -
  have "parse (reader_at [] (enc w @ after)) = Inr (view w, reader_at (enc w) after)"
    using complete [OF assms(1), of "[]"] by simp
  moreover have "parse (reader_at [] (enc w @ after)) = Inr (view w', reader_at (enc w') after')"
    using complete [OF assms(2), of "[]"] assms(3) by simp
  ultimately show "view w = view w'" and "enc w = enc w'" by auto
qed

lemma keeps_ok: "reader_ok r \<Longrightarrow> parse r = Inr (a, r') \<Longrightarrow> reader_ok r'"
  by (auto simp: reader_ok_iff dest: sound)

lemma repeat_complete:
  "list_all wf ws \<Longrightarrow>
    repeat_parse (length ws) parse (reader_at before (concat (map enc ws) @ after))
      = Inr (map view ws, reader_at (before @ concat (map enc ws)) after)"
  by (induction ws arbitrary: before) (simp_all add: complete)

lemma repeat_sound:
  "repeat_parse n parse (reader_at before bs) = Inr (as, r') \<Longrightarrow>
    \<exists>ws after. length ws = n \<and> list_all wf ws \<and> as = map view ws
      \<and> bs = concat (map enc ws) @ after \<and> r' = reader_at (before @ concat (map enc ws)) after"
proof (induction n arbitrary: before bs as r')
  case (Suc n)
  then obtain a r1 as' where a: "parse (reader_at before bs) = Inr (a, r1)"
    and as': "repeat_parse n parse r1 = Inr (as', r')" and as: "as = a # as'"
    by (auto simp: and_then_Inr_iff)
  from sound [OF a] obtain w mid where w: "wf w" "a = view w" "bs = enc w @ mid"
    and r1: "r1 = reader_at (before @ enc w) mid" by blast
  from Suc.IH [OF as' [unfolded r1]] obtain ws after where
    "length ws = n" "list_all wf ws" "as' = map view ws" "mid = concat (map enc ws) @ after"
    "r' = reader_at ((before @ enc w) @ concat (map enc ws)) after" by blast
  with w as show ?case by (intro exI [of _ "w # ws"] exI [of _ after]) simp
qed auto

end

text \<open>A counted loop over a wire type reads the lists of that length.\<close>

locale wire_loop = wire_format +
  fixes n :: nat

sublocale wire_loop \<subseteq> items: wire_format "repeat_parse n parse"
  "\<lambda>ws. length ws = n \<and> list_all wf ws" "\<lambda>ws. concat (map enc ws)" "map view"
proof unfold_locales
  fix ws before after
  assume "length ws = n \<and> list_all wf ws"
  then show "repeat_parse n parse (reader_at before (concat (map enc ws) @ after))
      = Inr (map view ws, reader_at (before @ concat (map enc ws)) after)"
    using repeat_complete by blast
next
  fix before bs as r'
  assume "repeat_parse n parse (reader_at before bs) = Inr (as, r')"
  then show "\<exists>ws after. (length ws = n \<and> list_all wf ws) \<and> as = map view ws
      \<and> bs = concat (map enc ws) @ after \<and> r' = reader_at (before @ concat (map enc ws)) after"
    using repeat_sound by blast
qed

section \<open>The primitive operations satisfy the contract\<close>

interpretation rd_bytes: wire_format "read_bytes n ctx" "\<lambda>bs. length bs = n" "\<lambda>bs. bs" "\<lambda>bs. bs"
  for n ctx
proof unfold_locales
  fix before bs a r'
  assume "read_bytes n ctx (reader_at before bs) = Inr (a, r')"
  then have "n \<le> length bs" "a = take n bs" "r' = reader_at (before @ take n bs) (drop n bs)"
    by (auto simp: read_bytes_at split: if_splits)
  then show "\<exists>w after. length w = n \<and> a = w \<and> bs = w @ after
      \<and> r' = reader_at (before @ w) after"
    by (intro exI [of _ "take n bs"] exI [of _ "drop n bs"]) simp
qed (simp add: read_bytes_at)

lemma read_u8_at:
  "read_u8 ctx (reader_at before bs) =
    (case bs of [] \<Rightarrow> Inl (Truncated ctx) | b # after \<Rightarrow> Inr (b, reader_at (before @ [b]) after))"
  by (cases bs) (simp_all add: read_u8_def and_then_def read_bytes_at)

interpretation rd_u8: wire_format "read_u8 ctx" "\<lambda>_. True" "\<lambda>b. [b]" "\<lambda>b. b" for ctx
  by unfold_locales (auto simp: read_u8_at split: list.splits)

text \<open>An unsigned integer of \<open>n\<close> bytes, most significant byte first.\<close>

lemma nths_all:
  "length as = 2 \<Longrightarrow> [as ! 0, as ! 1] = as"
  "length as = 4 \<Longrightarrow> [as ! 0, as ! 1, as ! 2, as ! 3] = as"
  by (auto simp: eval_nat_numeral length_Suc_conv)

lemma read_u16_iff:
  "read_u16 ctx (reader_at before bs) = Inr (a, r') \<longleftrightarrow>
    (\<exists>as after. length as = 2 \<and> a = of_nat (be_value as) \<and> bs = as @ after
      \<and> r' = reader_at (before @ as) after)"
  unfolding read_u16_def and_then_Inr_iff rd_bytes.parse_iff give_simp
  by (metis (no_types, opaque_lifting) nths_all(1) old.prod.inject sum.inject(2))

lemma read_u32_iff:
  "read_u32 ctx (reader_at before bs) = Inr (a, r') \<longleftrightarrow>
    (\<exists>as after. length as = 4 \<and> a = of_nat (be_value as) \<and> bs = as @ after
      \<and> r' = reader_at (before @ as) after)"
  unfolding read_u32_def and_then_Inr_iff rd_bytes.parse_iff give_simp
  by (metis (no_types, opaque_lifting) nths_all(2) old.prod.inject sum.inject(2))

lemma be_u16: "length as = 2 \<Longrightarrow> be_bytes 2 (unat (of_nat (be_value as) :: u16)) = as"
  using be_value_less [of as] be_bytes_of_value [of as 2] by (simp add: unat_of_nat)

lemma be_u32: "length as = 4 \<Longrightarrow> be_bytes 4 (unat (of_nat (be_value as) :: u32)) = as"
  using be_value_less [of as] be_bytes_of_value [of as 4] by (simp add: unat_of_nat)

lemma be_u16_value: "of_nat (be_value (be_bytes 2 (unat w))) = (w :: u16)"
  using unsigned_less [of w, where ?'a = nat] by (simp add: be_value_be_bytes)

lemma be_u32_value: "of_nat (be_value (be_bytes 4 (unat w))) = (w :: u32)"
  using unsigned_less [of w, where ?'a = nat] by (simp add: be_value_be_bytes)

lemma be_u16_inject [simp]:
  "be_bytes 2 (unat v) = be_bytes 2 (unat w) \<longleftrightarrow> v = (w :: u16)"
  by (metis be_u16_value)

lemma be_u32_inject [simp]:
  "be_bytes 4 (unat v) = be_bytes 4 (unat w) \<longleftrightarrow> v = (w :: u32)"
  by (metis be_u32_value)

interpretation rd_u16: wire_format "read_u16 ctx" "\<lambda>_. True" "\<lambda>w. be_bytes 2 (unat w)" "\<lambda>w. w"
  for ctx
  by unfold_locales (auto simp: read_u16_iff be_u16_value be_u16)

interpretation rd_u32: wire_format "read_u32 ctx" "\<lambda>_. True" "\<lambda>w. be_bytes 4 (unat w)" "\<lambda>w. w"
  for ctx
  by unfold_locales (auto simp: read_u32_iff be_u32_value be_u32)

text \<open>\<^verbatim>\<open>read_i32\<close> reads the same four bytes; the sign is in how the word is read.\<close>

lemma read_i32_eq: "read_i32 = read_u32"
  by (simp add: fun_eq_iff read_i32_def read_u32_def)

interpretation rd_i32: wire_format "read_i32 ctx" "\<lambda>_. True" "\<lambda>w. be_bytes 4 (unat w)" "\<lambda>w. w"
  for ctx
  unfolding read_i32_eq by unfold_locales

text \<open>A list with its length in front, as an \<open>u16\<close>.\<close>

definition counted :: "string \<Rightarrow> 'a parser \<Rightarrow> 'a list parser" where
  "counted ctx p = and_then (read_u16 ctx) (\<lambda>n. repeat_parse (unat n) p)"

definition enc_counted :: "('w \<Rightarrow> u8 list) \<Rightarrow> 'w list \<Rightarrow> u8 list" where
  "enc_counted e ws = be_bytes 2 (length ws) @ concat (map e ws)"

definition wf_counted :: "('w \<Rightarrow> bool) \<Rightarrow> 'w list \<Rightarrow> bool" where
  "wf_counted P ws \<longleftrightarrow> length ws < 2 ^ 16 \<and> list_all P ws"

lemma read_count:
  assumes "n < 2 ^ 16"
  shows "read_u16 c (reader_at before (be_bytes 2 n @ after)) =
    Inr (of_nat n, reader_at (before @ be_bytes 2 n) after)"
    and "unat (of_nat n :: u16) = n"
  using rd_u16.complete [where w = "of_nat n"] assms by (simp_all add: unat_of_nat)

context wire_format
begin

lemma counted_complete:
  assumes "wf_counted wf ws"
  shows "counted ctx parse (reader_at before (enc_counted enc ws @ after)) =
    Inr (map view ws, reader_at (before @ enc_counted enc ws) after)"
  using assms repeat_complete [of ws "before @ be_bytes 2 (length ws)" after]
  by (simp add: counted_def enc_counted_def wf_counted_def read_count)

lemma counted_sound:
  assumes "counted ctx parse (reader_at before bs) = Inr (as, r')"
  shows "\<exists>ws after. wf_counted wf ws \<and> as = map view ws \<and> bs = enc_counted enc ws @ after
    \<and> r' = reader_at (before @ enc_counted enc ws) after"
proof -
  from assms obtain n mid where n: "bs = be_bytes 2 (unat n) @ mid"
    and rest: "repeat_parse (unat n) parse (reader_at (before @ be_bytes 2 (unat (n :: u16))) mid)
      = Inr (as, r')"
    by (auto simp: counted_def and_then_Inr_iff rd_u16.parse_iff)
  from repeat_sound [OF rest] obtain ws after where ws: "length ws = unat n" "list_all wf ws"
    "as = map view ws" "mid = concat (map enc ws) @ after"
    "r' = reader_at ((before @ be_bytes 2 (unat n)) @ concat (map enc ws)) after" by blast
  have "unat n < 2 ^ 16" using unsigned_less [of n, where ?'a = nat] by simp
  with n ws show ?thesis
    by (intro exI [of _ ws] exI [of _ after]) (simp add: enc_counted_def wf_counted_def)
qed

end

locale wire_counted = wire_format parse wf enc view
  for parse :: "'a parser" and wf :: "'w \<Rightarrow> bool" and enc :: "'w \<Rightarrow> u8 list" and view :: "'w \<Rightarrow> 'a" +
  fixes ctx :: string

sublocale wire_counted \<subseteq> vec: wire_format "counted ctx parse" "wf_counted wf" "enc_counted enc"
  "map view"
  by unfold_locales (simp add: counted_complete, rule counted_sound)

text \<open>A NUL-terminated string holds well-formed UTF-8 without a NUL of its own.\<close>

definition wf_cstring :: "string \<Rightarrow> bool" where
  "wf_cstring s \<longleftrightarrow> utf8_valid (as_bytes s) \<and> 0 \<notin> set (as_bytes s)"

definition enc_cstring :: "string \<Rightarrow> u8 list" where
  "enc_cstring s = as_bytes s @ [0]"

lemma ascii_cstring: "ascii s \<Longrightarrow> wf_cstring s"
  by (auto simp: wf_cstring_def utf8_valid_ascii ascii_def list_all_iff as_bytes_def ascii_byte
      byte_zero image_iff eq_commute [of 0])

lemma position_Some_iff:
  "position P xs = Some n \<longleftrightarrow> n < length xs \<and> P (xs ! n) \<and> (\<forall>i < n. \<not> P (xs ! i))"
proof (induction xs arbitrary: n)
  case (Cons x xs)
  then show ?case
    by (cases n) (auto simp: less_Suc_eq_0_disj)
qed simp

lemma position_None_iff: "position P xs = None \<longleftrightarrow> (\<forall>x \<in> set xs. \<not> P x)"
  by (induction xs) auto

lemma position_append:
  "\<forall>x \<in> set xs. \<not> P x \<Longrightarrow> P y \<Longrightarrow> position P (xs @ y # ys) = Some (length xs)"
  by (induction xs) auto

lemma position_split:
  assumes "position P xs = Some n"
  shows "\<exists>y ys. xs = take n xs @ y # ys \<and> P y \<and> (\<forall>x \<in> set (take n xs). \<not> P x)"
proof -
  from assms have n: "n < length xs" "P (xs ! n)" "\<forall>i < n. \<not> P (xs ! i)"
    by (auto simp: position_Some_iff)
  then have "xs = take n xs @ xs ! n # drop (Suc n) xs" by (simp add: id_take_nth_drop)
  moreover have "\<forall>x \<in> set (take n xs). \<not> P x"
    using n by (auto simp: in_set_conv_nth)
  ultimately show ?thesis using n(2) by blast
qed

lemma read_cstring_at:
  "read_cstring ctx (reader_at before bs) =
    (case position (\<lambda>b. b = 0) bs of
       None \<Rightarrow> Inl (Truncated ctx)
     | Some n \<Rightarrow>
        (case from_utf8 (take n bs) of
           None \<Rightarrow> Inl (InvalidUtf8 ctx)
         | Some s \<Rightarrow> Inr (s, reader_at (before @ take (Suc n) bs) (drop (Suc n) bs))))"
proof (cases "position (\<lambda>b. b = 0) bs")
  case None
  then show ?thesis by (simp add: read_cstring_def reader_at_def)
next
  case (Some n)
  then have "n < length bs" by (simp add: position_Some_iff)
  with Some show ?thesis
    by (simp add: read_cstring_def reader_at_def Let_def split: option.split)
qed

interpretation rd_cstring: wire_format "read_cstring ctx" wf_cstring enc_cstring "\<lambda>s. s" for ctx
proof unfold_locales
  fix s before after
  assume "wf_cstring s"
  then have "position (\<lambda>b. b = 0) (as_bytes s @ 0 # after) = Some (length s)"
    and "from_utf8 (as_bytes s) = Some s"
    using position_append [of "as_bytes s" "\<lambda>b. b = 0" 0 after]
    by (auto simp: wf_cstring_def from_utf8_as_bytes)
  then show "read_cstring ctx (reader_at before (enc_cstring s @ after)) =
      Inr (s, reader_at (before @ enc_cstring s) after)"
    by (simp add: read_cstring_at enc_cstring_def)
next
  fix before bs s r'
  assume "read_cstring ctx (reader_at before bs) = Inr (s, r')"
  then obtain n where n: "position (\<lambda>b. b = 0) bs = Some n" "from_utf8 (take n bs) = Some s"
    "r' = reader_at (before @ take (Suc n) bs) (drop (Suc n) bs)"
    by (auto simp: read_cstring_at split: option.splits)
  from position_split [OF n(1)] obtain ys where
    ys: "bs = take n bs @ 0 # ys" "\<forall>x \<in> set (take n bs). x \<noteq> 0" by auto
  have s: "take n bs = as_bytes s" "utf8_valid (as_bytes s)"
    using n(2) by (auto simp: from_utf8_Some_iff)
  have "n < length bs" using n(1) by (simp add: position_Some_iff)
  then have len: "length s = n" using arg_cong [OF s(1), of length] by simp
  have "take (Suc n) bs = enc_cstring s" "drop (Suc n) bs = ys"
    using ys(1) s(1) len by (metis Suc_eq_plus1 append.assoc append_Cons append_eq_conv_conj
        append_Nil enc_cstring_def length_append_singleton length_as_bytes)+
  moreover have "wf_cstring s" using ys(2) s unfolding wf_cstring_def by metis
  moreover have "bs = enc_cstring s @ ys" using ys(1) s(1) by (simp add: enc_cstring_def)
  ultimately show "\<exists>w after. wf_cstring w \<and> s = w \<and> bs = enc_cstring w @ after
      \<and> r' = reader_at (before @ enc_cstring w) after"
    using n(3) by auto
qed

section \<open>No overflow of the cursor\<close>

text \<open>
  A slice never has more than \<open>isize::MAX\<close> bytes, and the parser asks for at most \<open>i32::MAX\<close> of
  them, so the sum in \<^verbatim>\<open>read_bytes\<close> stays below \<open>2 ^ 64\<close>: the machine computes what
  the model with natural numbers does.
\<close>

lemma read_bytes_usize_eq:
  assumes "reader_ok r" and "length (data r) < 2 ^ 63" and "len < 2 ^ 63"
  shows "read_bytes_usize (of_nat len) ctx (data r) (of_nat (pos r)) =
    map_sum id (map_prod id (\<lambda>r'. of_nat (pos r'))) (read_bytes len ctx r)"
proof -
  have pos: "pos r < 2 ^ 63" using assms by (simp add: reader_ok_def)
  have "unat (of_nat (pos r) + of_nat len :: u64) = pos r + len"
    using pos assms(3) by (simp add: unat_word_ariths unat_of_nat)
  moreover have "unat (of_nat (length (data r)) :: u64) = length (data r)"
    using assms(2) by (simp add: unat_of_nat)
  ultimately have "of_nat (length (data r)) < (of_nat (pos r) + of_nat len :: u64) \<longleftrightarrow>
      length (data r) < pos r + len"
    by (simp add: word_less_nat_alt)
  moreover have "unat (of_nat (pos r) :: u64) = pos r" "unat (of_nat len :: u64) = len"
    using pos assms(3) by (simp_all add: unat_of_nat)
  ultimately show ?thesis by (simp add: read_bytes_usize_def read_bytes_def)
qed

end
