(* ===== verification/Wal_Types.thy ===== *)
theory Wal_Types
  imports Mini_Prelude
begin

text \<open>
  \<^verbatim>\<open>src/wal/types.rs\<close>: invalidation hints and their key, column values, tuples as maps from
  column names to values, and the row-change events the WAL reader works on.
\<close>

section \<open>Query hints\<close>

datatype query_hint = QueryHint (hint_table: string) (hint_column: string) (hint_value: string)

definition to_key :: "query_hint \<Rightarrow> string" where
  "to_key h = hint_table h @ '':'' @ hint_column h @ '':'' @ hint_value h"

text \<open>
  A linear order on hints (that of their three strings), so that hash sets of hints have the sorted
  list as one of their iteration orders.
\<close>

definition hint_fields :: "query_hint \<Rightarrow> string list" where
  "hint_fields h = [hint_table h, hint_column h, hint_value h]"

lemma hint_fields_inject [simp]: "hint_fields h = hint_fields h' \<longleftrightarrow> h = h'"
  by (cases h; cases h') (simp add: hint_fields_def)

instantiation query_hint :: linorder
begin

definition less_eq_query_hint :: "query_hint \<Rightarrow> query_hint \<Rightarrow> bool" where
  "less_eq_query_hint h h' \<longleftrightarrow> hint_fields h \<le> hint_fields h'"

definition less_query_hint :: "query_hint \<Rightarrow> query_hint \<Rightarrow> bool" where
  "less_query_hint h h' \<longleftrightarrow> hint_fields h < hint_fields h'"

instance
  by intro_classes (auto simp: less_eq_query_hint_def less_query_hint_def less_le)

end

text \<open>
  The key is what clients receive instead of the hint. It identifies the hint as long as the table
  and column names have no colon (the value may have some).
\<close>

lemma split_at_colon:
  assumes "CHR '':'' \<notin> set a" "CHR '':'' \<notin> set b"
    and "a @ CHR '':'' # x = b @ CHR '':'' # y"
  shows "a = b \<and> x = y"
proof -
  have "takeWhile (\<lambda>c. c \<noteq> CHR '':'') (a @ CHR '':'' # x) = a"
    "takeWhile (\<lambda>c. c \<noteq> CHR '':'') (b @ CHR '':'' # y) = b"
    using assms(1,2) by (auto simp: takeWhile_append)
  with assms(3) show ?thesis by auto
qed

definition plain_names :: "query_hint \<Rightarrow> bool" where
  "plain_names h \<longleftrightarrow> CHR '':'' \<notin> set (hint_table h) \<and> CHR '':'' \<notin> set (hint_column h)"

lemma to_key_inject:
  assumes "plain_names h" "plain_names h'"
  shows "to_key h = to_key h' \<longleftrightarrow> h = h'"
proof
  assume eq: "to_key h = to_key h'"
  then have "hint_table h = hint_table h' \<and>
      hint_column h @ CHR '':'' # hint_value h = hint_column h' @ CHR '':'' # hint_value h'"
    using assms by (intro split_at_colon) (simp_all add: to_key_def plain_names_def)
  moreover from this have "hint_column h = hint_column h' \<and> hint_value h = hint_value h'"
    using assms by (intro split_at_colon) (simp_all add: plain_names_def)
  ultimately show "h = h'" by (auto intro: query_hint.expand)
qed simp

section \<open>Values and tuples\<close>

datatype wal_value = Null | Text string | IntVal i64

fun as_str :: "wal_value \<Rightarrow> string option" where
  "as_str (Text s) = Some s"
| "as_str Null = None"
| "as_str (IntVal v) = None"

fun as_i64 :: "wal_value \<Rightarrow> i64 option" where
  "as_i64 (IntVal v) = Some v"
| "as_i64 Null = None"
| "as_i64 (Text s) = None"

record tuple_data =
  tuple_columns :: "(string, wal_value) fmap"

text \<open>\<^verbatim>\<open>values.get(idx).cloned().unwrap_or(Value::Null)\<close>\<close>

definition value_at :: "wal_value list \<Rightarrow> nat \<Rightarrow> wal_value" where
  "value_at values idx = (if idx < length values then values ! idx else Null)"

fun from_values_loop ::
    "nat \<Rightarrow> string list \<Rightarrow> wal_value list \<Rightarrow> (string, wal_value) fmap \<Rightarrow> (string, wal_value) fmap" where
  "from_values_loop idx [] values columns = columns"
| "from_values_loop idx (column_name # names) values columns =
    from_values_loop (Suc idx) names values (fmupd column_name (value_at values idx) columns)"

definition from_values :: "string list \<Rightarrow> wal_value list \<Rightarrow> tuple_data" where
  "from_values column_names values =
    \<lparr>tuple_columns = from_values_loop 0 column_names values fmempty\<rparr>"

text \<open>Reading one column of a tuple.\<close>

abbreviation column_of :: "tuple_data \<Rightarrow> string \<Rightarrow> wal_value option" where
  "column_of t c \<equiv> fmlookup (tuple_columns t) c"

lemma from_values_loop_notin:
  "c \<notin> set names \<Longrightarrow> fmlookup (from_values_loop idx names vs m) c = fmlookup m c"
  by (induction names arbitrary: idx m) auto

lemma from_values_loop_at:
  assumes "names = before @ c # after" and "c \<notin> set after"
  shows "fmlookup (from_values_loop idx names vs m) c = Some (value_at vs (idx + length before))"
  using assms
proof (induction before arbitrary: names idx m)
  case Nil
  then show ?case by (simp add: from_values_loop_notin)
next
  case (Cons b before)
  then show ?case using Cons.IH [of "before @ c # after" "Suc idx"] by simp
qed

text \<open>A column name maps to the value at its last position, absent values to \<open>Null\<close>.\<close>

lemma from_values_lookup:
  assumes "c \<notin> set after"
  shows "column_of (from_values (before @ c # after) vs) c = Some (value_at vs (length before))"
  using from_values_loop_at [OF refl assms, of 0] by (simp add: from_values_def)

lemma from_values_absent: "c \<notin> set names \<Longrightarrow> column_of (from_values names vs) c = None"
  by (simp add: from_values_def from_values_loop_notin)

lemma from_values_dom: "column_of (from_values names vs) c = None \<longleftrightarrow> c \<notin> set names"
proof
  assume "column_of (from_values names vs) c = None"
  then show "c \<notin> set names"
    by (metis from_values_lookup option.distinct(1) split_list_last)
qed (rule from_values_absent)

lemma from_values_nth:
  assumes "distinct names" "i < length names"
  shows "column_of (from_values names vs) (names ! i) = Some (value_at vs i)"
proof -
  have "names = take i names @ names ! i # drop (Suc i) names"
    using assms(2) by (rule id_take_nth_drop)
  moreover from this have "names ! i \<notin> set (drop (Suc i) names)"
    using assms(1) by (metis distinct.simps(2) distinct_append)
  ultimately show ?thesis
    using from_values_lookup [of "names ! i" "drop (Suc i) names" "take i names" vs] assms(2)
    by (simp add: min_def)
qed

section \<open>Row-change events\<close>

datatype wal_event =
    EvInsert (event_relation_id: u32) (event_relation_name: string) (event_new: tuple_data)
  | EvUpdate (event_relation_id: u32) (event_relation_name: string)
      (event_old: "tuple_data option") (event_new: tuple_data)
  | EvDelete (event_relation_id: u32) (event_relation_name: string) (event_deleted: tuple_data)

end
