(* ===== verification/Pg_Output.thy ===== *)
theory Pg_Output
  imports Byte_Reader Wal_Types
begin

text \<open>
  \<^verbatim>\<open>src/wal/pgoutput.rs\<close>: the parser of pgoutput payloads into messages, and the conversion
  of messages into row-change events with the table of relations seen so far.
\<close>

section \<open>Messages\<close>

record relation =
  rel_id :: u32
  rel_namespace :: string
  rel_name :: string
  rel_columns :: "string list"

datatype pg_output_message =
    MsgRelation relation
  | MsgInsert u32 "wal_value list"
  | MsgUpdate u32 "wal_value list option" "wal_value list"
  | MsgDelete u32 "wal_value list"

datatype pg_output_conversion_error = SchemaChange

text \<open>A byte literal \<^verbatim>\<open>b'c'\<close>.\<close>

abbreviation tag :: "char \<Rightarrow> u8" where
  "tag c \<equiv> byte_of_char c"

section \<open>The parser\<close>

definition parse_relation_column :: "string parser" where
  "parse_relation_column =
    and_then (read_u8 ''relation column flags'') (\<lambda>flags.
    and_then (read_cstring ''relation column name'') (\<lambda>col_name.
    and_then (read_u32 ''relation column type oid'') (\<lambda>type_oid.
    and_then (read_i32 ''relation column type modifier'') (\<lambda>type_modifier.
    give col_name))))"

definition parse_relation :: "relation parser" where
  "parse_relation =
    and_then (read_u32 ''relation id'') (\<lambda>id.
    and_then (read_cstring ''relation namespace'') (\<lambda>namespace.
    and_then (read_cstring ''relation name'') (\<lambda>name.
    and_then (read_u8 ''replica identity'') (\<lambda>replica_identity.
    and_then (read_u16 ''relation column count'') (\<lambda>num_columns.
    and_then (repeat_parse (unat num_columns) parse_relation_column) (\<lambda>columns.
    give \<lparr>rel_id = id, rel_namespace = namespace, rel_name = name, rel_columns = columns\<rparr>))))))"

text \<open>
  \<^verbatim>\<open>len < 0\<close> is the sign of the 32-bit word; \<^verbatim>\<open>len as usize\<close> is its value once it
  is known not to be negative.
\<close>

definition parse_tuple_column :: "wal_value parser" where
  "parse_tuple_column =
    and_then (read_u8 ''tuple column kind'') (\<lambda>kind.
      if kind = tag CHR ''n'' then give Null
      else if kind = tag CHR ''u'' then give Null
      else if kind = tag CHR ''t'' \<or> kind = tag CHR ''b'' then
        and_then (read_i32 ''tuple column length'') (\<lambda>len.
          if sint len < 0 then throw (Truncated ''tuple column bytes'')
          else
            and_then (read_bytes (nat (sint len)) ''tuple column bytes'') (\<lambda>bytes.
              case from_utf8 bytes of
                None \<Rightarrow> throw (InvalidUtf8 ''tuple column'')
              | Some value \<Rightarrow> give (Text value)))
      else throw (UnsupportedTupleKind kind))"

definition parse_tuple :: "wal_value list parser" where
  "parse_tuple =
    and_then (read_u16 ''tuple column count'') (\<lambda>num_columns.
      repeat_parse (unat num_columns) parse_tuple_column)"

definition parse_insert :: "pg_output_message parser" where
  "parse_insert =
    and_then (read_u32 ''insert relation id'') (\<lambda>relation_id.
    and_then (read_u8 ''insert tuple kind'') (\<lambda>kind.
      if kind \<noteq> tag CHR ''N'' then throw (UnknownMessageTag kind)
      else
        and_then parse_tuple (\<lambda>new_values.
        give (MsgInsert relation_id new_values))))"

lemma forward_parse_relation [wire_intros]: "forward parse_relation"
  unfolding parse_relation_def parse_relation_column_def by (intro wire_intros)

lemma forward_parse_tuple_column [wire_intros]: "forward parse_tuple_column"
  unfolding parse_tuple_column_def
  by (intro wire_intros, auto intro!: wire_intros split: option.split)

lemma forward_parse_tuple [wire_intros]: "forward parse_tuple"
  unfolding parse_tuple_def by (intro wire_intros)

lemma read_u8_in_range: "read_u8 ctx r = Inr (b, r') \<Longrightarrow> pos r < length (data r)"
  by (auto simp: read_u8_def read_bytes_def and_then_Inr_iff split: if_splits)

text \<open>
  The loop of \<^verbatim>\<open>parse_update\<close>: old tuples (\<open>K\<close> or \<open>O\<close>) until the new one (\<open>N\<close>); the
  last old tuple is kept. Each round reads a byte, so the loop ends at the end of the slice.
\<close>

function parse_update_loop ::
    "wal_value list option \<Rightarrow> (wal_value list option \<times> wal_value list) parser" where
  "parse_update_loop old_values r =
    (case read_u8 ''update tuple kind'' r of
       Inl e \<Rightarrow> Inl e
     | Inr (kind, r1) \<Rightarrow>
        if kind = tag CHR ''K'' \<or> kind = tag CHR ''O'' then
          (case parse_tuple r1 of
             Inl e \<Rightarrow> Inl e
           | Inr (vals, r2) \<Rightarrow> parse_update_loop (Some vals) r2)
        else if kind = tag CHR ''N'' then
          (case parse_tuple r1 of
             Inl e \<Rightarrow> Inl e
           | Inr (vals, r2) \<Rightarrow> Inr ((old_values, vals), r2))
        else Inl (UnknownMessageTag kind))"
  by pat_completeness auto

termination
proof (relation "measure (\<lambda>(_, r). length (data r) - pos r)", goal_cases)
  case (2 old_values r p kind r1 q vals r2)
  from 2 have "read_u8 ''update tuple kind'' r = Inr (kind, r1)"
    and tuple: "parse_tuple r1 = Inr (vals, r2)" by auto
  then have "pos r < length (data r)" "data r1 = data r" "pos r1 = pos r + 1"
    using read_u8_in_range read_u8_moves by blast+
  with forwardD [OF forward_parse_tuple tuple] show ?case by (simp add: diff_less_mono2)
qed simp

declare parse_update_loop.simps [simp del]

definition parse_update :: "pg_output_message parser" where
  "parse_update =
    and_then (read_u32 ''update relation id'') (\<lambda>relation_id.
    and_then (parse_update_loop None) (\<lambda>(old_values, new_values).
    give (MsgUpdate relation_id old_values new_values)))"

definition parse_delete :: "pg_output_message parser" where
  "parse_delete =
    and_then (read_u32 ''delete relation id'') (\<lambda>relation_id.
    and_then (read_u8 ''delete tuple kind'') (\<lambda>kind.
      if kind = tag CHR ''K'' \<or> kind = tag CHR ''O'' then
        and_then parse_tuple (\<lambda>old_values.
        give (MsgDelete relation_id old_values))
      else throw (UnknownMessageTag kind)))"

text \<open>One round of the loop of \<^verbatim>\<open>parse_pgoutput_messages\<close>.\<close>

definition parse_message :: "pg_output_message parser" where
  "parse_message =
    and_then (read_u8 ''message tag'') (\<lambda>t.
      if t = tag CHR ''R'' then and_then parse_relation (\<lambda>rel. give (MsgRelation rel))
      else if t = tag CHR ''I'' then parse_insert
      else if t = tag CHR ''U'' then parse_update
      else if t = tag CHR ''D'' then parse_delete
      else throw (UnknownMessageTag t))"

lemma forward_parse_update_loop [wire_intros]: "forward (parse_update_loop old)"
proof -
  have "data r' = data r \<and> pos r \<le> pos r'"
    if "parse_update_loop old r = Inr (a, r')" for r a r'
    using that
  proof (induction old r arbitrary: a r' rule: parse_update_loop.induct)
    case (1 old r)
    from "1.prems" obtain kind r1 where kind: "read_u8 ''update tuple kind'' r = Inr (kind, r1)"
      by (subst (asm) parse_update_loop.simps) (auto split: sum.splits)
    note moved = read_u8_moves [OF kind]
    from "1.prems" kind obtain vals r2 where tuple: "parse_tuple r1 = Inr (vals, r2)"
      by (subst (asm) parse_update_loop.simps) (auto split: sum.splits if_splits)
    note moved' = forwardD [OF forward_parse_tuple tuple]
    show ?case
    proof (cases "kind = tag CHR ''K'' \<or> kind = tag CHR ''O''")
      case True
      then have "parse_update_loop (Some vals) r2 = Inr (a, r')"
        using "1.prems" kind tuple by (subst (asm) parse_update_loop.simps) auto
      from "1.IH" [OF kind refl True tuple refl this] moved moved' show ?thesis by simp
    next
      case False
      then have "r' = r2"
        using "1.prems" kind tuple
        by (subst (asm) parse_update_loop.simps) (auto split: if_splits)
      with moved moved' show ?thesis by simp
    qed
  qed
  then show ?thesis by (simp add: forward_def)
qed

lemma forward_parse_insert [wire_intros]: "forward parse_insert"
  unfolding parse_insert_def by (intro wire_intros, auto intro!: wire_intros)

lemma forward_parse_delete [wire_intros]: "forward parse_delete"
  unfolding parse_delete_def by (intro wire_intros, auto intro!: wire_intros)

lemma forward_parse_update [wire_intros]: "forward parse_update"
  unfolding parse_update_def by (intro wire_intros, auto intro!: wire_intros)

lemma parse_message_moves:
  assumes "parse_message r = Inr (m, r')"
  shows "data r' = data r \<and> pos r < pos r' \<and> pos r < length (data r)"
proof -
  from assms obtain t r1 where t: "read_u8 ''message tag'' r = Inr (t, r1)"
    and rest: "(if t = tag CHR ''R'' then and_then parse_relation (\<lambda>rel. give (MsgRelation rel))
      else if t = tag CHR ''I'' then parse_insert
      else if t = tag CHR ''U'' then parse_update
      else if t = tag CHR ''D'' then parse_delete
      else throw (UnknownMessageTag t)) r1 = Inr (m, r')" (is "?p r1 = _")
    by (auto simp: parse_message_def and_then_Inr_iff)
  have "forward ?p" by (auto simp del: give_simp throw_simp intro!: wire_intros)
  from forwardD [OF this rest] read_u8_moves [OF t] read_u8_in_range [OF t]
  show ?thesis by simp
qed

function parse_messages_loop :: "byte_reader \<Rightarrow> pg_output_error + pg_output_message list" where
  "parse_messages_loop r =
    (if reader_is_empty r then Inr []
     else
       (case parse_message r of
          Inl e \<Rightarrow> Inl e
        | Inr (m, r') \<Rightarrow>
           (case parse_messages_loop r' of
              Inl e \<Rightarrow> Inl e
            | Inr messages \<Rightarrow> Inr (m # messages))))"
  by pat_completeness auto
termination
  by (relation "measure (\<lambda>r. length (data r) - pos r)")
    (auto simp: reader_is_empty_def dest!: parse_message_moves)

declare parse_messages_loop.simps [simp del]

definition parse_pgoutput_messages :: "u8 list \<Rightarrow> pg_output_error + pg_output_message list" where
  "parse_pgoutput_messages d = parse_messages_loop (new_reader d)"

end
