(* ===== verification/Pg_Wire.thy ===== *)
theory Pg_Wire
  imports Pg_Output
begin

text \<open>
  The pgoutput wire format the parser of \<^verbatim>\<open>src/wal/pgoutput.rs\<close> is written for, as a
  specification: wire messages with every field they carry (also those the program skips), their
  encoding, and what the program keeps of them. Each parsing function is an interpretation of
  \<open>wire_format\<close>: it accepts exactly the encodings of its wire type.
\<close>

section \<open>Tuples\<close>

datatype wire_value = WNull | WUnchanged | WText string | WBinary string

fun wf_wire_value :: "wire_value \<Rightarrow> bool" where
  "wf_wire_value (WText s) \<longleftrightarrow> utf8_valid (as_bytes s) \<and> length s < 2 ^ 31"
| "wf_wire_value (WBinary s) \<longleftrightarrow> utf8_valid (as_bytes s) \<and> length s < 2 ^ 31"
| "wf_wire_value _ \<longleftrightarrow> True"

fun enc_wire_value :: "wire_value \<Rightarrow> u8 list" where
  "enc_wire_value WNull = [tag CHR ''n'']"
| "enc_wire_value WUnchanged = [tag CHR ''u'']"
| "enc_wire_value (WText s) = tag CHR ''t'' # be_bytes 4 (length s) @ as_bytes s"
| "enc_wire_value (WBinary s) = tag CHR ''b'' # be_bytes 4 (length s) @ as_bytes s"

fun value_of :: "wire_value \<Rightarrow> wal_value" where
  "value_of WNull = Null"
| "value_of WUnchanged = Null"
| "value_of (WText s) = Text s"
| "value_of (WBinary s) = Text s"

lemma unat_length32: "n < 2 ^ 31 \<Longrightarrow> unat (of_nat n :: i32) = n"
  by (simp add: unat_of_nat)

lemma read_i32_length:
  assumes "n < 2 ^ 31"
  shows "read_i32 ctx (reader_at before (be_bytes 4 n @ after)) =
    Inr (of_nat n, reader_at (before @ be_bytes 4 n) after)"
  using rd_i32.complete [where w = "of_nat n"] assms by (simp add: unat_length32)

lemma tuple_text_complete:
  assumes "utf8_valid (as_bytes s)" "length s < 2 ^ 31" "k = tag CHR ''t'' \<or> k = tag CHR ''b''"
  shows "parse_tuple_column (reader_at before (k # be_bytes 4 (length s) @ as_bytes s @ after)) =
    Inr (Text s, reader_at (before @ k # be_bytes 4 (length s) @ as_bytes s) after)"
proof -
  let ?r = "reader_at ((before @ [k]) @ be_bytes 4 (length s)) (as_bytes s @ after)"
  have bytes: "read_bytes (length s) ctx ?r = Inr (as_bytes s, reader_at
      (((before @ [k]) @ be_bytes 4 (length s)) @ as_bytes s) after)" for ctx
    by (rule rd_bytes.complete) simp
  have "\<not> sint (of_nat (length s) :: i32) < 0" "nat (sint (of_nat (length s) :: i32)) = length s"
    using assms(2) by (simp_all add: sint32_neg_iff nat_sint32 unat_length32)
  then show ?thesis
    using assms bytes
    by (auto simp: parse_tuple_column_def and_then_def read_u8_at read_i32_length
        from_utf8_as_bytes)
qed

lemma tuple_text_sound:
  assumes "and_then (read_i32 ''tuple column length'') (\<lambda>len.
      if sint len < 0 then throw (Truncated ''tuple column bytes'')
      else
        and_then (read_bytes (nat (sint len)) ''tuple column bytes'') (\<lambda>bytes.
          case from_utf8 bytes of
            None \<Rightarrow> throw (InvalidUtf8 ''tuple column'')
          | Some value \<Rightarrow> give (Text value))) (reader_at before bs) = Inr (a, r')"
  shows "\<exists>s after. utf8_valid (as_bytes s) \<and> length s < 2 ^ 31 \<and> a = Text s
    \<and> bs = be_bytes 4 (length s) @ as_bytes s @ after
    \<and> r' = reader_at (before @ be_bytes 4 (length s) @ as_bytes s) after"
proof -
  let ?take = "\<lambda>n. and_then (read_bytes n ''tuple column bytes'') (\<lambda>bytes.
          case from_utf8 bytes of
            None \<Rightarrow> throw (InvalidUtf8 ''tuple column'')
          | Some value \<Rightarrow> give (Text value))"
  from assms obtain len r1 where len: "read_i32 ''tuple column length'' (reader_at before bs) = Inr (len, r1)"
    and rest: "(if sint len < 0 then throw (Truncated ''tuple column bytes'')
      else ?take (nat (sint len))) r1 = Inr (a, r')"
    unfolding and_then_Inr_iff by blast
  from len obtain mid where mid: "bs = be_bytes 4 (unat len) @ mid"
    "r1 = reader_at (before @ be_bytes 4 (unat len)) mid"
    unfolding rd_i32.parse_iff by blast
  from rest have small: "unat len < 2 ^ 31"
    by (auto simp: sint32_neg_iff split: if_splits)
  with rest have rest: "?take (unat len) (reader_at (before @ be_bytes 4 (unat len)) mid) = Inr (a, r')"
    by (auto simp: mid nat_sint32 split: if_splits)
  from rest obtain bytes after s where "length bytes = unat len" "mid = bytes @ after"
    "from_utf8 bytes = Some s" "a = Text s"
    "r' = reader_at ((before @ be_bytes 4 (unat len)) @ bytes) after"
    by (auto simp: and_then_Inr_iff rd_bytes.parse_iff split: option.splits)
  then show ?thesis
    using mid small by (intro exI [of _ s] exI [of _ after]) (auto simp: from_utf8_Some_iff)
qed

interpretation rd_column: wire_format parse_tuple_column wf_wire_value enc_wire_value value_of
proof unfold_locales
  fix w before after
  assume "wf_wire_value w"
  then show "parse_tuple_column (reader_at before (enc_wire_value w @ after)) =
      Inr (value_of w, reader_at (before @ enc_wire_value w) after)"
    by (cases w)
      (simp_all add: tuple_text_complete, simp_all add: parse_tuple_column_def and_then_def read_u8_at)
next
  fix before bs a r'
  assume parsed: "parse_tuple_column (reader_at before bs) = Inr (a, r')"
  then obtain kind mid where bs: "bs = kind # mid"
    unfolding parse_tuple_column_def by (auto simp: and_then_Inr_iff rd_u8.parse_iff)
  consider (null) "kind = tag CHR ''n''" "a = Null" "r' = reader_at (before @ [kind]) mid"
    | (unchanged) "kind = tag CHR ''u''" "a = Null" "r' = reader_at (before @ [kind]) mid"
    | (chars) s after where "kind = tag CHR ''t'' \<or> kind = tag CHR ''b''"
      "utf8_valid (as_bytes s)" "length s < 2 ^ 31" "a = Text s"
      "mid = be_bytes 4 (length s) @ as_bytes s @ after"
      "r' = reader_at ((before @ [kind]) @ be_bytes 4 (length s) @ as_bytes s) after"
    using parsed unfolding bs parse_tuple_column_def and_then_Inr_iff rd_u8.parse_iff
    by (auto split: if_splits dest!: tuple_text_sound)
  then show "\<exists>w after. wf_wire_value w \<and> a = value_of w \<and> bs = enc_wire_value w @ after
      \<and> r' = reader_at (before @ enc_wire_value w) after"
  proof cases
    case null
    with bs show ?thesis by (intro exI [of _ WNull]) simp
  next
    case unchanged
    with bs show ?thesis by (intro exI [of _ WUnchanged]) simp
  next
    case chars
    then show ?thesis
      using bs by (elim disjE) (intro exI [of _ "WText s"], simp, intro exI [of _ "WBinary s"], simp)
  qed
qed

text \<open>A tuple is a counted list of column values.\<close>

abbreviation wf_wire_tuple :: "wire_value list \<Rightarrow> bool" where
  "wf_wire_tuple \<equiv> wf_counted wf_wire_value"

abbreviation enc_wire_tuple :: "wire_value list \<Rightarrow> u8 list" where
  "enc_wire_tuple \<equiv> enc_counted enc_wire_value"

interpretation rd_values: wire_counted parse_tuple_column wf_wire_value enc_wire_value value_of
  "''tuple column count''"
  by unfold_locales

lemma parse_tuple_counted: "parse_tuple = counted ''tuple column count'' parse_tuple_column"
  by (simp add: parse_tuple_def counted_def)

interpretation rd_tuple: wire_format parse_tuple wf_wire_tuple enc_wire_tuple "map value_of"
  unfolding parse_tuple_counted by unfold_locales

section \<open>Relations\<close>

text \<open>A column: flags, name, type OID and type modifier; the program keeps the name.\<close>

record wire_column =
  wc_flags :: u8
  wc_name :: string
  wc_type_oid :: u32
  wc_type_modifier :: i32

definition wf_wire_column :: "wire_column \<Rightarrow> bool" where
  "wf_wire_column c \<longleftrightarrow> wf_cstring (wc_name c)"

definition enc_wire_column :: "wire_column \<Rightarrow> u8 list" where
  "enc_wire_column c = wc_flags c # enc_cstring (wc_name c) @
    be_bytes 4 (unat (wc_type_oid c)) @ be_bytes 4 (unat (wc_type_modifier c))"

interpretation rd_relation_column: wire_format parse_relation_column wf_wire_column enc_wire_column
  wc_name
proof unfold_locales
  fix c before after
  assume "wf_wire_column c"
  then show "parse_relation_column (reader_at before (enc_wire_column c @ after)) =
      Inr (wc_name c, reader_at (before @ enc_wire_column c) after)"
    by (simp add: parse_relation_column_def enc_wire_column_def wf_wire_column_def read_u8_at
        rd_cstring.complete rd_u32.complete rd_i32.complete)
next
  fix before bs a r'
  assume "parse_relation_column (reader_at before bs) = Inr (a, r')"
  then obtain flags name oid modifier after where "wf_cstring name" "a = name"
    "bs = flags # enc_cstring name @ be_bytes 4 (unat (oid :: u32)) @
      be_bytes 4 (unat (modifier :: i32)) @ after"
    "r' = reader_at (before @ flags # enc_cstring name @ be_bytes 4 (unat oid) @
      be_bytes 4 (unat modifier)) after"
    by (auto simp: parse_relation_column_def and_then_Inr_iff rd_u8.parse_iff rd_cstring.parse_iff
        rd_u32.parse_iff rd_i32.parse_iff)
  then show "\<exists>c after. wf_wire_column c \<and> a = wc_name c \<and> bs = enc_wire_column c @ after
      \<and> r' = reader_at (before @ enc_wire_column c) after"
    by (intro exI [of _ "\<lparr>wc_flags = flags, wc_name = name, wc_type_oid = oid,
          wc_type_modifier = modifier\<rparr>"] exI [of _ after])
      (simp add: wf_wire_column_def enc_wire_column_def)
qed

record wire_relation =
  wr_id :: u32
  wr_namespace :: string
  wr_name :: string
  wr_replica_identity :: u8
  wr_columns :: "wire_column list"

definition wf_wire_relation :: "wire_relation \<Rightarrow> bool" where
  "wf_wire_relation w \<longleftrightarrow> wf_cstring (wr_namespace w) \<and> wf_cstring (wr_name w)
    \<and> wf_counted wf_wire_column (wr_columns w)"

definition enc_wire_relation :: "wire_relation \<Rightarrow> u8 list" where
  "enc_wire_relation w = be_bytes 4 (unat (wr_id w)) @ enc_cstring (wr_namespace w) @
    enc_cstring (wr_name w) @ wr_replica_identity w # enc_counted enc_wire_column (wr_columns w)"

definition relation_of :: "wire_relation \<Rightarrow> relation" where
  "relation_of w = \<lparr>rel_id = wr_id w, rel_namespace = wr_namespace w, rel_name = wr_name w,
    rel_columns = map wc_name (wr_columns w)\<rparr>"

interpretation rd_columns: wire_counted parse_relation_column wf_wire_column enc_wire_column wc_name
  "''relation column count''"
  by unfold_locales

lemma parse_relation_counted:
  "parse_relation =
    and_then (read_u32 ''relation id'') (\<lambda>id.
    and_then (read_cstring ''relation namespace'') (\<lambda>namespace.
    and_then (read_cstring ''relation name'') (\<lambda>name.
    and_then (read_u8 ''replica identity'') (\<lambda>replica_identity.
    and_then (counted ''relation column count'' parse_relation_column) (\<lambda>columns.
    give \<lparr>rel_id = id, rel_namespace = namespace, rel_name = name, rel_columns = columns\<rparr>)))))"
  by (simp add: parse_relation_def counted_def and_then_assoc)

interpretation rd_relation: wire_format parse_relation wf_wire_relation enc_wire_relation relation_of
proof unfold_locales
  fix w before after
  assume "wf_wire_relation w"
  then show "parse_relation (reader_at before (enc_wire_relation w @ after)) =
      Inr (relation_of w, reader_at (before @ enc_wire_relation w) after)"
    by (simp add: parse_relation_counted enc_wire_relation_def wf_wire_relation_def relation_of_def
        read_u8_at rd_cstring.complete rd_u32.complete rd_columns.vec.complete)
next
  fix before bs a r'
  assume "parse_relation (reader_at before bs) = Inr (a, r')"
  then obtain id namespace name identity cs after where
    "wf_cstring namespace" "wf_cstring name" "wf_counted wf_wire_column cs"
    "a = \<lparr>rel_id = id, rel_namespace = namespace, rel_name = name, rel_columns = map wc_name cs\<rparr>"
    "bs = be_bytes 4 (unat id) @ enc_cstring namespace @ enc_cstring name @ identity #
      enc_counted enc_wire_column cs @ after"
    "r' = reader_at (before @ be_bytes 4 (unat id) @ enc_cstring namespace @ enc_cstring name @
      identity # enc_counted enc_wire_column cs) after"
    by (auto simp: parse_relation_counted and_then_Inr_iff rd_u8.parse_iff rd_cstring.parse_iff
        rd_u32.parse_iff rd_columns.vec.parse_iff)
  then show "\<exists>w after. wf_wire_relation w \<and> a = relation_of w \<and> bs = enc_wire_relation w @ after
      \<and> r' = reader_at (before @ enc_wire_relation w) after"
    by (intro exI [of _ "\<lparr>wr_id = id, wr_namespace = namespace, wr_name = name,
          wr_replica_identity = identity, wr_columns = cs\<rparr>"] exI [of _ after])
      (simp add: wf_wire_relation_def enc_wire_relation_def relation_of_def)
qed

section \<open>Old and new tuples\<close>

datatype old_kind = KeyTuple | OldTuple

fun old_tag :: "old_kind \<Rightarrow> u8" where
  "old_tag KeyTuple = tag CHR ''K''"
| "old_tag OldTuple = tag CHR ''O''"

lemma old_tag_iff: "k = tag CHR ''K'' \<or> k = tag CHR ''O'' \<longleftrightarrow> (\<exists>kind. k = old_tag kind)"
  by (metis old_kind.exhaust old_tag.simps)

lemma old_tag_cases: "old_tag kind = tag CHR ''K'' \<or> old_tag kind = tag CHR ''O''"
  by (cases kind) simp_all

type_synonym wire_old = "old_kind \<times> wire_value list"

definition wf_wire_old :: "wire_old \<Rightarrow> bool" where
  "wf_wire_old o' \<longleftrightarrow> wf_wire_tuple (snd o')"

definition enc_wire_old :: "wire_old \<Rightarrow> u8 list" where
  "enc_wire_old o' = old_tag (fst o') # enc_wire_tuple (snd o')"

text \<open>What the update loop keeps of the old tuples it meets: the last one.\<close>

definition last_old :: "wal_value list option \<Rightarrow> wire_old list \<Rightarrow> wal_value list option" where
  "last_old old os = (if os = [] then old else Some (map value_of (snd (last os))))"

definition enc_wire_update :: "wire_old list \<Rightarrow> wire_value list \<Rightarrow> u8 list" where
  "enc_wire_update os new = concat (map enc_wire_old os) @ tag CHR ''N'' # enc_wire_tuple new"

lemma last_old_Cons: "last_old old (o' # os) = last_old (Some (map value_of (snd o'))) os"
  by (simp add: last_old_def)

lemma update_loop_complete:
  assumes "list_all wf_wire_old os" "wf_wire_tuple new"
  shows "parse_update_loop old (reader_at before (enc_wire_update os new @ after)) =
    Inr ((last_old old os, map value_of new), reader_at (before @ enc_wire_update os new) after)"
  using assms
proof (induction os arbitrary: old before)
  case Nil
  then show ?case
    by (subst parse_update_loop.simps)
      (simp add: enc_wire_update_def last_old_def read_u8_at rd_tuple.complete)
next
  case (Cons o' os)
  have "parse_update_loop old (reader_at before (enc_wire_update (o' # os) new @ after)) =
      parse_update_loop (Some (map value_of (snd o')))
        (reader_at (before @ enc_wire_old o') (enc_wire_update os new @ after))"
    using Cons.prems old_tag_cases [of "fst o'"]
    by (subst parse_update_loop.simps)
      (auto simp: enc_wire_update_def enc_wire_old_def wf_wire_old_def read_u8_at
        rd_tuple.complete)
  also have "\<dots> = Inr ((last_old old (o' # os), map value_of new),
      reader_at (before @ enc_wire_update (o' # os) new) after)"
    using Cons.IH Cons.prems by (simp add: last_old_Cons) (simp add: enc_wire_update_def)
  finally show ?case .
qed

lemma update_loop_sound:
  "parse_update_loop old (reader_at before bs) = Inr ((old', new'), r') \<Longrightarrow>
    \<exists>os new after. list_all wf_wire_old os \<and> wf_wire_tuple new \<and> old' = last_old old os
      \<and> new' = map value_of new \<and> bs = enc_wire_update os new @ after
      \<and> r' = reader_at (before @ enc_wire_update os new) after"
proof (induction old "reader_at before bs" arbitrary: before bs rule: parse_update_loop.induct)
  case (1 old before bs)
  from "1.prems" obtain kind r1 where r1: "read_u8 ''update tuple kind'' (reader_at before bs) = Inr (kind, r1)"
    by (subst (asm) parse_update_loop.simps) (auto split: sum.splits)
  then obtain mid where mid: "bs = kind # mid" "r1 = reader_at (before @ [kind]) mid"
    by (auto simp: read_u8_at split: list.splits)
  from "1.prems" r1 obtain tvs r2 where r2: "parse_tuple r1 = Inr (tvs, r2)"
    by (subst (asm) parse_update_loop.simps) (auto split: sum.splits if_splits)
  then obtain t tail where t: "wf_wire_tuple t" "tvs = map value_of t" "mid = enc_wire_tuple t @ tail"
    "r2 = reader_at ((before @ [kind]) @ enc_wire_tuple t) tail"
    unfolding mid(2) rd_tuple.parse_iff by blast
  show ?case
  proof (cases "kind = tag CHR ''K'' \<or> kind = tag CHR ''O''")
    case True
    then obtain k where k: "kind = old_tag k" using old_tag_iff by blast
    have "parse_update_loop (Some tvs) r2 = Inr ((old', new'), r')"
      using "1.prems" r1 r2 True by (subst (asm) parse_update_loop.simps) simp
    from "1.hyps" [OF r1 refl True r2 [unfolded t(4)] refl this [unfolded t(4)]] obtain os new after where
      "list_all wf_wire_old os" "wf_wire_tuple new" "old' = last_old (Some tvs) os"
      "new' = map value_of new" "tail = enc_wire_update os new @ after"
      "r' = reader_at (((before @ [kind]) @ enc_wire_tuple t) @ enc_wire_update os new) after"
      by blast
    then show ?thesis
      using t mid k
      by (intro exI [of _ "(k, t) # os"] exI [of _ new] exI [of _ after])
        (simp add: wf_wire_old_def last_old_Cons enc_wire_update_def enc_wire_old_def)
  next
    case False
    then have "kind = tag CHR ''N''" "old' = old" "new' = tvs" "r' = r2"
      using "1.prems" r1 r2
      by (subst (asm) parse_update_loop.simps, auto split: if_splits)+
    then show ?thesis
      using t mid
      by (intro exI [of _ "[]"] exI [of _ t] exI [of _ tail])
        (simp add: last_old_def enc_wire_update_def)
  qed
qed

section \<open>Messages and payloads\<close>

datatype wire_message =
    WRelation wire_relation
  | WInsert u32 "wire_value list"
  | WUpdate u32 "wire_old list" "wire_value list"
  | WDelete u32 wire_old

fun wf_wire_message :: "wire_message \<Rightarrow> bool" where
  "wf_wire_message (WRelation w) \<longleftrightarrow> wf_wire_relation w"
| "wf_wire_message (WInsert rid new) \<longleftrightarrow> wf_wire_tuple new"
| "wf_wire_message (WUpdate rid os new) \<longleftrightarrow> list_all wf_wire_old os \<and> wf_wire_tuple new"
| "wf_wire_message (WDelete rid o') \<longleftrightarrow> wf_wire_old o'"

fun enc_wire_message :: "wire_message \<Rightarrow> u8 list" where
  "enc_wire_message (WRelation w) = tag CHR ''R'' # enc_wire_relation w"
| "enc_wire_message (WInsert rid new) =
    tag CHR ''I'' # be_bytes 4 (unat rid) @ tag CHR ''N'' # enc_wire_tuple new"
| "enc_wire_message (WUpdate rid os new) =
    tag CHR ''U'' # be_bytes 4 (unat rid) @ enc_wire_update os new"
| "enc_wire_message (WDelete rid o') =
    tag CHR ''D'' # be_bytes 4 (unat rid) @ enc_wire_old o'"

fun message_of :: "wire_message \<Rightarrow> pg_output_message" where
  "message_of (WRelation w) = MsgRelation (relation_of w)"
| "message_of (WInsert rid new) = MsgInsert rid (map value_of new)"
| "message_of (WUpdate rid os new) = MsgUpdate rid (last_old None os) (map value_of new)"
| "message_of (WDelete rid o') = MsgDelete rid (map value_of (snd o'))"

lemma message_complete:
  assumes "wf_wire_message w"
  shows "parse_message (reader_at before (enc_wire_message w @ after)) =
    Inr (message_of w, reader_at (before @ enc_wire_message w) after)"
proof (cases w)
  case (WRelation x)
  with assms show ?thesis by (simp add: parse_message_def read_u8_at rd_relation.complete)
next
  case (WInsert rid new)
  with assms show ?thesis
    by (simp add: parse_message_def parse_insert_def read_u8_at rd_u32.complete rd_tuple.complete)
next
  case (WUpdate rid os new)
  with assms show ?thesis
    by (simp add: parse_message_def parse_update_def read_u8_at rd_u32.complete
        update_loop_complete)
next
  case (WDelete rid o')
  with assms old_tag_cases [of "fst o'"] show ?thesis
    by (auto simp: parse_message_def parse_delete_def read_u8_at rd_u32.complete rd_tuple.complete
        enc_wire_old_def wf_wire_old_def)
qed

lemma message_sound:
  assumes "parse_message (reader_at before bs) = Inr (m, r')"
  shows "\<exists>w after. wf_wire_message w \<and> m = message_of w \<and> bs = enc_wire_message w @ after
    \<and> r' = reader_at (before @ enc_wire_message w) after"
proof -
  from assms obtain t mid where bs: "bs = t # mid"
    unfolding parse_message_def by (auto simp: and_then_Inr_iff rd_u8.parse_iff)
  let ?at = "reader_at (before @ [t]) mid"
  consider (R) rel where "t = tag CHR ''R''" "parse_relation ?at = Inr (rel, r')"
      "m = MsgRelation rel"
    | (I) "t = tag CHR ''I''" "parse_insert ?at = Inr (m, r')"
    | (U) "t = tag CHR ''U''" "parse_update ?at = Inr (m, r')"
    | (D) "t = tag CHR ''D''" "parse_delete ?at = Inr (m, r')"
    using assms unfolding bs parse_message_def and_then_Inr_iff rd_u8.parse_iff
    by (auto simp: and_then_Inr_iff split: if_splits)
  then show ?thesis
  proof cases
    case R
    then obtain w after where "wf_wire_relation w" "rel = relation_of w"
      "mid = enc_wire_relation w @ after" "r' = reader_at ((before @ [t]) @ enc_wire_relation w) after"
      unfolding rd_relation.parse_iff by blast
    with R bs show ?thesis by (intro exI [of _ "WRelation w"] exI [of _ after]) simp
  next
    case I
    then obtain rid new after where "wf_wire_tuple new" "m = MsgInsert rid (map value_of new)"
      "mid = be_bytes 4 (unat rid) @ tag CHR ''N'' # enc_wire_tuple new @ after"
      "r' = reader_at ((before @ [t]) @ be_bytes 4 (unat rid) @ tag CHR ''N'' # enc_wire_tuple new) after"
      by (auto simp: parse_insert_def and_then_Inr_iff rd_u32.parse_iff rd_u8.parse_iff
          rd_tuple.parse_iff split: if_splits)
    with I bs show ?thesis by (intro exI [of _ "WInsert rid new"] exI [of _ after]) simp
  next
    case U
    then obtain rid r1 old' new' where rid: "read_u32 ''update relation id'' ?at = Inr (rid, r1)"
      and loop: "parse_update_loop None r1 = Inr ((old', new'), r')" "m = MsgUpdate rid old' new'"
      by (auto simp: parse_update_def and_then_Inr_iff)
    from rid obtain tail where tail: "mid = be_bytes 4 (unat rid) @ tail"
      "r1 = reader_at ((before @ [t]) @ be_bytes 4 (unat rid)) tail"
      unfolding rd_u32.parse_iff by blast
    from update_loop_sound [OF loop(1) [unfolded tail(2)]] obtain os new after where
      "list_all wf_wire_old os" "wf_wire_tuple new" "old' = last_old None os"
      "new' = map value_of new" "tail = enc_wire_update os new @ after"
      "r' = reader_at (((before @ [t]) @ be_bytes 4 (unat rid)) @ enc_wire_update os new) after"
      by blast
    with U loop(2) bs tail show ?thesis
      by (intro exI [of _ "WUpdate rid os new"] exI [of _ after]) simp
  next
    case D
    then obtain rid kind old after where "kind = tag CHR ''K'' \<or> kind = tag CHR ''O''"
      "wf_wire_tuple old" "m = MsgDelete rid (map value_of old)"
      "mid = be_bytes 4 (unat rid) @ kind # enc_wire_tuple old @ after"
      "r' = reader_at ((before @ [t]) @ be_bytes 4 (unat rid) @ kind # enc_wire_tuple old) after"
      by (auto simp: parse_delete_def and_then_Inr_iff rd_u32.parse_iff rd_u8.parse_iff
          rd_tuple.parse_iff split: if_splits)
    moreover from this(1) obtain k where "kind = old_tag k" using old_tag_iff by blast
    ultimately show ?thesis using D(1) bs
      by (intro exI [of _ "WDelete rid (k, old)"] exI [of _ after])
        (simp add: wf_wire_old_def enc_wire_old_def)
  qed
qed

interpretation rd_message: wire_format parse_message wf_wire_message enc_wire_message message_of
  by unfold_locales (simp add: message_complete, rule message_sound)

text \<open>A payload is any number of messages in a row.\<close>

lemma messages_loop_complete:
  "list_all wf_wire_message ws \<Longrightarrow>
    parse_messages_loop (reader_at before (concat (map enc_wire_message ws)))
      = Inr (map message_of ws)"
proof (induction ws arbitrary: before)
  case Nil
  then show ?case by (subst parse_messages_loop.simps) simp
next
  case (Cons w ws)
  have "enc_wire_message w \<noteq> []" by (cases w) simp_all
  with Cons show ?case by (subst parse_messages_loop.simps) (simp add: rd_message.complete)
qed

lemma messages_loop_sound:
  "parse_messages_loop (reader_at before bs) = Inr ms \<Longrightarrow>
    \<exists>ws. list_all wf_wire_message ws \<and> ms = map message_of ws \<and> bs = concat (map enc_wire_message ws)"
proof (induction "reader_at before bs" arbitrary: before bs ms rule: parse_messages_loop.induct)
  case (1 before bs ms)
  show ?case
  proof (cases "bs = []")
    case True
    with "1.prems" show ?thesis by (subst (asm) parse_messages_loop.simps) (auto intro: exI [of _ "[]"])
  next
    case False
    with "1.prems" obtain m r' ms' where m: "parse_message (reader_at before bs) = Inr (m, r')"
      and ms': "parse_messages_loop r' = Inr ms'" "ms = m # ms'"
      by (subst (asm) parse_messages_loop.simps) (auto split: sum.splits)
    from rd_message.sound [OF m] obtain w tail where w: "wf_wire_message w" "m = message_of w"
      "bs = enc_wire_message w @ tail" "r' = reader_at (before @ enc_wire_message w) tail" by blast
    have "\<not> reader_is_empty (reader_at before bs)" using False by simp
    from "1.hyps" [OF this m [unfolded w(4)] refl ms'(1) [unfolded w(4)]] obtain ws where
      "list_all wf_wire_message ws" "ms' = map message_of ws"
      "tail = concat (map enc_wire_message ws)" by blast
    with w ms'(2) show ?thesis by (intro exI [of _ "w # ws"]) simp
  qed
qed

lemma parse_iff_wire:
  "parse_pgoutput_messages d = Inr ms \<longleftrightarrow>
    (\<exists>ws. list_all wf_wire_message ws \<and> ms = map message_of ws \<and> d = concat (map enc_wire_message ws))"
  using messages_loop_complete [of _ "[]"] messages_loop_sound [of "[]" d ms]
  by (auto simp: parse_pgoutput_messages_def new_reader_at)

text \<open>Payloads that parse alone parse together.\<close>

lemma parse_concat:
  "list_all2 (\<lambda>d ms. parse_pgoutput_messages d = Inr ms) ds mss \<Longrightarrow>
    parse_pgoutput_messages (concat ds) = Inr (concat mss)"
proof (induction ds mss rule: list_all2_induct)
  case (Cons d ds ms mss)
  then obtain ws1 ws2 where "list_all wf_wire_message ws1" "ms = map message_of ws1"
    "d = concat (map enc_wire_message ws1)" "list_all wf_wire_message ws2"
    "concat mss = map message_of ws2" "concat ds = concat (map enc_wire_message ws2)"
    unfolding parse_iff_wire by blast
  then show ?case unfolding parse_iff_wire by (intro exI [of _ "ws1 @ ws2"]) simp
qed (simp add: parse_iff_wire)

text \<open>Every message has at least eight bytes, so a payload bounds the work it causes.\<close>

lemma message_size: "8 \<le> length (enc_wire_message w)"
  by (cases w) (auto simp: enc_wire_relation_def enc_cstring_def enc_counted_def enc_wire_update_def
      enc_wire_old_def)

lemma message_count: "8 * length ws \<le> length (concat (map enc_wire_message ws))"
proof (induction ws)
  case (Cons w ws)
  then show ?case using message_size [of w] by simp
qed simp

text \<open>The encodings of the grammar, unfolded on concrete messages.\<close>

lemmas wire_eval =
  as_bytes_def byte_of_Char enc_counted_def enc_wire_relation_def enc_wire_column_def
  enc_cstring_def enc_wire_update_def enc_wire_old_def be_bytes_2 be_bytes_4

lemmas wire_check =
  wf_counted_def wf_wire_relation_def wf_wire_column_def wf_wire_old_def ascii_cstring
  ascii_valid ascii_def

end
