(* ===== verification/Pg_Truncation.thy ===== *)
theory Pg_Truncation
  imports Pg_Wire
begin

text \<open>
  Payloads that are cut or concatenated. A parser of \<^verbatim>\<open>src/wal/pgoutput.rs\<close> only looks at the
  bytes it consumes: more bytes behind them change neither a value nor an error, unless the error
  was that the bytes ran out. So a cut payload is either cut between messages or reported as
  truncated.
\<close>

section \<open>Parsers under extension of the slice\<close>

definition extended :: "byte_reader \<Rightarrow> u8 list \<Rightarrow> byte_reader" where
  "extended r ext = r\<lparr>data := data r @ ext\<rparr>"

lemma extended_simps [simp]:
  "data (extended r ext) = data r @ ext"
  "pos (extended r ext) = pos r"
  "(extended r ext)\<lparr>pos := n\<rparr> = extended (r\<lparr>pos := n\<rparr>) ext"
  by (simp_all add: extended_def)

definition extends :: "'a parser \<Rightarrow> bool" where
  "extends p \<longleftrightarrow>
    (\<forall>r ext. case p r of
       Inr (a, r') \<Rightarrow> p (extended r ext) = Inr (a, extended r' ext)
     | Inl e \<Rightarrow> (\<exists>ctx. e = Truncated ctx) \<or> p (extended r ext) = Inl e)"

lemma extendsI:
  assumes "\<And>r ext a r'. p r = Inr (a, r') \<Longrightarrow> p (extended r ext) = Inr (a, extended r' ext)"
    and "\<And>r ext e. p r = Inl e \<Longrightarrow> (\<exists>ctx. e = Truncated ctx) \<or> p (extended r ext) = Inl e"
  shows "extends p"
  using assms unfolding extends_def by (auto split: sum.split)

lemma extends_Inr: "extends p \<Longrightarrow> p r = Inr (a, r') \<Longrightarrow> p (extended r ext) = Inr (a, extended r' ext)"
  unfolding extends_def by (auto dest!: spec [of _ r] split: sum.splits)

lemma extends_Inl:
  "extends p \<Longrightarrow> p r = Inl e \<Longrightarrow> (\<exists>ctx. e = Truncated ctx) \<or> p (extended r ext) = Inl e"
  unfolding extends_def by (auto dest!: spec [of _ r] split: sum.splits)

lemma extends_and_then [wire_intros]:
  assumes "extends p" "\<And>a. extends (f a)"
  shows "extends (and_then p f)"
proof (rule extendsI)
  fix r ext b r'
  assume "and_then p f r = Inr (b, r')"
  then obtain a r1 where "p r = Inr (a, r1)" "f a r1 = Inr (b, r')" by (auto simp: and_then_Inr_iff)
  then show "and_then p f (extended r ext) = Inr (b, extended r' ext)"
    using extends_Inr [OF assms(1)] extends_Inr [OF assms(2)] by (simp add: and_then_def)
next
  fix r ext e
  assume e: "and_then p f r = Inl e"
  show "(\<exists>ctx. e = Truncated ctx) \<or> and_then p f (extended r ext) = Inl e"
  proof (cases "p r")
    case (Inl e')
    then show ?thesis using e extends_Inl [OF assms(1) Inl, of ext] by (auto simp: and_then_def)
  next
    case (Inr ar)
    obtain a r1 where ar: "ar = (a, r1)" by (cases ar)
    then have "f a r1 = Inl e" using e Inr by (simp add: and_then_def)
    then show ?thesis
      using extends_Inr [OF assms(1), of r a r1 ext] Inr ar extends_Inl [OF assms(2)]
      by (simp add: and_then_def)
  qed
qed

lemma extends_give [wire_intros]: "extends (give a)"
  by (rule extendsI) (simp_all add: give_def)

lemma extends_throw [wire_intros]: "extends (throw e)"
  by (rule extendsI) (simp_all add: throw_def)

lemma extends_if [wire_intros]: "extends p \<Longrightarrow> extends q \<Longrightarrow> extends (if b then p else q)"
  by simp

lemma extends_read_bytes [wire_intros]: "extends (read_bytes n ctx)"
  by (rule extendsI) (auto simp: read_bytes_def split: if_splits)

lemma extends_repeat [wire_intros]: "extends p \<Longrightarrow> extends (repeat_parse n p)"
  by (induction n) (auto simp del: give_simp intro!: wire_intros)

lemma extends_read_u8 [wire_intros]: "extends (read_u8 ctx)"
  unfolding read_u8_def by (intro wire_intros)

lemma extends_read_u16 [wire_intros]: "extends (read_u16 ctx)"
  unfolding read_u16_def by (intro wire_intros)

lemma extends_read_u32 [wire_intros]: "extends (read_u32 ctx)"
  unfolding read_u32_def by (intro wire_intros)

lemma extends_read_i32 [wire_intros]: "extends (read_i32 ctx)"
  unfolding read_i32_def by (intro wire_intros)

lemma position_less: "position P xs = Some n \<Longrightarrow> n < length xs"
  by (induction xs arbitrary: n) (auto split: if_splits)

lemma position_extend: "position P xs = Some n \<Longrightarrow> position P (xs @ ys) = Some n"
  by (induction xs arbitrary: n) (auto split: if_splits)

lemma extends_read_cstring [wire_intros]: "extends (read_cstring ctx)"
proof -
  have found: "position P (drop p (d @ ext)) = Some n \<and> take n (drop p (d @ ext)) = take n (drop p d)"
    if "position P (drop p d) = Some n" for P :: "u8 \<Rightarrow> bool" and p d ext n
  proof -
    have "n < length (drop p d)" using that by (rule position_less)
    then have "drop p (d @ ext) = drop p d @ ext" by simp
    with that position_less [OF that] show ?thesis by (simp add: position_extend)
  qed
  show ?thesis
  proof (rule extendsI)
    fix r ext a r'
    assume "read_cstring ctx r = Inr (a, r')"
    then show "read_cstring ctx (extended r ext) = Inr (a, extended r' ext)"
      using found [of "\<lambda>b. b = 0" "pos r" "data r" _ ext]
      by (auto simp: read_cstring_def Let_def split: option.splits)
  next
    fix r ext e
    assume "read_cstring ctx r = Inl e"
    then show "(\<exists>ctx. e = Truncated ctx) \<or> read_cstring ctx (extended r ext) = Inl e"
      using found [of "\<lambda>b. b = 0" "pos r" "data r" _ ext]
      by (auto simp: read_cstring_def Let_def split: option.splits)
  qed
qed

section \<open>The parsing functions\<close>

lemma extends_parse_relation [wire_intros]: "extends parse_relation"
  unfolding parse_relation_def parse_relation_column_def by (intro wire_intros)

lemma extends_parse_tuple_column [wire_intros]: "extends parse_tuple_column"
  unfolding parse_tuple_column_def by (intro wire_intros, auto intro!: wire_intros split: option.split)

lemma extends_parse_tuple [wire_intros]: "extends parse_tuple"
  unfolding parse_tuple_def by (intro wire_intros)

lemma extends_parse_insert [wire_intros]: "extends parse_insert"
  unfolding parse_insert_def by (intro wire_intros)

lemma extends_parse_delete [wire_intros]: "extends parse_delete"
  unfolding parse_delete_def by (intro wire_intros)

lemma update_loop_extends:
  "case parse_update_loop old r of
     Inr (a, r') \<Rightarrow> parse_update_loop old (extended r ext) = Inr (a, extended r' ext)
   | Inl e \<Rightarrow> (\<exists>ctx. e = Truncated ctx) \<or> parse_update_loop old (extended r ext) = Inl e"
proof (induction old r rule: parse_update_loop.induct)
  case (1 old r)
  show ?case
  proof (cases "read_u8 ''update tuple kind'' r")
    case (Inl e)
    then show ?thesis
      using extends_Inl [OF extends_read_u8 Inl, of ext] by (auto simp: parse_update_loop.simps [of old])
  next
    case (Inr kr)
    then obtain kind r1 where kind: "read_u8 ''update tuple kind'' r = Inr (kind, r1)" by (cases kr) simp
    note kind' = extends_Inr [OF extends_read_u8 kind, of ext]
    show ?thesis
    proof (cases "parse_tuple r1")
      case (Inl e)
      then show ?thesis
        using kind kind' extends_Inl [OF extends_parse_tuple Inl, of ext]
        by (subst (1 2 3) parse_update_loop.simps) auto
    next
      case (Inr vr)
      then obtain vals r2 where tuple: "parse_tuple r1 = Inr (vals, r2)" by (cases vr) simp
      note tuple' = extends_Inr [OF extends_parse_tuple tuple, of ext]
      show ?thesis
      proof (cases "kind = tag CHR ''K'' \<or> kind = tag CHR ''O''")
        case True
        then have "parse_update_loop old r = parse_update_loop (Some vals) r2"
          "parse_update_loop old (extended r ext) = parse_update_loop (Some vals) (extended r2 ext)"
          using kind kind' tuple tuple' by (auto simp: parse_update_loop.simps [of old])
        then show ?thesis using "1.IH" [OF kind refl True tuple refl] by (auto split: sum.splits)
      next
        case False
        then show ?thesis
          using kind kind' tuple tuple' by (auto simp: parse_update_loop.simps [of old])
      qed
    qed
  qed
qed

lemma extends_parse_update_loop [wire_intros]: "extends (parse_update_loop old)"
  unfolding extends_def using update_loop_extends by blast

lemma extends_parse_update [wire_intros]: "extends parse_update"
  unfolding parse_update_def by (intro wire_intros, auto intro!: wire_intros)

lemma extends_parse_message [wire_intros]: "extends parse_message"
  unfolding parse_message_def by (intro wire_intros)

section \<open>Payloads\<close>

lemma messages_loop_extends:
  "case parse_messages_loop r of
     Inr ms \<Rightarrow> True
   | Inl e \<Rightarrow> (\<exists>ctx. e = Truncated ctx) \<or> parse_messages_loop (extended r ext) = Inl e"
proof (induction r rule: parse_messages_loop.induct)
  case (1 r)
  show ?case
  proof (cases "reader_is_empty r")
    case True
    then show ?thesis by (simp add: parse_messages_loop.simps)
  next
    case False
    then have nonempty: "\<not> reader_is_empty (extended r ext)" by (simp add: reader_is_empty_def)
    show ?thesis
    proof (cases "parse_message r")
      case (Inl e)
      then show ?thesis
        using False nonempty extends_Inl [OF extends_parse_message Inl, of ext]
        by (auto simp: parse_messages_loop.simps [of r] parse_messages_loop.simps [of "extended r ext"])
    next
      case (Inr mr)
      then obtain m r' where m: "parse_message r = Inr (m, r')" by (cases mr) simp
      note m' = extends_Inr [OF extends_parse_message m, of ext]
      from "1.IH" [OF False m refl] show ?thesis
        using False nonempty m m'
        by (auto simp: parse_messages_loop.simps [of r] parse_messages_loop.simps [of "extended r ext"]
            split: sum.splits)
    qed
  qed
qed

lemma cut_payload:
  assumes "parse_pgoutput_messages (d @ ext) = Inr ms"
  shows "(\<exists>ctx. parse_pgoutput_messages d = Inl (Truncated ctx))
    \<or> (\<exists>n. parse_pgoutput_messages d = Inr (take n ms))"
proof (cases "parse_pgoutput_messages d")
  case (Inl e)
  have "extended (new_reader d) ext = new_reader (d @ ext)"
    by (simp add: extended_def new_reader_def)
  then show ?thesis
    using messages_loop_extends [of "new_reader d" ext] Inl assms
    by (auto simp: parse_pgoutput_messages_def)
next
  case (Inr ms1)
  then obtain ws where ws: "list_all wf_wire_message ws" "ms1 = map message_of ws"
    "d = concat (map enc_wire_message ws)"
    using messages_loop_sound [of "[]"] by (auto simp: parse_pgoutput_messages_def new_reader_at)
  have prefix: "\<exists>tail. ms = map message_of ws @ tail"
    if "parse_messages_loop (reader_at before (concat (map enc_wire_message ws) @ ext)) = Inr ms"
    for before ms
    using ws(1) that
  proof (induction ws arbitrary: before ms)
    case (Cons w ws)
    have "enc_wire_message w \<noteq> []" by (cases w) simp_all
    then have "parse_messages_loop (reader_at before (concat (map enc_wire_message (w # ws)) @ ext)) =
        (case parse_messages_loop (reader_at (before @ enc_wire_message w)
            (concat (map enc_wire_message ws) @ ext)) of
           Inl e \<Rightarrow> Inl e | Inr ms \<Rightarrow> Inr (message_of w # ms))"
      using Cons.prems by (subst parse_messages_loop.simps) (simp add: rd_message.complete)
    then show ?case
      using Cons.IH [of "before @ enc_wire_message w"] Cons.prems by (auto split: sum.splits)
  qed simp
  then obtain tail where "ms = ms1 @ tail"
    using assms ws prefix [of "[]" ms] by (auto simp: parse_pgoutput_messages_def new_reader_at)
  with Inr show ?thesis by (intro disjI2 exI [of _ "length ms1"]) simp
qed

end
