(* ===== verification/Pg_Convert.thy ===== *)
theory Pg_Convert
  imports Pg_Output
begin

text \<open>
  \<^verbatim>\<open>pgoutput_to_wal_event\<close> of \<^verbatim>\<open>src/wal/pgoutput.rs\<close>: messages become row-change
  events with the names of the relations announced before them. The table of relations is the only
  state: a relation is stored when first announced, never replaced, and a different announcement
  under the same id is the schema-change error.
\<close>

type_synonym relation_table = "(u32, relation) fmap"

fun pgoutput_to_wal_event ::
    "relation_table \<Rightarrow> pg_output_message \<Rightarrow>
      (pg_output_conversion_error + wal_event option) \<times> relation_table" where
  "pgoutput_to_wal_event relations (MsgRelation rel) =
    (case fmlookup relations (rel_id rel) of
       Some existing \<Rightarrow>
         if existing \<noteq> rel then (Inl SchemaChange, relations) else (Inr None, relations)
     | None \<Rightarrow> (Inr None, fmupd (rel_id rel) rel relations))"
| "pgoutput_to_wal_event relations (MsgInsert relation_id new_values) =
    (case fmlookup relations relation_id of
       None \<Rightarrow> (Inr None, relations)
     | Some rel \<Rightarrow>
         (Inr (Some (EvInsert relation_id (rel_name rel) (from_values (rel_columns rel) new_values))),
          relations))"
| "pgoutput_to_wal_event relations (MsgUpdate relation_id old_values new_values) =
    (case fmlookup relations relation_id of
       None \<Rightarrow> (Inr None, relations)
     | Some rel \<Rightarrow>
         (let old_tuple = map_option (from_values (rel_columns rel)) old_values;
              new_tuple = from_values (rel_columns rel) new_values
          in (Inr (Some (EvUpdate relation_id (rel_name rel) old_tuple new_tuple)), relations)))"
| "pgoutput_to_wal_event relations (MsgDelete relation_id old_values) =
    (case fmlookup relations relation_id of
       None \<Rightarrow> (Inr None, relations)
     | Some rel \<Rightarrow>
         (Inr (Some (EvDelete relation_id (rel_name rel) (from_values (rel_columns rel) old_values))),
          relations))"

section \<open>The table of relations\<close>

definition relations_ok :: "relation_table \<Rightarrow> bool" where
  "relations_ok relations \<longleftrightarrow> (\<forall>k rel. fmlookup relations k = Some rel \<longrightarrow> rel_id rel = k)"

lemma relations_ok_empty [inv_intros]: "relations_ok fmempty"
  by (simp add: relations_ok_def)

lemma convert_relations_ok [inv_intros]:
  "relations_ok relations \<Longrightarrow> relations_ok (snd (pgoutput_to_wal_event relations msg))"
  by (cases msg) (auto simp: relations_ok_def Let_def split: option.splits)

lemma convert_keeps_known:
  "fmlookup relations k = Some rel \<Longrightarrow>
    fmlookup (snd (pgoutput_to_wal_event relations msg)) k = Some rel"
  by (cases msg) (auto simp: Let_def split: option.splits)

lemma convert_schema_change_iff:
  "fst (pgoutput_to_wal_event relations msg) = Inl SchemaChange \<longleftrightarrow>
    (\<exists>rel existing. msg = MsgRelation rel \<and> fmlookup relations (rel_id rel) = Some existing
      \<and> existing \<noteq> rel)"
  by (cases msg) (auto simp: Let_def split: option.splits)

lemma convert_row_keeps_table:
  "(\<forall>rel. msg \<noteq> MsgRelation rel) \<Longrightarrow> snd (pgoutput_to_wal_event relations msg) = relations"
  by (cases msg) (auto simp: Let_def split: option.splits)

text \<open>The relation a message speaks of.\<close>

fun message_relation_id :: "pg_output_message \<Rightarrow> u32" where
  "message_relation_id (MsgRelation rel) = rel_id rel"
| "message_relation_id (MsgInsert i new) = i"
| "message_relation_id (MsgUpdate i old new) = i"
| "message_relation_id (MsgDelete i old) = i"

fun row_change :: "pg_output_message \<Rightarrow> bool" where
  "row_change (MsgRelation rel) \<longleftrightarrow> False"
| "row_change _ \<longleftrightarrow> True"

lemma convert_event_iff:
  "(\<exists>ev. fst (pgoutput_to_wal_event relations msg) = Inr (Some ev)) \<longleftrightarrow>
    row_change msg \<and> fmlookup relations (message_relation_id msg) \<noteq> None"
  by (cases msg) (auto simp: Let_def split: option.splits)

lemma convert_event_relation:
  assumes "fst (pgoutput_to_wal_event relations msg) = Inr (Some ev)"
  shows "event_relation_id ev = message_relation_id msg
    \<and> map_option rel_name (fmlookup relations (event_relation_id ev)) = Some (event_relation_name ev)"
  using assms by (cases msg) (auto simp: Let_def split: option.splits if_splits)

text \<open>
  A payload converted in order: the events of its row changes, and whether a schema change cut it
  short. This is the abstract view of the message loop of the WAL reader.
\<close>

fun convert_messages ::
    "relation_table \<Rightarrow> pg_output_message list \<Rightarrow> wal_event list \<times> bool \<times> relation_table" where
  "convert_messages relations [] = ([], False, relations)"
| "convert_messages relations (msg # msgs) =
    (case pgoutput_to_wal_event relations msg of
       (Inl SchemaChange, relations') \<Rightarrow> ([], True, relations')
     | (Inr None, relations') \<Rightarrow> convert_messages relations' msgs
     | (Inr (Some ev), relations') \<Rightarrow>
         (case convert_messages relations' msgs of
            (evs, changed, relations'') \<Rightarrow> (ev # evs, changed, relations'')))"

lemma convert_messages_known:
  "fmlookup relations k = Some rel \<Longrightarrow>
    fmlookup (snd (snd (convert_messages relations msgs))) k = Some rel"
proof (induction msgs arbitrary: relations)
  case (Cons msg msgs)
  note kept = convert_keeps_known [OF Cons.prems, of msg]
  show ?case
    using kept Cons.IH
    by (cases "pgoutput_to_wal_event relations msg")
      (auto split: sum.splits option.splits pg_output_conversion_error.splits prod.splits,
        (metis snd_conv)+)
qed simp

text \<open>A payload that changes a schema names the relation: the table keeps the earlier description.\<close>

lemma convert_messages_changed:
  "convert_messages relations msgs = (evs, True, r) \<Longrightarrow>
    \<exists>rel existing. MsgRelation rel \<in> set msgs \<and> fmlookup r (rel_id rel) = Some existing \<and> existing \<noteq> rel"
proof (induction msgs arbitrary: relations evs)
  case (Cons msg msgs)
  obtain res relations' where conv: "pgoutput_to_wal_event relations msg = (res, relations')"
    by (metis surj_pair)
  show ?case
  proof (cases res)
    case (Inl e)
    then have change: "fst (pgoutput_to_wal_event relations msg) = Inl SchemaChange" using conv by (cases e) simp
    then obtain rel existing where rel: "msg = MsgRelation rel" "fmlookup relations (rel_id rel) = Some existing"
      "existing \<noteq> rel" unfolding convert_schema_change_iff by blast
    have "r = relations'" using Cons.prems conv Inl by (cases e) simp
    with convert_keeps_known [OF rel(2), of msg] conv rel show ?thesis by auto
  next
    case (Inr ev)
    then obtain evs' where "convert_messages relations' msgs = (evs', True, r)"
      using Cons.prems conv by (cases ev) (auto split: prod.splits)
    from Cons.IH [OF this] show ?thesis by auto
  qed
qed simp

end
