(* ===== verification/Hint_Generator.thy ===== *)
theory Hint_Generator
  imports Wal_Types
begin

text \<open>
  \<^verbatim>\<open>src/wal/hint_generator.rs\<close>: the invalidation hints of a row-change event, by table and
  kind of change.
\<close>

datatype hint_gen_error = MissingColumn string string

definition get_text_column :: "tuple_data \<Rightarrow> string \<Rightarrow> string option" where
  "get_text_column t column =
    (case column_of t column of
       None \<Rightarrow> None
     | Some value \<Rightarrow> (case value of Text v \<Rightarrow> Some v | _ \<Rightarrow> None))"

definition require_text_column ::
    "string \<Rightarrow> tuple_data \<Rightarrow> string \<Rightarrow> hint_gen_error + string" where
  "require_text_column table t column =
    (case get_text_column t column of
       None \<Rightarrow> Inl (MissingColumn table column)
     | Some v \<Rightarrow> Inr v)"

fun generate_invalidation_hints :: "wal_event \<Rightarrow> hint_gen_error + query_hint list" where
  "generate_invalidation_hints (EvInsert relation_id relation_name new_tuple) =
    (if relation_name = ''comments'' then
       (case require_text_column ''comments'' new_tuple ''document_id'' of
          Inl e \<Rightarrow> Inl e
        | Inr document_id \<Rightarrow> Inr [QueryHint ''comments'' ''document_id'' document_id])
     else if relation_name = ''documents'' then Inr []
     else Inr [])"
| "generate_invalidation_hints (EvUpdate relation_id relation_name old_tuple new_tuple) =
    (if relation_name = ''comments'' then
       (case require_text_column ''comments'' new_tuple ''document_id'' of
          Inl e \<Rightarrow> Inl e
        | Inr new_document_id \<Rightarrow>
           (let old_document_id =
                  (case old_tuple of None \<Rightarrow> None | Some t \<Rightarrow> get_text_column t ''document_id'');
                moved =
                  (case old_document_id of
                     None \<Rightarrow> []
                   | Some old \<Rightarrow>
                      if old \<noteq> new_document_id
                      then [QueryHint ''comments'' ''document_id'' old] else [])
            in Inr (moved @ [QueryHint ''comments'' ''document_id'' new_document_id])))
     else if relation_name = ''documents'' then Inr []
     else Inr [])"
| "generate_invalidation_hints (EvDelete relation_id relation_name old_tuple) =
    (if relation_name = ''comments'' then
       (case require_text_column ''comments'' old_tuple ''document_id'' of
          Inl e \<Rightarrow> Inl e
        | Inr document_id \<Rightarrow> Inr [QueryHint ''comments'' ''document_id'' document_id])
     else if relation_name = ''documents'' then
       (case require_text_column ''documents'' old_tuple ''id'' of
          Inl e \<Rightarrow> Inl e
        | Inr doc_id \<Rightarrow> Inr [QueryHint ''documents'' ''id'' doc_id])
     else Inr [])"

section \<open>What the hints name\<close>

text \<open>
  The specification: the documents a change touches, as the requirements list them. A comment
  change touches the document of every version of the row the event carries; deleting a document
  touches that document; nothing else touches any.
\<close>

definition comment_versions :: "wal_event \<Rightarrow> tuple_data list" where
  "comment_versions ev =
    (case ev of
       EvInsert i n new \<Rightarrow> [new]
     | EvUpdate i n old new \<Rightarrow> (case old of None \<Rightarrow> [] | Some t \<Rightarrow> [t]) @ [new]
     | EvDelete i n old \<Rightarrow> [old])"

definition touched_hints :: "wal_event \<Rightarrow> query_hint set" where
  "touched_hints ev =
    {QueryHint ''comments'' ''document_id'' d | d.
       event_relation_name ev = ''comments''
       \<and> (\<exists>t \<in> set (comment_versions ev). column_of t ''document_id'' = Some (Text d))}
    \<union> {QueryHint ''documents'' ''id'' d | d.
       (case ev of
          EvDelete i n t \<Rightarrow> n = ''documents'' \<and> column_of t ''id'' = Some (Text d)
        | _ \<Rightarrow> False)}"

lemma get_text_column_iff: "get_text_column t c = Some v \<longleftrightarrow> column_of t c = Some (Text v)"
  by (auto simp: get_text_column_def split: option.splits wal_value.splits)

lemma get_text_column_None_iff:
  "get_text_column t c = None \<longleftrightarrow> (\<forall>v. column_of t c \<noteq> Some (Text v))"
  by (metis get_text_column_iff not_None_eq)

lemma require_text_column_iff [simp]:
  "require_text_column table t c = Inr v \<longleftrightarrow> column_of t c = Some (Text v)"
  by (auto simp: require_text_column_def get_text_column_None_iff get_text_column_iff
      split: option.splits)

lemma require_text_column_error:
  "require_text_column table t c = Inl e \<longleftrightarrow>
    e = MissingColumn table c \<and> (\<forall>v. column_of t c \<noteq> Some (Text v))"
  by (auto simp: require_text_column_def get_text_column_None_iff get_text_column_iff
      split: option.splits)

lemma generated_hints_exact:
  assumes "generate_invalidation_hints ev = Inr hs"
  shows "set hs = touched_hints ev" and "distinct hs"
proof -
  show "distinct hs"
    using assms by (cases ev) (auto simp: Let_def split: if_splits sum.splits option.splits)
  show "set hs = touched_hints ev"
  proof (cases ev)
    case (EvInsert i n new)
    then show ?thesis
      using assms
      by (auto simp: touched_hints_def comment_versions_def split: if_splits sum.splits)
  next
    case (EvUpdate i n old new)
    then show ?thesis
      using assms
      by (auto simp: touched_hints_def comment_versions_def Let_def get_text_column_iff
          get_text_column_None_iff split: if_splits sum.splits option.splits)
  next
    case (EvDelete i n old)
    then show ?thesis
      using assms
      by (auto simp: touched_hints_def comment_versions_def split: if_splits sum.splits)
  qed
qed

text \<open>The column a change must carry, and the error when it does not.\<close>

definition required_column :: "wal_event \<Rightarrow> (string \<times> string \<times> tuple_data) option" where
  "required_column ev =
    (case ev of
       EvInsert i n new \<Rightarrow>
         if n = ''comments'' then Some (n, ''document_id'', new) else None
     | EvUpdate i n old new \<Rightarrow>
         if n = ''comments'' then Some (n, ''document_id'', new) else None
     | EvDelete i n old \<Rightarrow>
         if n = ''comments'' then Some (n, ''document_id'', old)
         else if n = ''documents'' then Some (n, ''id'', old) else None)"

lemma generate_error_iff:
  "generate_invalidation_hints ev = Inl e \<longleftrightarrow>
    (\<exists>table column t. required_column ev = Some (table, column, t)
      \<and> (\<forall>v. column_of t column \<noteq> Some (Text v)) \<and> e = MissingColumn table column)"
  by (cases ev)
    (auto simp: required_column_def Let_def require_text_column_error split: if_splits sum.splits)

end
