(* ===== verification/Hint_Router.thy ===== *)
theory Hint_Router
  imports Hint_Generator
begin

text \<open>
  \<^verbatim>\<open>src/wal/transaction.rs\<close> and \<^verbatim>\<open>src/wal/router.rs\<close>: the set of hints of the
  running transaction, and the grouping of a set of hints by the document room they go to. The
  order in which the hash set is iterated is the argument \<open>it\<close>.
\<close>

section \<open>The transaction buffer\<close>

record transaction_buffer =
  tx_hints :: "query_hint fset"

definition empty_buffer :: transaction_buffer where
  "empty_buffer = \<lparr>tx_hints = {||}\<rparr>"

definition add_all :: "query_hint list \<Rightarrow> transaction_buffer \<Rightarrow> transaction_buffer" where
  "add_all hs tx = tx\<lparr>tx_hints := fold finsert hs (tx_hints tx)\<rparr>"

definition take_hints :: "transaction_buffer \<Rightarrow> query_hint fset \<times> transaction_buffer" where
  "take_hints tx = (tx_hints tx, tx\<lparr>tx_hints := {||}\<rparr>)"

definition buffer_is_empty :: "transaction_buffer \<Rightarrow> bool" where
  "buffer_is_empty tx \<longleftrightarrow> tx_hints tx = {||}"

lemma fset_fold_finsert: "fset (fold finsert hs S) = fset S \<union> set hs"
  by (induction hs arbitrary: S) auto

lemma tx_hints_add_all: "fset (tx_hints (add_all hs tx)) = fset (tx_hints tx) \<union> set hs"
  by (simp add: add_all_def fset_fold_finsert)

lemma take_hints_empties:
  "take_hints tx = (hs, tx') \<Longrightarrow> hs = tx_hints tx \<and> buffer_is_empty tx'"
  by (auto simp: take_hints_def buffer_is_empty_def)

section \<open>Routing\<close>

definition route_key :: "query_hint \<Rightarrow> string option" where
  "route_key h =
    (if hint_table h = ''comments'' \<and> hint_column h = ''document_id'' then Some (hint_value h)
     else if hint_table h = ''documents'' \<and> hint_column h = ''id'' then Some (hint_value h)
     else None)"

fun route_loop ::
    "query_hint list \<Rightarrow> (string, query_hint list) fmap \<Rightarrow> (string, query_hint list) fmap" where
  "route_loop [] out = out"
| "route_loop (h # hs) out =
    (case route_key h of
       Some document_id \<Rightarrow>
         route_loop hs (fmupd document_id (entry_list out document_id @ [h]) out)
     | None \<Rightarrow> route_loop hs out)"

definition route ::
    "(query_hint fset \<Rightarrow> query_hint list) \<Rightarrow> query_hint fset \<Rightarrow> (string, query_hint list) fmap" where
  "route it hs = route_loop (it hs) fmempty"

text \<open>\<^verbatim>\<open>hints.retain(|h| seen.insert(h.clone()))\<close>\<close>

fun retain_unseen :: "query_hint fset \<Rightarrow> query_hint list \<Rightarrow> query_hint list" where
  "retain_unseen seen [] = []"
| "retain_unseen seen (h # hs) =
    (if h |\<in>| seen then retain_unseen seen hs
     else h # retain_unseen (finsert h seen) hs)"

definition dedupe_routed_hints ::
    "(string, query_hint list) fmap \<Rightarrow> (string, query_hint list) fmap" where
  "dedupe_routed_hints m = fmmap (retain_unseen {||}) m"

section \<open>Routing is a grouping\<close>

definition hints_for :: "string \<Rightarrow> query_hint list \<Rightarrow> query_hint list" where
  "hints_for d hs = filter (\<lambda>h. route_key h = Some d) hs"

lemma hints_for_simps [simp]:
  "hints_for d [] = []"
  "hints_for d (h # hs) = (if route_key h = Some d then h # hints_for d hs else hints_for d hs)"
  by (simp_all add: hints_for_def)

lemma entry_route_loop: "entry_list (route_loop hs out) d = entry_list out d @ hints_for d hs"
  by (induction hs arbitrary: out) (auto split: option.splits)

lemma route_loop_None_iff:
  "fmlookup (route_loop hs out) d = None \<longleftrightarrow> fmlookup out d = None \<and> hints_for d hs = []"
  by (induction hs arbitrary: out) (auto split: option.splits)

lemma route_lookup:
  "fmlookup (route it hs) d = (if hints_for d (it hs) = [] then None else Some (hints_for d (it hs)))"
proof (cases "fmlookup (route it hs) d")
  case None
  then show ?thesis by (simp add: route_def route_loop_None_iff)
next
  case (Some v)
  then have "v = hints_for d (it hs)"
    using entry_route_loop [of "it hs" fmempty d] by (simp add: route_def entry_list_def)
  moreover have "hints_for d (it hs) \<noteq> []"
    using Some route_loop_None_iff [of "it hs" fmempty d] by (simp add: route_def)
  ultimately show ?thesis using Some by simp
qed

lemma set_hints_for: "set (hints_for d hs) = {h \<in> set hs. route_key h = Some d}"
  by (auto simp: hints_for_def)

lemma route_members:
  assumes "iteration_order it"
  shows "set (entry_list (route it hs) d) = {h. h |\<in>| hs \<and> route_key h = Some d}"
  by (simp add: route_def entry_route_loop set_hints_for iteration_order_set [OF assms])

lemma route_dom:
  assumes "iteration_order it"
  shows "fset (fmdom (route it hs)) = {d. \<exists>h. h |\<in>| hs \<and> route_key h = Some d}"
proof -
  have "d |\<in>| fmdom (route it hs) \<longleftrightarrow> hints_for d (it hs) \<noteq> []" for d
    using route_lookup [of it hs d] by (auto simp: fmlookup_dom_iff split: if_splits)
  then show ?thesis
    using set_hints_for [of _ "it hs"] iteration_order_set [OF assms, of hs]
    by (auto simp: set_empty [symmetric] simp del: set_empty)
qed

section \<open>Deduplication\<close>

lemma remdups_snoc: "remdups (xs @ [x]) = filter (\<lambda>y. y \<noteq> x) (remdups xs) @ [x]"
  by (induction xs) auto

lemma retain_unseen_eq:
  "retain_unseen seen hs = filter (\<lambda>h. h |\<notin>| seen) (rev (remdups (rev hs)))"
proof (induction hs arbitrary: seen)
  case (Cons h hs)
  have "rev (remdups (rev (h # hs))) = h # filter (\<lambda>y. y \<noteq> h) (rev (remdups (rev hs)))"
    by (simp add: remdups_snoc rev_filter)
  moreover have "(\<lambda>y. y \<noteq> h \<and> y |\<notin>| seen) = (\<lambda>y. y |\<notin>| finsert h seen)"
    by auto
  moreover have "(\<lambda>y. y \<noteq> h \<and> y |\<notin>| seen) = (\<lambda>y. y |\<notin>| seen)" if "h |\<in>| seen"
    using that by auto
  ultimately show ?case by (simp add: Cons conj_commute)
qed simp

lemma retain_unseen_first: "retain_unseen {||} hs = rev (remdups (rev hs))"
  by (simp add: retain_unseen_eq)

lemma retain_unseen_distinct_id: "distinct hs \<Longrightarrow> retain_unseen {||} hs = hs"
  by (simp add: retain_unseen_first distinct_remdups_id)

text \<open>Deduplication has nothing to do on what \<open>route\<close> returns: its lists come from a set.\<close>

lemma dedupe_route:
  assumes "iteration_order it"
  shows "dedupe_routed_hints (route it hs) = route it hs"
proof (rule fmap_ext)
  fix d
  have "distinct (hints_for d (it hs))"
    using iteration_order_distinct [OF assms] by (simp add: hints_for_def)
  then show "fmlookup (dedupe_routed_hints (route it hs)) d = fmlookup (route it hs) d"
    by (simp add: dedupe_routed_hints_def route_lookup retain_unseen_distinct_id)
qed

section \<open>Every generated hint has a room\<close>

lemma generated_routable:
  assumes "generate_invalidation_hints ev = Inr hs" and "h \<in> set hs"
  shows "route_key h = Some (hint_value h) \<and> plain_names h"
proof -
  have "h \<in> touched_hints ev" using assms generated_hints_exact(1) by blast
  then show ?thesis by (auto simp: touched_hints_def route_key_def plain_names_def)
qed

end
