(* ===== verification/Server_Types.thy ===== *)
theory Server_Types
  imports Mini_Prelude
begin

text \<open>
  \<^verbatim>\<open>src/types.rs\<close>: the messages exchanged with WebSocket clients and the errors of the
  WebSocket and rooms layers with their texts.
\<close>

type_synonym client_id = string
type_synonym document_id = string

datatype web_socket_error =
    InvalidMessage string
  | NotInRoom
  | SendFailed
  | ConnectionError string

fun fmt_web_socket_error :: "web_socket_error \<Rightarrow> string" where
  "fmt_web_socket_error (InvalidMessage msg) = ''Invalid message: '' @ msg"
| "fmt_web_socket_error NotInRoom = ''Must join a room before sending messages''"
| "fmt_web_socket_error SendFailed = ''Failed to send message to client''"
| "fmt_web_socket_error (ConnectionError msg) = ''Connection error: '' @ msg"

datatype room_command_error = ChannelFull | ChannelClosed

fun fmt_room_command_error :: "room_command_error \<Rightarrow> string" where
  "fmt_room_command_error ChannelFull = ''Room command channel is full''"
| "fmt_room_command_error ChannelClosed = ''Room command channel is closed''"

datatype client_message =
    Join document_id
  | SendMessage string
  | SendMessageTo document_id string

datatype server_message =
    Joined client_id document_id
  | Message client_id string u64
  | Invalidation "string list" u64
  | ErrorMessage string

text \<open>\<^verbatim>\<open>ServerMessage::new_message\<close> with the clock reading as an argument.\<close>

definition new_message :: "u64 \<Rightarrow> client_id \<Rightarrow> string \<Rightarrow> server_message" where
  "new_message timestamp from text = Message from text timestamp"

end
