(* ===== verification/Metrics.thy ===== *)
theory Metrics
  imports Mini_Prelude
begin

text \<open>
  \<^verbatim>\<open>src/metrics.rs\<close>: the counters and gauges of the server, each an \<^verbatim>\<open>AtomicU64\<close>, and the
  snapshot the debug endpoint returns. Every atomic operation is one function on the record; a
  counter wraps at \<open>2 ^ 64\<close>, a sum saturates there.
\<close>

section \<open>Counters and gauges\<close>

record metrics =
  actor_cmd_drops_total :: u64
  fanout_drops_total :: u64
  wal_events_consumed_total :: u64
  wal_events_dropped_total :: u64
  wal_lag_seconds :: u64
  wal_lsn :: u64
  wal_slot_active :: u64
  wal_retained_bytes :: u64
  server_cpu_usage_x100 :: u64
  server_memory_bytes :: u64
  server_samples_total :: u64
  server_cpu_usage_x100_sum :: u64
  server_cpu_usage_x100_max :: u64
  server_memory_bytes_sum :: u64
  server_memory_bytes_max :: u64

definition new_metrics :: metrics where
  "new_metrics = \<lparr>actor_cmd_drops_total = 0, fanout_drops_total = 0,
    wal_events_consumed_total = 0, wal_events_dropped_total = 0, wal_lag_seconds = 0, wal_lsn = 0,
    wal_slot_active = 0, wal_retained_bytes = 0, server_cpu_usage_x100 = 0,
    server_memory_bytes = 0, server_samples_total = 0, server_cpu_usage_x100_sum = 0,
    server_cpu_usage_x100_max = 0, server_memory_bytes_sum = 0, server_memory_bytes_max = 0\<rparr>"

definition inc_actor_cmd_drop :: "metrics \<Rightarrow> metrics" where
  "inc_actor_cmd_drop m = m\<lparr>actor_cmd_drops_total := actor_cmd_drops_total m + 1\<rparr>"

definition inc_fanout_drop :: "metrics \<Rightarrow> metrics" where
  "inc_fanout_drop m = m\<lparr>fanout_drops_total := fanout_drops_total m + 1\<rparr>"

definition inc_wal_events_consumed :: "metrics \<Rightarrow> metrics" where
  "inc_wal_events_consumed m = m\<lparr>wal_events_consumed_total := wal_events_consumed_total m + 1\<rparr>"

definition inc_wal_events_dropped :: "metrics \<Rightarrow> metrics" where
  "inc_wal_events_dropped m = m\<lparr>wal_events_dropped_total := wal_events_dropped_total m + 1\<rparr>"

definition set_wal_lag_seconds :: "u64 \<Rightarrow> metrics \<Rightarrow> metrics" where
  "set_wal_lag_seconds lag m = m\<lparr>wal_lag_seconds := lag\<rparr>"

definition set_wal_lsn :: "u64 \<Rightarrow> metrics \<Rightarrow> metrics" where
  "set_wal_lsn lsn m = m\<lparr>wal_lsn := lsn\<rparr>"

definition set_wal_slot_active :: "bool \<Rightarrow> metrics \<Rightarrow> metrics" where
  "set_wal_slot_active active m = m\<lparr>wal_slot_active := of_bool active\<rparr>"

definition set_wal_retained_bytes :: "u64 \<Rightarrow> metrics \<Rightarrow> metrics" where
  "set_wal_retained_bytes retained m = m\<lparr>wal_retained_bytes := retained\<rparr>"

section \<open>Saturating addition by compare and exchange\<close>

text \<open>
  The retry loop of \<^verbatim>\<open>saturating_fetch_add\<close>. Each attempt of the list is one
  \<^verbatim>\<open>compare_exchange_weak\<close>: the value the target then has (other threads may have changed it)
  and whether the weak exchange fails spuriously. The result is the value replaced and the value
  stored, \<open>None\<close> when the attempts run out.
\<close>

fun cas_loop :: "u64 \<Rightarrow> u64 \<Rightarrow> (u64 \<times> bool) list \<Rightarrow> (u64 \<times> u64) option" where
  "cas_loop v current [] = None"
| "cas_loop v current ((actual, spurious) # attempts) =
    (let next = saturating_add current v in
     if actual = current \<and> \<not> spurious then Some (actual, next)
     else cas_loop v actual attempts)"

text \<open>Its effect when it returns, as one atomic step.\<close>

definition saturating_fetch_add :: "u64 \<Rightarrow> u64 \<Rightarrow> u64" where
  "saturating_fetch_add target v = saturating_add target v"

lemma cas_loop_atomic:
  "cas_loop v current attempts = Some (old, new) \<Longrightarrow>
    new = saturating_fetch_add old v \<and> (\<exists>i < length attempts. attempts ! i = (old, False))"
proof (induction v current attempts rule: cas_loop.induct)
  case (2 v current actual spurious attempts)
  show ?case
  proof (cases "actual = current \<and> \<not> spurious")
    case True
    with "2.prems" show ?thesis
      by (auto simp: saturating_fetch_add_def intro!: exI [of _ 0])
  next
    case False
    with "2.prems" have "cas_loop v actual attempts = Some (old, new)" by (auto simp: Let_def)
    from "2.IH" [OF refl False this] show ?thesis by auto
  qed
qed simp

lemma cas_loop_returns:
  assumes "Suc i < length attempts" "fst (attempts ! i) = a" "attempts ! Suc i = (a, False)"
  shows "cas_loop v current attempts \<noteq> None"
  using assms
proof (induction v current attempts arbitrary: i rule: cas_loop.induct)
  case (2 v current actual spurious attempts)
  show ?case
  proof (cases "actual = current \<and> \<not> spurious")
    case False
    have "cas_loop v actual attempts \<noteq> None"
    proof (cases i)
      case 0
      with "2.prems" obtain rest where "attempts = (actual, False) # rest"
        by (cases attempts) auto
      then show ?thesis by simp
    next
      case (Suc j)
      with "2.prems" show ?thesis by (intro "2.IH" [OF refl False, of j]) auto
    qed
    with False show ?thesis by (auto simp: Let_def)
  qed simp
qed simp

section \<open>Resource samples\<close>

definition record_resource_sample :: "u64 \<Rightarrow> u64 \<Rightarrow> metrics \<Rightarrow> metrics" where
  "record_resource_sample cpu_usage_x100 memory_bytes m0 =
    (let m1 = m0\<lparr>server_cpu_usage_x100 := cpu_usage_x100\<rparr>;
         m2 = m1\<lparr>server_memory_bytes := memory_bytes\<rparr>;
         m3 = m2\<lparr>server_samples_total := server_samples_total m2 + 1\<rparr>;
         m4 = m3\<lparr>server_cpu_usage_x100_sum :=
                  saturating_fetch_add (server_cpu_usage_x100_sum m3) cpu_usage_x100\<rparr>;
         m5 = m4\<lparr>server_cpu_usage_x100_max := max (server_cpu_usage_x100_max m4) cpu_usage_x100\<rparr>;
         m6 = m5\<lparr>server_memory_bytes_sum :=
                  saturating_fetch_add (server_memory_bytes_sum m5) memory_bytes\<rparr>
     in m6\<lparr>server_memory_bytes_max := max (server_memory_bytes_max m6) memory_bytes\<rparr>)"

record metrics_snapshot =
  snap_actor_cmd_drops_total :: u64
  snap_fanout_drops_total :: u64
  snap_wal_events_consumed_total :: u64
  snap_wal_events_dropped_total :: u64
  snap_wal_lag_seconds :: u64
  snap_wal_lsn :: u64
  snap_wal_slot_active :: u64
  snap_wal_retained_bytes :: u64
  snap_server_samples_total :: u64
  snap_server_cpu_usage_x100 :: u64
  snap_server_cpu_usage_x100_avg :: u64
  snap_server_cpu_usage_x100_max :: u64
  snap_server_memory_bytes :: u64
  snap_server_memory_bytes_avg :: u64
  snap_server_memory_bytes_max :: u64

text \<open>
  The snapshot loads the sample count first, then the two sums, then the other values; other
  threads may write in between, so the three groups of loads may see three states.
\<close>

definition snapshot_loads :: "metrics \<Rightarrow> metrics \<Rightarrow> metrics \<Rightarrow> metrics_snapshot" where
  "snapshot_loads m1 m2 m =
    (let samples = server_samples_total m1;
         cpu_sum = server_cpu_usage_x100_sum m2;
         mem_sum = server_memory_bytes_sum m2;
         cpu_avg = if samples = 0 then 0 else cpu_sum div samples;
         mem_avg = if samples = 0 then 0 else mem_sum div samples
     in \<lparr>snap_actor_cmd_drops_total = actor_cmd_drops_total m,
         snap_fanout_drops_total = fanout_drops_total m,
         snap_wal_events_consumed_total = wal_events_consumed_total m,
         snap_wal_events_dropped_total = wal_events_dropped_total m,
         snap_wal_lag_seconds = wal_lag_seconds m,
         snap_wal_lsn = wal_lsn m,
         snap_wal_slot_active = wal_slot_active m,
         snap_wal_retained_bytes = wal_retained_bytes m,
         snap_server_samples_total = samples,
         snap_server_cpu_usage_x100 = server_cpu_usage_x100 m,
         snap_server_cpu_usage_x100_avg = cpu_avg,
         snap_server_cpu_usage_x100_max = server_cpu_usage_x100_max m,
         snap_server_memory_bytes = server_memory_bytes m,
         snap_server_memory_bytes_avg = mem_avg,
         snap_server_memory_bytes_max = server_memory_bytes_max m\<rparr>)"

definition snapshot :: "metrics \<Rightarrow> metrics_snapshot" where
  "snapshot m = snapshot_loads m m m"

text \<open>
  One tick of \<^verbatim>\<open>run_resource_sampler\<close>. What \<^verbatim>\<open>sysinfo\<close> reports for the process is the
  argument: nothing, or the CPU usage already scaled and truncated to an \<open>u64\<close> and the memory.
\<close>

definition sampler_tick :: "(u64 \<times> u64) option \<Rightarrow> metrics \<Rightarrow> metrics" where
  "sampler_tick process m =
    (case process of
       None \<Rightarrow> m
     | Some (cpu_usage_x100, memory) \<Rightarrow>
         (let memory_bytes = saturating_mul memory 1024
          in record_resource_sample cpu_usage_x100 memory_bytes m))"

definition run_resource_sampler :: "(u64 \<times> u64) option list \<Rightarrow> metrics \<Rightarrow> metrics" where
  "run_resource_sampler ticks m = fold sampler_tick ticks m"

text \<open>The samples a run of the sampler records, in the units of the metrics.\<close>

fun recorded :: "(u64 \<times> u64) option list \<Rightarrow> (u64 \<times> u64) list" where
  "recorded [] = []"
| "recorded (None # ticks) = recorded ticks"
| "recorded (Some (cpu, memory) # ticks) = (cpu, saturating_mul memory 1024) # recorded ticks"

section \<open>The aggregates describe the samples\<close>

definition sum_u64 :: "u64 list \<Rightarrow> nat" where
  "sum_u64 xs = sum_list (map unat xs)"

definition max_u64 :: "u64 list \<Rightarrow> u64" where
  "max_u64 xs = fold max xs 0"

definition describes :: "metrics \<Rightarrow> (u64 \<times> u64) list \<Rightarrow> bool" where
  "describes m xs \<longleftrightarrow>
    server_samples_total m = of_nat (length xs)
    \<and> unat (server_cpu_usage_x100_sum m) = min (sum_u64 (map fst xs)) (2 ^ 64 - 1)
    \<and> server_cpu_usage_x100_max m = max_u64 (map fst xs)
    \<and> unat (server_memory_bytes_sum m) = min (sum_u64 (map snd xs)) (2 ^ 64 - 1)
    \<and> server_memory_bytes_max m = max_u64 (map snd xs)"

lemma sum_u64_snoc [simp]: "sum_u64 (xs @ [x]) = sum_u64 xs + unat x"
  by (simp add: sum_u64_def)

lemma max_u64_snoc [simp]: "max_u64 (xs @ [x]) = max (max_u64 xs) x"
  by (simp add: max_u64_def max.commute)

lemma describes_new [inv_intros]: "describes new_metrics []"
  by (simp add: describes_def new_metrics_def sum_u64_def max_u64_def)

lemma min_saturating: "min (min a k + b) k = min (a + b) (k :: nat)"
  by simp

lemma describes_record [inv_intros]:
  "describes m xs \<Longrightarrow> describes (record_resource_sample cpu mem m) (xs @ [(cpu, mem)])"
  by (simp add: describes_def record_resource_sample_def saturating_fetch_add_def
      unat_saturating_add min_saturating)

lemma describes_run:
  "describes m xs \<Longrightarrow> describes (run_resource_sampler ticks m) (xs @ recorded ticks)"
proof (induction ticks arbitrary: m xs)
  case (Cons t ticks)
  show ?case
  proof (cases t)
    case None
    with Cons show ?thesis by (simp add: run_resource_sampler_def sampler_tick_def)
  next
    case (Some p)
    obtain cpu memory where p: "p = (cpu, memory)" by (cases p)
    have "describes (sampler_tick t m) (xs @ [(cpu, saturating_mul memory 1024)])"
      using Cons.prems Some p by (simp add: sampler_tick_def describes_record)
    from Cons.IH [OF this] Some p show ?thesis by (simp add: run_resource_sampler_def)
  qed
qed (simp add: run_resource_sampler_def)

lemma max_u64_upper: "x \<in> set xs \<Longrightarrow> x \<le> max_u64 xs"
  by (induction xs rule: rev_induct) (auto simp: le_max_iff_disj)

lemma sum_u64_le: "sum_u64 xs \<le> length xs * unat (max_u64 xs)"
proof -
  have "sum_list (map unat xs) \<le> sum_list (map (\<lambda>_. unat (max_u64 xs)) xs)"
    by (intro sum_list_mono) (simp add: max_u64_upper word_le_nat_alt [symmetric])
  then show ?thesis by (simp add: sum_u64_def sum_list_triv)
qed

text \<open>The average of a snapshot taken between two samples.\<close>

lemma average_of_sum:
  assumes "0 < n" "n < 2 ^ 64" "unat s = min (sum_u64 xs) (2 ^ 64 - 1)"
  shows "unat (s div (of_nat n :: u64)) = min (sum_u64 xs) (2 ^ 64 - 1) div n"
  using assms by (simp add: unat_div_distrib unat_of_nat)

lemma average_le_max:
  assumes "0 < length xs" "length xs < 2 ^ 64" "unat s = min (sum_u64 xs) (2 ^ 64 - 1)"
  shows "s div (of_nat (length xs) :: u64) \<le> max_u64 xs"
proof -
  have "min (sum_u64 xs) (2 ^ 64 - 1) \<le> length xs * unat (max_u64 xs)"
    using sum_u64_le [of xs] by simp
  then have "min (sum_u64 xs) (2 ^ 64 - 1) div length xs \<le> unat (max_u64 xs)"
    using assms(1) by (metis div_le_mono nonzero_mult_div_cancel_left not_gr_zero)
  then show ?thesis
    using average_of_sum [OF assms] by (simp add: word_le_nat_alt)
qed

lemma snapshot_average_bounds:
  assumes "describes m xs" "length xs < 2 ^ 64"
  shows "snap_server_cpu_usage_x100_avg (snapshot m) \<le> snap_server_cpu_usage_x100_max (snapshot m)"
    and "snap_server_memory_bytes_avg (snapshot m) \<le> snap_server_memory_bytes_max (snapshot m)"
proof -
  have zero: "(of_nat (length xs) :: u64) = 0 \<longleftrightarrow> xs = []"
    using assms(2) by (simp add: word_of_nat_eq_0_iff) (auto dest: nat_dvd_not_less)
  show "snap_server_cpu_usage_x100_avg (snapshot m) \<le> snap_server_cpu_usage_x100_max (snapshot m)"
    using assms average_le_max [of "map fst xs" "server_cpu_usage_x100_sum m"]
    by (auto simp: snapshot_def snapshot_loads_def describes_def zero Let_def)
  show "snap_server_memory_bytes_avg (snapshot m) \<le> snap_server_memory_bytes_max (snapshot m)"
    using assms average_le_max [of "map snd xs" "server_memory_bytes_sum m"]
    by (auto simp: snapshot_def snapshot_loads_def describes_def zero Let_def)
qed

end
