(* ===== verification/Channel.thy ===== *)
theory Channel
  imports Mini_Prelude
begin

text \<open>
  The bounded channels of \<^verbatim>\<open>tokio::sync::mpsc\<close> the actors talk through. Tokio is not part of
  this program: \<open>try_send\<close> is a parameter of every definition that uses it, and the locale \<open>mpsc\<close>
  states what its documentation promises of a bounded channel. \<open>'tx\<close> names a channel (all clones
  of a sender send to the same one), \<open>'w\<close> is the state of all channels.

  \<open>chan_try_send\<close> is a reference channel, the concrete function with which the contract is
  inhabited and the properties that assume it are evaluated.
\<close>

datatype send_result = SendOk | SendFull | SendClosed

locale mpsc =
  fixes try_send :: "'tx \<Rightarrow> 'm \<Rightarrow> 'w \<Rightarrow> send_result \<times> 'w"
    and queue :: "'w \<Rightarrow> 'tx \<Rightarrow> 'm list"
    and closed :: "'w \<Rightarrow> 'tx \<Rightarrow> bool"
    and capacity :: "'tx \<Rightarrow> nat"
  assumes send_closed: "closed w tx \<Longrightarrow> try_send tx m w = (SendClosed, w)"
    and send_full:
      "\<not> closed w tx \<Longrightarrow> capacity tx \<le> length (queue w tx) \<Longrightarrow> try_send tx m w = (SendFull, w)"
    and send_ok:
      "\<not> closed w tx \<Longrightarrow> length (queue w tx) < capacity tx \<Longrightarrow>
        \<exists>w'. try_send tx m w = (SendOk, w') \<and> queue w' = (queue w)(tx := queue w tx @ [m])
          \<and> closed w' = closed w"
begin

definition accepts :: "'w \<Rightarrow> 'tx \<Rightarrow> bool" where
  "accepts w tx \<longleftrightarrow> \<not> closed w tx \<and> length (queue w tx) < capacity tx"

lemma send_cases:
  obtains (is_closed) "closed w tx" "try_send tx m w = (SendClosed, w)" "\<not> accepts w tx"
  | (is_full) "\<not> closed w tx" "try_send tx m w = (SendFull, w)" "\<not> accepts w tx"
  | (is_ok) w' where "try_send tx m w = (SendOk, w')" "accepts w tx" "\<not> closed w tx"
      "queue w' = (queue w)(tx := queue w tx @ [m])" "closed w' = closed w"
proof -
  consider "closed w tx" | "\<not> closed w tx" "capacity tx \<le> length (queue w tx)"
    | "\<not> closed w tx" "length (queue w tx) < capacity tx" by linarith
  then show thesis
  proof cases
    case 1
    then show thesis using is_closed send_closed by (simp add: accepts_def)
  next
    case 2
    then show thesis using is_full send_full by (simp add: accepts_def)
  next
    case 3
    from send_ok [OF this] obtain w' where "try_send tx m w = (SendOk, w')"
      "queue w' = (queue w)(tx := queue w tx @ [m])" "closed w' = closed w" by blast
    with 3 show thesis using is_ok [of w'] by (simp add: accepts_def)
  qed
qed

lemma send_keeps_closed: "closed (snd (try_send tx m w)) = closed w"
  by (rule send_cases [of w tx m]) auto

lemma send_result_closed_iff: "fst (try_send tx m w) = SendClosed \<longleftrightarrow> closed w tx"
  by (rule send_cases [of w tx m]) auto

lemma send_queue:
  "queue (snd (try_send tx m w)) tx' =
    queue w tx' @ (if tx' = tx \<and> accepts w tx then [m] else [])"
  by (rule send_cases [of w tx m]) auto

lemma send_bounded:
  "length (queue w tx') \<le> capacity tx' \<Longrightarrow>
    length (queue (snd (try_send tx m w)) tx') \<le> capacity tx'"
  by (auto simp: send_queue accepts_def)

end

section \<open>A reference channel\<close>

record ('tx, 'm) channels =
  chan_queue :: "'tx \<Rightarrow> 'm list"
  chan_closed :: "'tx \<Rightarrow> bool"

definition chan_try_send ::
    "('tx \<Rightarrow> nat) \<Rightarrow> 'tx \<Rightarrow> 'm \<Rightarrow> ('tx, 'm) channels \<Rightarrow> send_result \<times> ('tx, 'm) channels" where
  "chan_try_send cap tx m w =
    (if chan_closed w tx then (SendClosed, w)
     else if cap tx \<le> length (chan_queue w tx) then (SendFull, w)
     else (SendOk, w\<lparr>chan_queue := (chan_queue w)(tx := chan_queue w tx @ [m])\<rparr>))"

definition open_channels :: "('tx, 'm) channels" where
  "open_channels = \<lparr>chan_queue = (\<lambda>_. []), chan_closed = (\<lambda>_. False)\<rparr>"

interpretation ref_chan: mpsc "chan_try_send cap" chan_queue chan_closed cap for cap
  by unfold_locales (auto simp: chan_try_send_def)

end
