(* ===== verification/Rooms.thy ===== *)
theory Rooms
  imports Server_Types Metrics Channel
begin

text \<open>
  \<^verbatim>\<open>src/rooms.rs\<close>: the commands of the rooms actor, the handle through which other tasks
  send them, and the actor itself, the only owner of the room membership. The channels are
  parameters: \<open>cmd_send\<close> is \<^verbatim>\<open>try_send\<close> on the command channel, \<open>try_send\<close> that of the
  per-client channels. A run of the actor is the list of commands it has received.
\<close>

section \<open>Commands and the handle\<close>

datatype ('tx, 'r) room_command =
    RoomJoin document_id client_id 'tx 'r
  | RoomLeave document_id client_id
  | RoomBroadcast document_id server_message

definition rooms_channel_capacity :: nat where
  "rooms_channel_capacity = 256"

record 'h rooms_handle =
  handle_tx :: 'h

text \<open>\<^verbatim>\<open>RoomsHandle::start\<close>: a channel and its task.\<close>

definition rooms_handle_start :: "(nat \<Rightarrow> 'w \<Rightarrow> 'h \<times> 'w) \<Rightarrow> 'w \<Rightarrow> 'h rooms_handle \<times> 'w" where
  "rooms_handle_start channel w =
    (case channel rooms_channel_capacity w of (tx, w') \<Rightarrow> (\<lparr>handle_tx = tx\<rparr>, w'))"

fun room_result :: "send_result \<times> 'w \<Rightarrow> (room_command_error + unit) \<times> 'w" where
  "room_result (SendOk, w) = (Inr (), w)"
| "room_result (SendFull, w) = (Inl ChannelFull, w)"
| "room_result (SendClosed, w) = (Inl ChannelClosed, w)"

definition join_room ::
    "('h \<Rightarrow> ('tx, 'r) room_command \<Rightarrow> 'w \<Rightarrow> send_result \<times> 'w) \<Rightarrow> 'h rooms_handle \<Rightarrow>
      document_id \<Rightarrow> client_id \<Rightarrow> 'tx \<Rightarrow> 'r \<Rightarrow> 'w \<Rightarrow> (room_command_error + unit) \<times> 'w" where
  "join_room cmd_send h room client_id client_tx respond_to w =
    room_result (cmd_send (handle_tx h) (RoomJoin room client_id client_tx respond_to) w)"

definition leave_room ::
    "('h \<Rightarrow> ('tx, 'r) room_command \<Rightarrow> 'w \<Rightarrow> send_result \<times> 'w) \<Rightarrow> 'h rooms_handle \<Rightarrow>
      document_id \<Rightarrow> client_id \<Rightarrow> 'w \<Rightarrow> (room_command_error + unit) \<times> 'w" where
  "leave_room cmd_send h room client_id w =
    room_result (cmd_send (handle_tx h) (RoomLeave room client_id) w)"

definition broadcast_to_room ::
    "('h \<Rightarrow> ('tx, 'r) room_command \<Rightarrow> 'w \<Rightarrow> send_result \<times> 'w) \<Rightarrow> 'h rooms_handle \<Rightarrow>
      document_id \<Rightarrow> server_message \<Rightarrow> 'w \<Rightarrow> (room_command_error + unit) \<times> 'w" where
  "broadcast_to_room cmd_send h room message w =
    room_result (cmd_send (handle_tx h) (RoomBroadcast room message) w)"

section \<open>The actor\<close>

type_synonym 'tx clients = "(client_id \<times> 'tx) list"

record ('tx, 'r, 'w) coordinator =
  co_rooms :: "(document_id, 'tx clients) fmap"
  co_acks :: "'r list"
  co_metrics :: metrics
  co_world :: 'w

text \<open>
  The loop over the clients of a room in a broadcast: the ids whose channel was closed are
  collected, a full channel is counted and the message dropped for that client.
\<close>

fun broadcast_loop ::
    "('tx \<Rightarrow> server_message \<Rightarrow> 'w \<Rightarrow> send_result \<times> 'w) \<Rightarrow> server_message \<Rightarrow> 'tx clients \<Rightarrow>
      client_id list \<Rightarrow> metrics \<Rightarrow> 'w \<Rightarrow> client_id list \<times> metrics \<times> 'w" where
  "broadcast_loop try_send message [] failed m w = (failed, m, w)"
| "broadcast_loop try_send message ((client_id, tx) # clients) failed m w =
    (case try_send tx message w of
       (SendOk, w') \<Rightarrow> broadcast_loop try_send message clients failed m w'
     | (SendFull, w') \<Rightarrow> broadcast_loop try_send message clients failed (inc_fanout_drop m) w'
     | (SendClosed, w') \<Rightarrow> broadcast_loop try_send message clients (failed @ [client_id]) m w')"

fun coordinator_step ::
    "('tx \<Rightarrow> server_message \<Rightarrow> 'w \<Rightarrow> send_result \<times> 'w) \<Rightarrow> ('tx, 'r) room_command \<Rightarrow>
      ('tx, 'r, 'w) coordinator \<Rightarrow> ('tx, 'r, 'w) coordinator" where
  "coordinator_step try_send (RoomJoin room client_id tx respond_to) st =
    (let clients = entry_list (co_rooms st) room @ [(client_id, tx)]
     in st\<lparr>co_rooms := fmupd room clients (co_rooms st), co_acks := co_acks st @ [respond_to]\<rparr>)"
| "coordinator_step try_send (RoomLeave room client_id) st =
    (case fmlookup (co_rooms st) room of
       None \<Rightarrow> st
     | Some clients0 \<Rightarrow>
         (let clients = filter (\<lambda>(cid, _). cid \<noteq> client_id) clients0
          in if clients = [] then st\<lparr>co_rooms := fmdrop room (co_rooms st)\<rparr>
             else st\<lparr>co_rooms := fmupd room clients (co_rooms st)\<rparr>))"
| "coordinator_step try_send (RoomBroadcast room message) st =
    (case fmlookup (co_rooms st) room of
       None \<Rightarrow> st
     | Some clients0 \<Rightarrow>
         (case broadcast_loop try_send message clients0 [] (co_metrics st) (co_world st) of
            (failed, m, w) \<Rightarrow>
              (let st' = st\<lparr>co_metrics := m, co_world := w\<rparr> in
               if failed = [] then st'
               else
                 (let clients = filter (\<lambda>(cid, _). cid \<notin> set failed) clients0
                  in if clients = [] then st'\<lparr>co_rooms := fmdrop room (co_rooms st)\<rparr>
                     else st'\<lparr>co_rooms := fmupd room clients (co_rooms st)\<rparr>))))"

definition rooms_coordinator ::
    "('tx \<Rightarrow> server_message \<Rightarrow> 'w \<Rightarrow> send_result \<times> 'w) \<Rightarrow> ('tx, 'r) room_command list \<Rightarrow>
      ('tx, 'r, 'w) coordinator \<Rightarrow> ('tx, 'r, 'w) coordinator" where
  "rooms_coordinator try_send cmds st = fold (coordinator_step try_send) cmds st"

definition coordinator_start :: "metrics \<Rightarrow> 'w \<Rightarrow> ('tx, 'r, 'w) coordinator" where
  "coordinator_start m w = \<lparr>co_rooms = fmempty, co_acks = [], co_metrics = m, co_world = w\<rparr>"

lemma rooms_coordinator_simps [simp]:
  "rooms_coordinator try_send [] st = st"
  "rooms_coordinator try_send (c # cs) st = rooms_coordinator try_send cs (coordinator_step try_send c st)"
  "rooms_coordinator try_send (cs @ ds) st =
    rooms_coordinator try_send ds (rooms_coordinator try_send cs st)"
  by (simp_all add: rooms_coordinator_def)

section \<open>Membership\<close>

abbreviation clients_in :: "('tx, 'r, 'w) coordinator \<Rightarrow> document_id \<Rightarrow> 'tx clients" where
  "clients_in st room \<equiv> entry_list (co_rooms st) room"

text \<open>No room is kept without clients.\<close>

definition rooms_ok :: "('tx, 'r, 'w) coordinator \<Rightarrow> bool" where
  "rooms_ok st \<longleftrightarrow> (\<forall>room. fmlookup (co_rooms st) room \<noteq> Some [])"

lemma rooms_ok_start [inv_intros]: "rooms_ok (coordinator_start m w)"
  by (simp add: rooms_ok_def coordinator_start_def)

lemma rooms_ok_step [inv_intros]: "rooms_ok st \<Longrightarrow> rooms_ok (coordinator_step try_send c st)"
  by (cases c) (auto simp: rooms_ok_def Let_def split: option.splits prod.splits)

lemma rooms_ok_run [inv_intros]: "rooms_ok st \<Longrightarrow> rooms_ok (rooms_coordinator try_send cmds st)"
  by (induction cmds arbitrary: st) (auto intro: inv_intros)

text \<open>The outcomes of a broadcast, one per client in the order of joining.\<close>

fun outcomes ::
    "('tx \<Rightarrow> server_message \<Rightarrow> 'w \<Rightarrow> send_result \<times> 'w) \<Rightarrow> server_message \<Rightarrow> 'tx clients \<Rightarrow> 'w \<Rightarrow>
      (client_id \<times> send_result) list \<times> 'w" where
  "outcomes try_send message [] w = ([], w)"
| "outcomes try_send message ((client_id, tx) # clients) w =
    (case try_send tx message w of
       (res, w') \<Rightarrow>
         (case outcomes try_send message clients w' of (rs, w'') \<Rightarrow> ((client_id, res) # rs, w'')))"

definition failed_in :: "(client_id \<times> send_result) list \<Rightarrow> client_id list" where
  "failed_in rs = map fst (filter (\<lambda>(_, r). r = SendClosed) rs)"

definition drops_in :: "(client_id \<times> send_result) list \<Rightarrow> nat" where
  "drops_in rs = length (filter (\<lambda>(_, r). r = SendFull) rs)"

definition add_fanout_drops :: "nat \<Rightarrow> metrics \<Rightarrow> metrics" where
  "add_fanout_drops n m = m\<lparr>fanout_drops_total := fanout_drops_total m + of_nat n\<rparr>"

lemma broadcast_loop_outcomes:
  "broadcast_loop try_send message clients failed m w =
    (case outcomes try_send message clients w of
       (rs, w') \<Rightarrow> (failed @ failed_in rs, add_fanout_drops (drops_in rs) m, w'))"
proof (induction clients arbitrary: failed m w)
  case Nil
  then show ?case by (simp add: failed_in_def drops_in_def add_fanout_drops_def)
next
  case (Cons c clients)
  obtain cid tx where c: "c = (cid, tx)" by (cases c)
  obtain res w1 where send: "try_send tx message w = (res, w1)" by (cases "try_send tx message w")
  obtain rs w2 where rs: "outcomes try_send message clients w1 = (rs, w2)"
    by (cases "outcomes try_send message clients w1")
  show ?case
    using Cons.IH
    by (cases res)
      (simp_all add: c send rs failed_in_def drops_in_def add_fanout_drops_def inc_fanout_drop_def
        add.assoc)
qed

definition keep_alive :: "client_id list \<Rightarrow> 'tx clients \<Rightarrow> 'tx clients" where
  "keep_alive failed clients = filter (\<lambda>(cid, _). cid \<notin> set failed) clients"

lemma keep_alive_Nil [simp]: "keep_alive [] clients = clients"
  by (simp add: keep_alive_def)

lemma clients_join:
  "clients_in (coordinator_step try_send (RoomJoin room cid tx ack) st) d =
    (if d = room then clients_in st room @ [(cid, tx)] else clients_in st d)"
  by simp

lemma clients_leave:
  "clients_in (coordinator_step try_send (RoomLeave room cid) st) d =
    (if d = room then filter (\<lambda>(c, _). c \<noteq> cid) (clients_in st room) else clients_in st d)"
  by (auto simp: entry_list_def Let_def split: option.splits)

lemma broadcast_effect:
  assumes "outcomes try_send message (clients_in st room) (co_world st) = (rs, w')"
  shows "clients_in (coordinator_step try_send (RoomBroadcast room message) st) d =
      (if d = room then keep_alive (failed_in rs) (clients_in st room) else clients_in st d)"
    and "co_world (coordinator_step try_send (RoomBroadcast room message) st) = w'"
    and "co_metrics (coordinator_step try_send (RoomBroadcast room message) st) =
      add_fanout_drops (drops_in rs) (co_metrics st)"
proof -
  have "clients_in (coordinator_step try_send (RoomBroadcast room message) st) d =
      (if d = room then keep_alive (failed_in rs) (clients_in st room) else clients_in st d)
    \<and> co_world (coordinator_step try_send (RoomBroadcast room message) st) = w'
    \<and> co_metrics (coordinator_step try_send (RoomBroadcast room message) st) =
      add_fanout_drops (drops_in rs) (co_metrics st)"
  proof (cases "fmlookup (co_rooms st) room")
    case None
    with assms have "rs = []" "w' = co_world st" by (auto simp: entry_list_def)
    with None show ?thesis
      by (auto simp: entry_list_def drops_in_def add_fanout_drops_def failed_in_def)
  next
    case (Some clients)
    then have now: "clients_in st room = clients" by (simp add: entry_list_def)
    with assms have "broadcast_loop try_send message clients [] (co_metrics st) (co_world st) =
        (failed_in rs, add_fanout_drops (drops_in rs) (co_metrics st), w')"
      by (simp add: broadcast_loop_outcomes)
    with Some now show ?thesis
      by (auto simp: Let_def keep_alive_def)
  qed
  then show "clients_in (coordinator_step try_send (RoomBroadcast room message) st) d =
      (if d = room then keep_alive (failed_in rs) (clients_in st room) else clients_in st d)"
    and "co_world (coordinator_step try_send (RoomBroadcast room message) st) = w'"
    and "co_metrics (coordinator_step try_send (RoomBroadcast room message) st) =
      add_fanout_drops (drops_in rs) (co_metrics st)"
    by blast+
qed

lemma step_join_leave_world:
  "co_world (coordinator_step try_send (RoomJoin room cid tx ack) st) = co_world st"
  "co_world (coordinator_step try_send (RoomLeave room cid) st) = co_world st"
  by (auto simp: Let_def split: option.splits)

text \<open>One acknowledgement per join command, in order, and none for anything else.\<close>

fun ack_of :: "('tx, 'r) room_command \<Rightarrow> 'r list" where
  "ack_of (RoomJoin room cid tx ack) = [ack]"
| "ack_of (RoomLeave room cid) = []"
| "ack_of (RoomBroadcast room message) = []"

lemma acks_step: "co_acks (coordinator_step try_send c st) = co_acks st @ ack_of c"
  by (cases c) (auto simp: Let_def split: option.splits prod.splits)

lemma acks_run: "co_acks (rooms_coordinator try_send cmds st) = co_acks st @ concat (map ack_of cmds)"
  by (induction cmds arbitrary: st) (simp_all add: acks_step)

section \<open>The actor over channels that keep their contract\<close>

locale client_channels = mpsc try_send queue closed capacity
  for try_send :: "'tx \<Rightarrow> server_message \<Rightarrow> 'w \<Rightarrow> send_result \<times> 'w"
    and queue :: "'w \<Rightarrow> 'tx \<Rightarrow> server_message list"
    and closed :: "'w \<Rightarrow> 'tx \<Rightarrow> bool"
    and capacity :: "'tx \<Rightarrow> nat"
begin

lemma outcomes_Cons:
  "outcomes try_send message (c # clients) w =
    (let w' = snd (try_send (snd c) message w); rest = outcomes try_send message clients w'
     in ((fst c, fst (try_send (snd c) message w)) # fst rest, snd rest))"
  by (cases c) (simp add: Let_def split: prod.split)

lemma outcomes_closed: "closed (snd (outcomes try_send message clients w)) = closed w"
  by (induction clients arbitrary: w) (simp_all add: outcomes_Cons Let_def send_keeps_closed)

lemma outcomes_failed:
  "failed_in (fst (outcomes try_send message clients w)) =
    map fst (filter (\<lambda>(_, tx). closed w tx) clients)"
  by (induction clients arbitrary: w)
    (auto simp: outcomes_Cons Let_def failed_in_def send_keeps_closed send_result_closed_iff)

lemma outcomes_other:
  "tx \<notin> snd ` set clients \<Longrightarrow>
    queue (snd (outcomes try_send message clients w)) tx = queue w tx"
  by (induction clients arbitrary: w) (auto simp: outcomes_Cons Let_def send_queue)

lemma accepts_after_other:
  "tx \<noteq> tx' \<Longrightarrow> accepts (snd (try_send tx' m w)) tx = accepts w tx"
  by (simp add: accepts_def send_queue send_keeps_closed)

lemma outcomes_queue:
  "distinct (map snd clients) \<Longrightarrow>
    queue (snd (outcomes try_send message clients w)) tx =
      queue w tx @ (if tx \<in> snd ` set clients \<and> accepts w tx then [message] else [])"
proof (induction clients arbitrary: w)
  case (Cons c clients)
  show ?case
  proof (cases "tx = snd c")
    case True
    with Cons.prems have "tx \<notin> snd ` set clients" by simp
    with True show ?thesis by (simp add: outcomes_Cons Let_def outcomes_other send_queue)
  next
    case False
    with Cons show ?thesis
      by (simp add: outcomes_Cons Let_def send_queue accepts_after_other)
  qed
qed simp

text \<open>A channel that is listed several times gets the message as often, while it has space.\<close>

lemma outcomes_listed:
  "\<not> closed w tx \<Longrightarrow> length (queue w tx) + length (filter (\<lambda>c. snd c = tx) clients) \<le> capacity tx \<Longrightarrow>
    queue (snd (outcomes try_send message clients w)) tx =
      queue w tx @ replicate (length (filter (\<lambda>c. snd c = tx) clients)) message"
proof (induction clients arbitrary: w)
  case (Cons c clients)
  let ?w = "snd (try_send (snd c) message w)" and ?n = "length (filter (\<lambda>c. snd c = tx) clients)"
  show ?case
  proof (cases "snd c = tx")
    case True
    with Cons.prems have "accepts w tx" by (simp add: accepts_def)
    moreover have "queue (snd (outcomes try_send message clients ?w)) tx = queue ?w tx @ replicate ?n message"
      by (rule Cons.IH) (use Cons.prems True \<open>accepts w tx\<close> in \<open>simp_all add: send_queue send_keeps_closed\<close>)
    ultimately show ?thesis using True by (simp add: outcomes_Cons Let_def send_queue)
  next
    case False
    have "queue (snd (outcomes try_send message clients ?w)) tx = queue ?w tx @ replicate ?n message"
      by (rule Cons.IH) (use Cons.prems False in \<open>simp_all add: send_queue send_keeps_closed\<close>)
    with False show ?thesis by (simp add: outcomes_Cons Let_def send_queue)
  qed
qed simp

lemma outcomes_drops:
  "distinct (map snd clients) \<Longrightarrow>
    drops_in (fst (outcomes try_send message clients w)) =
      length (filter (\<lambda>(_, tx). \<not> closed w tx \<and> \<not> accepts w tx) clients)"
proof (induction clients arbitrary: w)
  case (Cons c clients)
  let ?w = "snd (try_send (snd c) message w)"
  have "\<forall>x \<in> set clients. snd x \<noteq> snd c" using Cons.prems by (auto simp: image_iff)
  then have "filter (\<lambda>a. \<not> closed ?w (snd a) \<and> \<not> accepts ?w (snd a)) clients =
      filter (\<lambda>a. \<not> closed w (snd a) \<and> \<not> accepts w (snd a)) clients"
    by (intro filter_cong) (auto simp: send_keeps_closed accepts_after_other)
  with Cons.IH [of ?w] Cons.prems show ?case
    by (rule_tac send_cases [of w "snd c" message])
      (auto simp: outcomes_Cons Let_def drops_in_def case_prod_beta)
qed (simp add: drops_in_def)

lemma outcomes_bounded:
  "(\<forall>tx. length (queue w tx) \<le> capacity tx) \<Longrightarrow>
    length (queue (snd (outcomes try_send message clients w)) tx) \<le> capacity tx"
  by (induction clients arbitrary: w) (simp_all add: outcomes_Cons Let_def send_bounded)

text \<open>The actor never closes or reopens a channel.\<close>

lemma step_closed: "closed (co_world (coordinator_step try_send c st)) = closed (co_world st)"
proof (cases c)
  case (RoomBroadcast room message)
  then show ?thesis
    using broadcast_effect(2) [where try_send = try_send and message = message and st = st
        and room = room, OF surjective_pairing]
    by (simp only: outcomes_closed RoomBroadcast)
qed (simp_all only: step_join_leave_world)

lemma run_closed: "closed (co_world (rooms_coordinator try_send cmds st)) = closed (co_world st)"
  by (induction cmds arbitrary: st) (simp_all add: step_closed)

text \<open>A broadcast removes exactly the clients one of whose channels in the room is closed.\<close>

lemma broadcast_clients:
  "clients_in (coordinator_step try_send (RoomBroadcast room message) st) d =
    (if d = room
     then filter (\<lambda>(cid, _). \<forall>tx. (cid, tx) \<in> set (clients_in st room) \<longrightarrow> \<not> closed (co_world st) tx)
       (clients_in st room)
     else clients_in st d)"
proof -
  have "cid \<in> set (failed_in (fst (outcomes try_send message cs w))) \<longleftrightarrow>
      (\<exists>tx. (cid, tx) \<in> set cs \<and> closed w tx)" for cid cs w
    by (force simp: outcomes_failed)
  then show ?thesis
    using broadcast_effect(1) [where try_send = try_send and message = message and st = st
        and room = room and d = d, OF surjective_pairing]
    by (auto simp: keep_alive_def intro!: filter_cong)
qed

end

text \<open>
  The senders a client has registered in a room by the commands received so far, those before its
  last \<^verbatim>\<open>Leave\<close> forgotten.
\<close>

fun join_effect ::
    "document_id \<Rightarrow> client_id \<Rightarrow> ('tx, 'r) room_command \<Rightarrow> 'tx list \<Rightarrow> 'tx list" where
  "join_effect d c (RoomJoin room cid tx ack) txs = (if room = d \<and> cid = c then txs @ [tx] else txs)"
| "join_effect d c (RoomLeave room cid) txs = (if room = d \<and> cid = c then [] else txs)"
| "join_effect d c (RoomBroadcast room message) txs = txs"

definition joins_since_leave ::
    "document_id \<Rightarrow> client_id \<Rightarrow> ('tx, 'r) room_command list \<Rightarrow> 'tx list" where
  "joins_since_leave d c cmds = fold (join_effect d c) cmds []"

definition senders_of :: "client_id \<Rightarrow> 'tx clients \<Rightarrow> 'tx list" where
  "senders_of c clients = map snd (filter (\<lambda>(cid, _). cid = c) clients)"

lemma senders_of_simps [simp]:
  "senders_of c [] = []"
  "senders_of c (clients @ clients') = senders_of c clients @ senders_of c clients'"
  "senders_of c [(cid, tx)] = (if cid = c then [tx] else [])"
  by (simp_all add: senders_of_def)

lemma senders_of_leave:
  "senders_of c (filter (\<lambda>(cid', _). cid' \<noteq> cid) clients) = (if c = cid then [] else senders_of c clients)"
  unfolding senders_of_def
  by (cases "c = cid") (auto simp: filter_empty_conv case_prod_beta intro!: arg_cong [of _ _ "map snd"] filter_cong)

context client_channels
begin

lemma senders_step:
  assumes "\<forall>tx \<in> set (senders_of c (clients_in st d)). \<not> closed (co_world st) tx"
  shows "senders_of c (clients_in (coordinator_step try_send cmd st) d) =
    join_effect d c cmd (senders_of c (clients_in st d))"
proof (cases cmd)
  case (RoomJoin room cid tx ack)
  then show ?thesis by (simp del: coordinator_step.simps add: clients_join)
next
  case (RoomLeave room cid)
  then show ?thesis
    by (simp del: coordinator_step.simps add: clients_leave senders_of_leave)
next
  case (RoomBroadcast room message)
  have "filter (\<lambda>(cid, _). cid = c) (filter (\<lambda>(cid, _). \<forall>tx. (cid, tx) \<in> set (clients_in st d) \<longrightarrow>
      \<not> closed (co_world st) tx) (clients_in st d)) = filter (\<lambda>(cid, _). cid = c) (clients_in st d)"
    using assms by (auto simp: senders_of_def intro!: filter_cong)
  then show ?thesis
    using RoomBroadcast
    by (cases "d = room")
      (simp_all del: coordinator_step.simps add: broadcast_clients senders_of_def)
qed

lemma joins_effect_subset:
  "set (join_effect d c cmd txs) \<subseteq> set txs \<union> {tx. \<exists>ack. cmd = RoomJoin d c tx ack}"
  by (cases cmd) auto

lemma senders_run:
  assumes "\<forall>tx \<in> set (senders_of c (clients_in st d)). \<not> closed (co_world st) tx"
    and "\<forall>tx ack. RoomJoin d c tx ack \<in> set cmds \<longrightarrow> \<not> closed (co_world st) tx"
  shows "senders_of c (clients_in (rooms_coordinator try_send cmds st) d) =
    fold (join_effect d c) cmds (senders_of c (clients_in st d))"
  using assms
proof (induction cmds arbitrary: st)
  case (Cons cmd cmds)
  let ?st = "coordinator_step try_send cmd st"
  note step = senders_step [OF Cons.prems(1), of cmd]
  have "\<forall>tx \<in> set (senders_of c (clients_in ?st d)). \<not> closed (co_world ?st) tx"
    using Cons.prems joins_effect_subset [of d c cmd "senders_of c (clients_in st d)"]
    by (force simp: step step_closed)
  moreover have "\<forall>tx ack. RoomJoin d c tx ack \<in> set cmds \<longrightarrow> \<not> closed (co_world ?st) tx"
    using Cons.prems(2) by (auto simp: step_closed)
  ultimately show ?case using Cons.IH [of ?st] by (simp add: step)
qed simp

end

interpretation ref_clients: client_channels "chan_try_send cap" chan_queue chan_closed cap for cap
  by unfold_locales

end
