(* ===== verification/Sink.thy ===== *)
theory Sink
  imports Rooms Wal_Types
begin

text \<open>
  \<^verbatim>\<open>src/wal/sink.rs\<close>: where the WAL reader delivers invalidations. The trait
  \<^verbatim>\<open>InvalidationSink\<close> is the locale \<open>invalidation_sink\<close>; its provider
  \<^verbatim>\<open>RoomsInvalidationSink\<close> turns an invalidation into a broadcast command for the rooms actor
  and satisfies the contract whenever the command channel does.
\<close>

section \<open>The contract of the trait\<close>

text \<open>An accepted invalidation: the room, the keys of the hints and the timestamp.\<close>

type_synonym invalidation = "document_id \<times> string list \<times> u64"

locale invalidation_sink =
  fixes send_invalidation ::
      "document_id \<Rightarrow> query_hint list \<Rightarrow> u64 \<Rightarrow> 'w \<Rightarrow> (room_command_error + unit) \<times> 'w"
    and accepted :: "'w \<Rightarrow> invalidation list"
  assumes sent_ok:
      "send_invalidation d hs t w = (Inr (), w') \<Longrightarrow>
        accepted w' = accepted w @ [(d, map to_key hs, t)]"
    and sent_err: "send_invalidation d hs t w = (Inl e, w') \<Longrightarrow> accepted w' = accepted w"

section \<open>The rooms sink\<close>

record 'h rooms_invalidation_sink =
  sink_rooms :: "'h rooms_handle"

definition rooms_send_invalidation ::
    "('h \<Rightarrow> ('tx, 'r) room_command \<Rightarrow> 'w \<Rightarrow> send_result \<times> 'w) \<Rightarrow> 'h rooms_invalidation_sink \<Rightarrow>
      document_id \<Rightarrow> query_hint list \<Rightarrow> u64 \<Rightarrow> 'w \<Rightarrow> (room_command_error + unit) \<times> 'w" where
  "rooms_send_invalidation cmd_send self document_id hs timestamp w =
    (let message = Invalidation (map to_key hs) timestamp
     in broadcast_to_room cmd_send (sink_rooms self) document_id message w)"

definition new_rooms_invalidation_sink :: "'h rooms_handle \<Rightarrow> 'h rooms_invalidation_sink" where
  "new_rooms_invalidation_sink rooms = \<lparr>sink_rooms = rooms\<rparr>"

text \<open>A sink behind an \<^verbatim>\<open>Arc\<close> forwards, and so is a sink with the same invalidations.\<close>

definition arc_send_invalidation ::
    "(document_id \<Rightarrow> query_hint list \<Rightarrow> u64 \<Rightarrow> 'w \<Rightarrow> (room_command_error + unit) \<times> 'w) \<Rightarrow>
      document_id \<Rightarrow> query_hint list \<Rightarrow> u64 \<Rightarrow> 'w \<Rightarrow> (room_command_error + unit) \<times> 'w" where
  "arc_send_invalidation send_invalidation document_id hs timestamp w =
    send_invalidation document_id hs timestamp w"

lemma arc_sink:
  "invalidation_sink send_invalidation accepted \<Longrightarrow>
    invalidation_sink (arc_send_invalidation send_invalidation) accepted"
  by (simp add: invalidation_sink_def arc_send_invalidation_def)

text \<open>The invalidations among the commands waiting for the rooms actor.\<close>

fun invalidation_of :: "('tx, 'r) room_command \<Rightarrow> invalidation list" where
  "invalidation_of (RoomBroadcast d (Invalidation keys t)) = [(d, keys, t)]"
| "invalidation_of _ = []"

definition queued_invalidations :: "('tx, 'r) room_command list \<Rightarrow> invalidation list" where
  "queued_invalidations cmds = concat (map invalidation_of cmds)"

lemma queued_invalidations_snoc [simp]:
  "queued_invalidations (cmds @ [c]) = queued_invalidations cmds @ invalidation_of c"
  by (simp add: queued_invalidations_def)

lemma room_result_cases:
  "room_result (res, w) =
    (case res of SendOk \<Rightarrow> Inr () | SendFull \<Rightarrow> Inl ChannelFull | SendClosed \<Rightarrow> Inl ChannelClosed, w)"
  by (cases res) simp_all

locale command_channel = mpsc cmd_send queue closed capacity
  for cmd_send :: "'h \<Rightarrow> ('tx, 'r) room_command \<Rightarrow> 'w \<Rightarrow> send_result \<times> 'w"
    and queue :: "'w \<Rightarrow> 'h \<Rightarrow> ('tx, 'r) room_command list"
    and closed :: "'w \<Rightarrow> 'h \<Rightarrow> bool"
    and capacity :: "'h \<Rightarrow> nat" +
  fixes self :: "'h rooms_invalidation_sink"
begin

abbreviation commands :: "'w \<Rightarrow> ('tx, 'r) room_command list" where
  "commands w \<equiv> queue w (handle_tx (sink_rooms self))"

lemma command_sent:
  "room_result (cmd_send (handle_tx (sink_rooms self)) c w) = (Inr (), w') \<Longrightarrow>
    commands w' = commands w @ [c]"
  by (rule send_cases [of w "handle_tx (sink_rooms self)" c]) auto

lemma command_refused:
  "room_result (cmd_send (handle_tx (sink_rooms self)) c w) = (Inl e, w') \<Longrightarrow> w' = w"
  by (rule send_cases [of w "handle_tx (sink_rooms self)" c]) auto

end

sublocale command_channel \<subseteq> sink: invalidation_sink "rooms_send_invalidation cmd_send self"
  "\<lambda>w. queued_invalidations (queue w (handle_tx (sink_rooms self)))"
  by unfold_locales
    (auto simp: rooms_send_invalidation_def broadcast_to_room_def
      dest!: command_sent command_refused)

interpretation ref_commands: command_channel "chan_try_send cap" chan_queue chan_closed cap self
  for cap self
  by unfold_locales

end
