(* ===== verification/Wal_Reader.thy ===== *)
theory Wal_Reader
  imports Pg_Convert Hint_Router Sink
begin

text \<open>
  \<^verbatim>\<open>src/wal/replication.rs\<close>: the WAL reader actor. Its loop waits for a stop command, a tick of
  the slot-health poll or an event of the replication client, whichever comes first; a run is the
  list of the inputs it received. The replication client and the SQL client are not part of this
  program: what they return is the input, and the calls made on the replication client are recorded.
\<close>

section \<open>Inputs, state and results\<close>

datatype wal_reader_command = StopCommand

text \<open>The replication events the reader matches on.\<close>

datatype replication_event =
    XLogData "u8 list"
  | Begin
  | Commit u64
  | KeepAlive u64 bool
  | StoppedAt u64

text \<open>The outcome of one slot-health query, the row being active, retained bytes and lag.\<close>

datatype slot_poll =
    PollTimedOut
  | PollFailed
  | PollRow "(bool \<times> i64 \<times> i64) option"

text \<open>
  What a commit takes from its surroundings: the clock reading and the orders in which the hash set
  of hints and the hash map of rooms are iterated this time.
\<close>

record commit_env =
  ce_now :: u64
  ce_hint_order :: "query_hint fset \<Rightarrow> query_hint list"
  ce_room_order :: "document_id fset \<Rightarrow> document_id list"

text \<open>One round of the \<^verbatim>\<open>select!\<close>: which branch was ready and with what.\<close>

datatype reader_input =
    Command "wal_reader_command option"
  | SlotTick slot_poll
  | ReplRecv commit_env "string + replication_event option"

datatype repl_call = ReplStop | UpdateAppliedLsn u64

record 'w wal_reader =
  wal_has_sql_client :: bool
  wal_relations :: relation_table
  wal_transaction :: "transaction_buffer option"
  wal_metrics :: metrics
  wal_calls :: "repl_call list"
  wal_world :: 'w

text \<open>How the body of the loop leaves: next round, \<^verbatim>\<open>break\<close> or \<^verbatim>\<open>return\<close>.\<close>

datatype flow = Continue | Break | Return

definition reader_start :: "bool \<Rightarrow> metrics \<Rightarrow> 'w \<Rightarrow> 'w wal_reader" where
  "reader_start has_sql m w = \<lparr>wal_has_sql_client = has_sql, wal_relations = fmempty, wal_transaction = None, wal_metrics = m,
    wal_calls = [], wal_world = w\<rparr>"

section \<open>The messages of a payload\<close>

text \<open>The body of the message loop after the event was produced.\<close>

definition handle_event :: "wal_event \<Rightarrow> 'w wal_reader \<Rightarrow> 'w wal_reader" where
  "handle_event event s0 =
    (let s = s0\<lparr>wal_metrics := inc_wal_events_consumed (wal_metrics s0)\<rparr> in
     case wal_transaction s of
       None \<Rightarrow> s
     | Some tx \<Rightarrow>
        (case generate_invalidation_hints event of
           Inr hs \<Rightarrow> s\<lparr>wal_transaction := Some (add_all hs tx)\<rparr>
         | Inl (MissingColumn table column) \<Rightarrow> s))"

fun messages_loop :: "pg_output_message list \<Rightarrow> 'w wal_reader \<Rightarrow> flow \<times> 'w wal_reader" where
  "messages_loop [] s = (Continue, s)"
| "messages_loop (msg # msgs) s =
    (case pgoutput_to_wal_event (wal_relations s) msg of
       (Inl SchemaChange, relations) \<Rightarrow> (Return, s\<lparr>wal_relations := relations\<rparr>)
     | (Inr None, relations) \<Rightarrow> messages_loop msgs (s\<lparr>wal_relations := relations\<rparr>)
     | (Inr (Some event), relations) \<Rightarrow>
         messages_loop msgs (handle_event event (s\<lparr>wal_relations := relations\<rparr>)))"

definition handle_xlog_data :: "u8 list \<Rightarrow> 'w wal_reader \<Rightarrow> flow \<times> 'w wal_reader" where
  "handle_xlog_data d s =
    (case parse_pgoutput_messages d of
       Inr messages \<Rightarrow> messages_loop messages s
     | Inl err \<Rightarrow> (Continue, s))"

section \<open>Commit\<close>

type_synonym 'w sink_send =
  "document_id \<Rightarrow> query_hint list \<Rightarrow> u64 \<Rightarrow> 'w \<Rightarrow> (room_command_error + unit) \<times> 'w"

text \<open>The loop over the routed hints, in the order the hash map is iterated.\<close>

fun deliver_loop ::
    "'w sink_send \<Rightarrow> u64 \<Rightarrow> (document_id \<times> query_hint list) list \<Rightarrow> metrics \<Rightarrow> 'w \<Rightarrow> metrics \<times> 'w" where
  "deliver_loop send timestamp [] m w = (m, w)"
| "deliver_loop send timestamp ((document_id, hs) # routed) m w =
    (case send document_id hs timestamp w of
       (Inr (), w') \<Rightarrow> deliver_loop send timestamp routed m w'
     | (Inl err, w') \<Rightarrow>
         (let m' = if err = ChannelFull then inc_wal_events_dropped m else m
          in deliver_loop send timestamp routed m' w'))"

definition map_entries ::
    "(document_id fset \<Rightarrow> document_id list) \<Rightarrow> (document_id, 'v list) fmap \<Rightarrow> (document_id \<times> 'v list) list" where
  "map_entries itd m = map (\<lambda>d. (d, entry_list m d)) (itd (fmdom m))"

definition handle_commit ::
    "'w sink_send \<Rightarrow> commit_env \<Rightarrow> u64 \<Rightarrow> 'w wal_reader \<Rightarrow> 'w wal_reader" where
  "handle_commit send env end_lsn s0 =
    (let timestamp = ce_now env;
         s1 =
       (case wal_transaction s0 of
          None \<Rightarrow> s0
        | Some tx \<Rightarrow>
           (let (hs, tx') = take_hints tx;
                routed = route (ce_hint_order env) hs;
                (m, w) = deliver_loop send timestamp (map_entries (ce_room_order env) routed)
                  (wal_metrics s0) (wal_world s0)
            in s0\<lparr>wal_transaction := None, wal_metrics := m, wal_world := w\<rparr>))
     in s1\<lparr>wal_metrics := set_wal_lsn end_lsn (wal_metrics s1),
           wal_calls := wal_calls s1 @ [UpdateAppliedLsn end_lsn]\<rparr>)"

section \<open>One round of the loop\<close>

text \<open>\<^verbatim>\<open>retained_bytes.max(0) as u64\<close>: negative values become 0.\<close>

definition clamp_i64 :: "i64 \<Rightarrow> u64" where
  "clamp_i64 v = (if sint v < 0 then 0 else v)"

fun handle_slot_poll :: "slot_poll \<Rightarrow> metrics \<Rightarrow> metrics" where
  "handle_slot_poll PollTimedOut m = m"
| "handle_slot_poll PollFailed m = m"
| "handle_slot_poll (PollRow None) m =
    set_wal_lag_seconds 0 (set_wal_retained_bytes 0 (set_wal_slot_active False m))"
| "handle_slot_poll (PollRow (Some (active, retained_bytes, lag_seconds))) m =
    set_wal_lag_seconds (clamp_i64 lag_seconds)
      (set_wal_retained_bytes (clamp_i64 retained_bytes) (set_wal_slot_active active m))"

fun reader_step ::
    "'w sink_send \<Rightarrow> reader_input \<Rightarrow> 'w wal_reader \<Rightarrow> flow \<times> 'w wal_reader" where
  "reader_step send (Command cmd) s = (Break, s\<lparr>wal_calls := wal_calls s @ [ReplStop]\<rparr>)"
| "reader_step send (SlotTick poll) s =
    (if wal_has_sql_client s
     then (Continue, s\<lparr>wal_metrics := handle_slot_poll poll (wal_metrics s)\<rparr>)
     else (Continue, s))"
| "reader_step send (ReplRecv env (Inr (Some (XLogData d)))) s = handle_xlog_data d s"
| "reader_step send (ReplRecv env (Inr (Some Begin))) s =
    (Continue, s\<lparr>wal_transaction := Some empty_buffer\<rparr>)"
| "reader_step send (ReplRecv env (Inr (Some (Commit end_lsn)))) s =
    (Continue, handle_commit send env end_lsn s)"
| "reader_step send (ReplRecv env (Inr (Some (KeepAlive wal_end reply_requested)))) s =
    (Continue, s)"
| "reader_step send (ReplRecv env (Inr (Some (StoppedAt reached)))) s = (Break, s)"
| "reader_step send (ReplRecv env (Inr None)) s = (Break, s)"
| "reader_step send (ReplRecv env (Inl err)) s = (Break, s)"

text \<open>The loop over the inputs received; \<open>Continue\<close> at the end means it still waits.\<close>

fun reader_run ::
    "'w sink_send \<Rightarrow> reader_input list \<Rightarrow> 'w wal_reader \<Rightarrow> flow \<times> 'w wal_reader" where
  "reader_run send [] s = (Continue, s)"
| "reader_run send (i # is) s =
    (case reader_step send i s of
       (Continue, s') \<Rightarrow> reader_run send is s'
     | (Break, s') \<Rightarrow> (Break, s')
     | (Return, s') \<Rightarrow> (Return, s'))"

section \<open>A payload, abstractly\<close>

text \<open>
  The message loop computes \<open>convert_messages\<close>: the events of the payload go to the metric and,
  inside a transaction, their hints to the buffer; a schema change returns from the actor.
\<close>

definition event_hints :: "wal_event \<Rightarrow> query_hint list" where
  "event_hints ev = (case generate_invalidation_hints ev of Inr hs \<Rightarrow> hs | Inl e \<Rightarrow> [])"

definition add_consumed :: "nat \<Rightarrow> metrics \<Rightarrow> metrics" where
  "add_consumed n m = m\<lparr>wal_events_consumed_total := wal_events_consumed_total m + of_nat n\<rparr>"

definition buffer_events :: "wal_event list \<Rightarrow> transaction_buffer \<Rightarrow> transaction_buffer" where
  "buffer_events evs tx = add_all (concat (map event_hints evs)) tx"

definition after_events :: "wal_event list \<Rightarrow> relation_table \<Rightarrow> 'w wal_reader \<Rightarrow> 'w wal_reader" where
  "after_events evs relations s =
    s\<lparr>wal_relations := relations, wal_metrics := add_consumed (length evs) (wal_metrics s),
      wal_transaction := map_option (buffer_events evs) (wal_transaction s)\<rparr>"

lemma add_consumed_simps [simp]:
  "add_consumed 0 m = m"
  "add_consumed k (add_consumed n m) = add_consumed (n + k) m"
  by (simp_all add: add_consumed_def add.assoc)

lemma inc_consumed: "inc_wal_events_consumed m = add_consumed 1 m"
  by (simp add: inc_wal_events_consumed_def add_consumed_def)

lemma buffer_events_simps [simp]:
  "buffer_events [] tx = tx"
  "buffer_events es' (buffer_events es tx) = buffer_events (es @ es') tx"
  by (simp_all add: buffer_events_def add_all_def)

lemma after_events_Nil: "after_events [] relations s = s\<lparr>wal_relations := relations\<rparr>"
  by (cases "wal_transaction s") (simp_all add: after_events_def)

lemma after_events_append:
  "after_events es' r' (after_events es r s) = after_events (es @ es') r' s"
  by (cases "wal_transaction s") (simp_all add: after_events_def)

lemma handle_event_eq:
  "handle_event ev (s\<lparr>wal_relations := relations\<rparr>) = after_events [ev] relations s"
  by (cases "wal_transaction s"; cases "generate_invalidation_hints ev")
    (auto simp: handle_event_def after_events_def inc_consumed buffer_events_def event_hints_def
      add_all_def Let_def split: hint_gen_error.split)

lemma messages_loop_eq:
  "messages_loop msgs s =
    (case convert_messages (wal_relations s) msgs of
       (evs, changed, relations) \<Rightarrow>
         (if changed then Return else Continue, after_events evs relations s))"
proof (induction msgs arbitrary: s)
  case (Cons msg msgs)
  obtain res relations where conv: "pgoutput_to_wal_event (wal_relations s) msg = (res, relations)"
    by (cases "pgoutput_to_wal_event (wal_relations s) msg")
  have rels: "wal_relations (after_events es r t) = r" for es r and t :: "'a wal_reader"
    by (simp add: after_events_def)
  show ?case
  proof (cases res)
    case (Inl e)
    then show ?thesis
      using conv by (cases e) (simp add: after_events_Nil)
  next
    case (Inr ev)
    show ?thesis
    proof (cases ev)
      case None
      then show ?thesis
        using conv Inr Cons.IH [of "after_events [] relations s"]
        by (simp add: after_events_append rels after_events_Nil [symmetric] split: prod.split)
    next
      case (Some e)
      then show ?thesis
        using conv Inr Cons.IH [of "after_events [e] relations s"]
        by (simp add: handle_event_eq after_events_append rels split: prod.split)
    qed
  qed
qed (simp add: after_events_Nil)

section \<open>Invariant\<close>

text \<open>
  The table of relations is keyed by the relations' own ids, and every buffered hint has a room
  to go to, so routing at commit loses none.
\<close>

definition buffer_ok :: "transaction_buffer \<Rightarrow> bool" where
  "buffer_ok tx \<longleftrightarrow> (\<forall>h. h |\<in>| tx_hints tx \<longrightarrow> route_key h = Some (hint_value h) \<and> plain_names h)"

definition reader_inv :: "'w wal_reader \<Rightarrow> bool" where
  "reader_inv s \<longleftrightarrow> relations_ok (wal_relations s)
    \<and> (\<forall>tx. wal_transaction s = Some tx \<longrightarrow> buffer_ok tx)"

lemma reader_inv_start [inv_intros]: "reader_inv (reader_start has_sql m w)"
  by (simp add: reader_inv_def reader_start_def relations_ok_empty)

lemma event_hints_routable:
  "h \<in> set (event_hints ev) \<Longrightarrow> route_key h = Some (hint_value h) \<and> plain_names h"
  by (cases "generate_invalidation_hints ev") (auto simp: event_hints_def dest: generated_routable)

lemma buffer_ok_events [inv_intros]: "buffer_ok tx \<Longrightarrow> buffer_ok (buffer_events evs tx)"
  using event_hints_routable
  by (auto simp: buffer_ok_def buffer_events_def tx_hints_add_all)

lemma convert_messages_ok:
  "relations_ok relations \<Longrightarrow> relations_ok (snd (snd (convert_messages relations msgs)))"
proof (induction msgs arbitrary: relations)
  case (Cons msg msgs)
  note ok = convert_relations_ok [OF Cons.prems, of msg]
  show ?case
    using ok Cons.IH
    by (cases "pgoutput_to_wal_event relations msg")
      (auto split: sum.splits option.splits pg_output_conversion_error.splits prod.splits,
        (metis snd_conv)+)
qed simp

lemma messages_loop_inv [inv_intros]:
  assumes "reader_inv s"
  shows "reader_inv (snd (messages_loop msgs s))"
proof -
  obtain evs changed relations where
    conv: "convert_messages (wal_relations s) msgs = (evs, changed, relations)"
    by (cases "convert_messages (wal_relations s) msgs")
  with assms convert_messages_ok [of "wal_relations s" msgs] show ?thesis
    by (auto simp: messages_loop_eq reader_inv_def after_events_def buffer_ok_events)
qed

lemma handle_commit_relations [simp]:
  "wal_relations (handle_commit send env end_lsn s) = wal_relations s"
  "wal_transaction (handle_commit send env end_lsn s) = None"
  "wal_has_sql_client (handle_commit send env end_lsn s) = wal_has_sql_client s"
  "wal_calls (handle_commit send env end_lsn s) = wal_calls s @ [UpdateAppliedLsn end_lsn]"
  "wal_lsn (wal_metrics (handle_commit send env end_lsn s)) = end_lsn"
  by (auto simp: handle_commit_def Let_def set_wal_lsn_def split: option.split prod.split)

lemma reader_step_inv [inv_intros]:
  assumes "reader_inv s"
  shows "reader_inv (snd (reader_step send i s))"
proof (cases "(send, i, s)" rule: reader_step.cases)
  case (3 send' env d s')
  then show ?thesis
    using assms by (auto simp: handle_xlog_data_def messages_loop_inv split: sum.split)
qed (use assms in \<open>auto simp: reader_inv_def buffer_ok_def empty_buffer_def\<close>)

lemma reader_run_inv [inv_intros]: "reader_inv s \<Longrightarrow> reader_inv (snd (reader_run send is s))"
proof (induction "is" arbitrary: s)
  case (Cons i "is")
  note step = reader_step_inv [OF Cons.prems, of send i]
  obtain f s' where s': "reader_step send i s = (f, s')" by (cases "reader_step send i s")
  with step Cons.IH [of s'] show ?case by (cases f) simp_all
qed simp

end
