(* ===== verification/Wal_Delivery.thy ===== *)
theory Wal_Delivery
  imports Wal_Reader
begin

text \<open>
  What the WAL reader of \<^verbatim>\<open>src/wal/replication.rs\<close> delivers: the invalidations of a commit over
  any sink that keeps the contract of the trait, over runs of the reader, and over the rooms sink
  with a bounded command channel; the positions it reports to the replication client.
\<close>

section \<open>The delivery loop\<close>

text \<open>The outcomes of the loop, one per routed room.\<close>

fun deliveries ::
    "'w sink_send \<Rightarrow> u64 \<Rightarrow> (document_id \<times> query_hint list) list \<Rightarrow> 'w \<Rightarrow>
      ((document_id \<times> query_hint list) \<times> (room_command_error + unit)) list \<times> 'w" where
  "deliveries send timestamp [] w = ([], w)"
| "deliveries send timestamp ((d, hs) # routed) w =
    (case send d hs timestamp w of
       (res, w') \<Rightarrow>
         (case deliveries send timestamp routed w' of (rs, w'') \<Rightarrow> (((d, hs), res) # rs, w'')))"

definition dropped_in :: "('a \<times> (room_command_error + unit)) list \<Rightarrow> nat" where
  "dropped_in rs = length (filter (\<lambda>(_, r). r = Inl ChannelFull) rs)"

definition delivered_in ::
    "u64 \<Rightarrow> ((document_id \<times> query_hint list) \<times> (room_command_error + unit)) list \<Rightarrow> invalidation list" where
  "delivered_in timestamp rs =
    map (\<lambda>((d, hs), _). (d, map to_key hs, timestamp)) (filter (\<lambda>(_, r). r = Inr ()) rs)"

definition add_dropped :: "nat \<Rightarrow> metrics \<Rightarrow> metrics" where
  "add_dropped n m = m\<lparr>wal_events_dropped_total := wal_events_dropped_total m + of_nat n\<rparr>"

lemma deliver_loop_outcomes:
  "deliver_loop send timestamp routed m w =
    (case deliveries send timestamp routed w of (rs, w') \<Rightarrow> (add_dropped (dropped_in rs) m, w'))"
proof (induction routed arbitrary: m w)
  case Nil
  then show ?case by (simp add: dropped_in_def add_dropped_def)
next
  case (Cons x routed)
  obtain d hs where x: "x = (d, hs)" by (cases x)
  obtain res w1 where send: "send d hs timestamp w = (res, w1)" by (cases "send d hs timestamp w")
  obtain rs w2 where rs: "deliveries send timestamp routed w1 = (rs, w2)"
    by (cases "deliveries send timestamp routed w1")
  have step: "add_dropped (dropped_in rs) (if res = Inl ChannelFull then inc_wal_events_dropped m else m) =
      add_dropped (dropped_in (((d, hs), res) # rs)) m"
    by (simp add: dropped_in_def add_dropped_def inc_wal_events_dropped_def add.assoc)
  have "deliver_loop send timestamp (x # routed) m w =
      deliver_loop send timestamp routed (if res = Inl ChannelFull then inc_wal_events_dropped m else m) w1"
    by (simp add: x send Let_def split: sum.split unit.split)
  then show ?case
    by (simp add: x send rs Cons.IH step)
qed

lemma deliveries_fst: "map fst (fst (deliveries send timestamp routed w)) = routed"
  by (induction send timestamp routed w rule: deliveries.induct) (auto split: prod.splits)

context invalidation_sink
begin

lemma deliveries_accepted:
  "accepted (snd (deliveries send_invalidation timestamp routed w)) =
    accepted w @ delivered_in timestamp (fst (deliveries send_invalidation timestamp routed w))"
proof (induction routed arbitrary: w)
  case (Cons x routed)
  obtain d hs where x: "x = (d, hs)" by (cases x)
  obtain res w1 where send: "send_invalidation d hs timestamp w = (res, w1)"
    by (cases "send_invalidation d hs timestamp w")
  show ?case
    using Cons.IH [of w1] sent_ok [of d hs timestamp w w1] sent_err [of d hs timestamp w _ w1]
    by (cases res) (auto simp: x send delivered_in_def split: prod.splits)
qed (simp add: delivered_in_def)

end

section \<open>What a commit has to deliver\<close>

text \<open>The routed hints of the transaction, in the order the commit visits them.\<close>

definition commit_entries :: "commit_env \<Rightarrow> transaction_buffer option \<Rightarrow> (document_id \<times> query_hint list) list" where
  "commit_entries env tx =
    (case tx of
       None \<Rightarrow> []
     | Some b \<Rightarrow> map_entries (ce_room_order env) (route (ce_hint_order env) (tx_hints b)))"

definition orders_ok :: "commit_env \<Rightarrow> bool" where
  "orders_ok env \<longleftrightarrow> iteration_order (ce_hint_order env) \<and> iteration_order (ce_room_order env)"

lemma map_entries_keys: "map fst (map_entries itd m) = itd (fmdom m)"
  by (simp add: map_entries_def comp_def)

lemma commit_entries_distinct: "orders_ok env \<Longrightarrow> distinct (map fst (commit_entries env tx))"
  by (simp add: commit_entries_def orders_ok_def map_entries_keys iteration_order_distinct
      split: option.split)

lemma commit_entries_iff:
  assumes "orders_ok env"
  shows "(d, hs) \<in> set (commit_entries env (Some tx)) \<longleftrightarrow>
    hs = hints_for d (ce_hint_order env (tx_hints tx))
    \<and> (\<exists>h. h |\<in>| tx_hints tx \<and> route_key h = Some d)"
proof -
  have ih: "iteration_order (ce_hint_order env)" and ir: "iteration_order (ce_room_order env)"
    using assms by (simp_all add: orders_ok_def)
  let ?r = "route (ce_hint_order env) (tx_hints tx)"
  have "(d, hs) \<in> set (commit_entries env (Some tx)) \<longleftrightarrow> d \<in> fset (fmdom ?r) \<and> hs = entry_list ?r d"
    using iteration_order_set [OF ir, of "fmdom ?r"] by (auto simp: commit_entries_def map_entries_def)
  moreover have "entry_list ?r d = hints_for d (ce_hint_order env (tx_hints tx))"
    by (simp add: route_def entry_route_loop)
  ultimately show ?thesis
    unfolding route_dom [OF ih] by auto
qed

lemma set_hints_for_order:
  "iteration_order it \<Longrightarrow> set (hints_for d (it hs)) = {h. h |\<in>| hs \<and> route_key h = Some d}"
  by (simp add: set_hints_for iteration_order_set)

lemma handle_commit_deliveries:
  "wal_world (handle_commit send env end_lsn s) =
    snd (deliveries send (ce_now env) (commit_entries env (wal_transaction s)) (wal_world s))"
  "wal_events_dropped_total (wal_metrics (handle_commit send env end_lsn s)) =
    wal_events_dropped_total (wal_metrics s)
    + of_nat (dropped_in (fst (deliveries send (ce_now env)
        (commit_entries env (wal_transaction s)) (wal_world s))))"
  by (auto simp: handle_commit_def Let_def deliver_loop_outcomes commit_entries_def take_hints_def
      set_wal_lsn_def add_dropped_def dropped_in_def split: option.split prod.split)

section \<open>Any sink\<close>

text \<open>The invalidations a list of rooms and hints stands for, and those delivered among them.\<close>

definition invalidations_of :: "u64 \<Rightarrow> (document_id \<times> query_hint list) list \<Rightarrow> invalidation list" where
  "invalidations_of timestamp routed = map (\<lambda>(d, hs). (d, map to_key hs, timestamp)) routed"

lemma delivered_in_filter:
  "\<exists>P. delivered_in timestamp rs = invalidations_of timestamp (map fst (filter P rs))"
  by (intro exI [of _ "\<lambda>(_, r). r = Inr ()"]) (simp add: delivered_in_def invalidations_of_def case_prod_beta)

lemma distinct_map_fst_filter:
  "distinct (map f xs) \<Longrightarrow> distinct (map f (filter P xs))"
  by (induction xs) auto

text \<open>What may arrive in a room: its own document's keys, at least one, no key twice.\<close>

definition own_keys :: "document_id \<Rightarrow> string set" where
  "own_keys d = {to_key (QueryHint ''comments'' ''document_id'' d), to_key (QueryHint ''documents'' ''id'' d)}"

definition invalidation_ok :: "invalidation \<Rightarrow> bool" where
  "invalidation_ok iv \<longleftrightarrow>
    (case iv of (d, keys, t) \<Rightarrow> keys \<noteq> [] \<and> distinct keys \<and> set keys \<subseteq> own_keys d)"

lemma routable_own_key: "route_key h = Some d \<Longrightarrow> to_key h \<in> own_keys d"
  by (cases h) (auto simp: route_key_def own_keys_def split: if_splits)

lemma routable_plain: "route_key h = Some d \<Longrightarrow> plain_names h"
  by (cases h) (auto simp: route_key_def plain_names_def split: if_splits)

lemma hints_for_keys_ok:
  assumes "iteration_order it" "h |\<in>| hs" "route_key h = Some d"
  shows "invalidation_ok (d, map to_key (hints_for d (it hs)), t)"
proof -
  have mem: "set (hints_for d (it hs)) = {h. h |\<in>| hs \<and> route_key h = Some d}"
    by (rule set_hints_for_order [OF assms(1)])
  have "distinct (hints_for d (it hs))"
    using iteration_order_distinct [OF assms(1)] by (simp add: hints_for_def)
  moreover have "inj_on to_key (set (hints_for d (it hs)))"
    using mem by (auto intro!: inj_onI simp: to_key_inject routable_plain)
  moreover have "hints_for d (it hs) \<noteq> []"
    using mem assms(2,3) by (metis (mono_tags, lifting) empty_iff mem_Collect_eq set_empty2)
  ultimately show ?thesis
    using mem by (auto simp: invalidation_ok_def distinct_map routable_own_key)
qed

lemma commit_entries_ok:
  assumes "orders_ok env" "(d, hs) \<in> set (commit_entries env tx)"
  shows "invalidation_ok (d, map to_key hs, t)"
proof -
  from assms(2) obtain b where b: "tx = Some b"
    by (auto simp: commit_entries_def split: option.splits)
  with assms obtain h where "h |\<in>| tx_hints b" "route_key h = Some d"
    and "hs = hints_for d (ce_hint_order env (tx_hints b))"
    using commit_entries_iff by blast
  with hints_for_keys_ok show ?thesis using assms(1) by (auto simp: orders_ok_def)
qed

lemma group_ok:
  assumes "orders_ok env" "map fst rs = commit_entries env tx"
  shows "distinct (map fst (invalidations_of t (map fst (filter P rs))))"
    and "list_all invalidation_ok (invalidations_of t (map fst (filter P rs)))"
proof -
  have "distinct (map (fst \<circ> fst) rs)"
    using commit_entries_distinct [OF assms(1), of tx] by (simp add: assms(2) [symmetric])
  then have "distinct (map (fst \<circ> fst) (filter P rs))" by (rule distinct_map_fst_filter)
  then show "distinct (map fst (invalidations_of t (map fst (filter P rs))))"
    by (simp add: invalidations_of_def comp_def case_prod_beta)
  have "invalidation_ok (fst (fst x), map to_key (snd (fst x)), t)" if "x \<in> set rs" for x
  proof (rule commit_entries_ok [OF assms(1)])
    show "(fst (fst x), snd (fst x)) \<in> set (commit_entries env tx)"
      using that by (simp add: assms(2) [symmetric])
  qed
  then show "list_all invalidation_ok (invalidations_of t (map fst (filter P rs)))"
    by (auto simp: invalidations_of_def list_all_iff)
qed

section \<open>Runs\<close>

fun input_lsns :: "reader_input \<Rightarrow> u64 list" where
  "input_lsns (ReplRecv env (Inr (Some (Commit end_lsn)))) = [end_lsn]"
| "input_lsns _ = []"

text \<open>The end positions of the commits received.\<close>

definition commit_lsns :: "reader_input list \<Rightarrow> u64 list" where
  "commit_lsns inputs = concat (map input_lsns inputs)"

fun input_orders_ok :: "reader_input \<Rightarrow> bool" where
  "input_orders_ok (ReplRecv env ev) \<longleftrightarrow> orders_ok env"
| "input_orders_ok _ \<longleftrightarrow> True"

lemma commit_lsns_simps [simp]:
  "commit_lsns [] = []"
  "commit_lsns (i # is) = input_lsns i @ commit_lsns is"
  "commit_lsns (is @ js) = commit_lsns is @ commit_lsns js"
  by (simp_all add: commit_lsns_def)

lemma handle_xlog_keeps:
  "wal_world (snd (handle_xlog_data d s)) = wal_world s"
  "wal_calls (snd (handle_xlog_data d s)) = wal_calls s"
  by (auto simp: handle_xlog_data_def messages_loop_eq after_events_def split: sum.split prod.split)

lemma handle_xlog_flow: "fst (handle_xlog_data d s) \<noteq> Break"
  by (auto simp: handle_xlog_data_def messages_loop_eq split: sum.split prod.split)

text \<open>One round: a commit delivers and reports, everything else leaves the sink alone.\<close>

lemma reader_step_cases:
  obtains (commit) env end_lsn where "i = ReplRecv env (Inr (Some (Commit end_lsn)))"
      "reader_step send i s = (Continue, handle_commit send env end_lsn s)" "input_lsns i = [end_lsn]"
  | (stop) "reader_step send i s = (Break, s\<lparr>wal_calls := wal_calls s @ [ReplStop]\<rparr>)"
      "input_lsns i = []" "\<exists>cmd. i = Command cmd"
  | (other) "wal_world (snd (reader_step send i s)) = wal_world s"
      "wal_calls (snd (reader_step send i s)) = wal_calls s" "input_lsns i = []"
      "\<nexists>cmd. i = Command cmd"
proof (cases "(send, i, s)" rule: reader_step.cases)
  case (1 send' cmd s')
  then show ?thesis by (intro stop) auto
next
  case (3 send' env d s')
  then show ?thesis by (intro other) (simp_all add: handle_xlog_keeps)
next
  case (5 send' env end_lsn s')
  then show ?thesis by (intro commit [of env end_lsn]) auto
qed (rule other; simp)+

text \<open>The loop returns only from a payload with a schema change, and makes no call there.\<close>

lemma reader_step_return:
  assumes "reader_step send i s = (Return, s')"
  shows "\<exists>env d ms rel existing. i = ReplRecv env (Inr (Some (XLogData d)))
    \<and> parse_pgoutput_messages d = Inr ms \<and> MsgRelation rel \<in> set ms
    \<and> fmlookup (wal_relations s') (rel_id rel) = Some existing \<and> existing \<noteq> rel"
proof (cases "(send, i, s)" rule: reader_step.cases)
  case (3 send' env d s0)
  with assms obtain ms where ms: "parse_pgoutput_messages d = Inr ms" "messages_loop ms s = (Return, s')"
    by (auto simp: handle_xlog_data_def split: sum.splits)
  obtain evs changed r where conv: "convert_messages (wal_relations s) ms = (evs, changed, r)"
    by (metis prod_cases3)
  with ms(2) have "changed" "wal_relations s' = r"
    by (auto simp: messages_loop_eq after_events_def split: if_splits)
  with convert_messages_changed [of "wal_relations s" ms evs r] conv ms(1) 3 show ?thesis by simp
qed (use assms in \<open>auto split: if_splits\<close>)

lemma reader_run_return:
  assumes "reader_run send is s = (Return, s')"
  shows "\<exists>n < length is. \<exists>env d ms rel existing. is ! n = ReplRecv env (Inr (Some (XLogData d)))
    \<and> parse_pgoutput_messages d = Inr ms \<and> MsgRelation rel \<in> set ms
    \<and> fmlookup (wal_relations s') (rel_id rel) = Some existing \<and> existing \<noteq> rel
    \<and> wal_calls s' = wal_calls s @ map UpdateAppliedLsn (commit_lsns (take n is))"
  using assms
proof (induction "is" arbitrary: s)
  case (Cons i "is")
  obtain f s1 where step: "reader_step send i s = (f, s1)" by (cases "reader_step send i s")
  show ?case
  proof (cases f)
    case Continue
    with Cons.prems step have run: "reader_run send is s1 = (Return, s')" by simp
    have "wal_calls s1 = wal_calls s @ map UpdateAppliedLsn (input_lsns i)"
      using step Continue by (cases rule: reader_step_cases [of i send s]) auto
    moreover from Cons.IH [OF run] obtain n where "n < length is"
      "\<exists>env d ms rel existing. is ! n = ReplRecv env (Inr (Some (XLogData d)))
        \<and> parse_pgoutput_messages d = Inr ms \<and> MsgRelation rel \<in> set ms
        \<and> fmlookup (wal_relations s') (rel_id rel) = Some existing \<and> existing \<noteq> rel"
      "wal_calls s' = wal_calls s1 @ map UpdateAppliedLsn (commit_lsns (take n is))" by blast
    ultimately show ?thesis by (intro exI [of _ "Suc n"]) simp
  next
    case Return
    with Cons.prems step have s1: "s1 = s'" by simp
    have "wal_calls s' = wal_calls s"
      using step Return s1 by (cases rule: reader_step_cases [of i send s]) auto
    with reader_step_return [OF step [unfolded Return s1]] show ?thesis
      by (intro exI [of _ 0]) simp
  qed (use Cons.prems step in simp)
qed simp

lemma reader_run_over: "reader_run send is s = (Return, s') \<Longrightarrow> reader_run send (is @ js) s = (Return, s')"
proof (induction "is" arbitrary: s)
  case (Cons i "is")
  then show ?case by (cases "reader_step send i s") (auto split: flow.splits)
qed simp

lemma reader_run_calls:
  "\<exists>n \<le> length is. \<exists>stops.
    wal_calls (snd (reader_run send is s)) =
      wal_calls s @ map UpdateAppliedLsn (commit_lsns (take n is)) @ stops
    \<and> (stops = [] \<or> stops = [ReplStop] \<and> 0 < n \<and> (\<exists>cmd. is ! (n - 1) = Command cmd))
    \<and> (fst (reader_run send is s) = Continue \<longrightarrow> n = length is \<and> stops = [])"
  (is "?claim is s")
proof (induction "is" arbitrary: s)
  case (Cons i "is")
  obtain f s' where step: "reader_step send i s = (f, s')" by (cases "reader_step send i s")
  show ?case
  proof (cases "f = Continue")
    case True
    then have "\<nexists>cmd. i = Command cmd" using step by (cases i) auto
    then have now: "wal_calls s' = wal_calls s @ map UpdateAppliedLsn (input_lsns i)"
      using step by (cases rule: reader_step_cases [of i send s]) auto
    from Cons.IH [of s'] obtain n stops where "n \<le> length is"
      "wal_calls (snd (reader_run send is s')) =
        wal_calls s' @ map UpdateAppliedLsn (commit_lsns (take n is)) @ stops"
      "stops = [] \<or> stops = [ReplStop] \<and> 0 < n \<and> (\<exists>cmd. is ! (n - 1) = Command cmd)"
      "fst (reader_run send is s') = Continue \<longrightarrow> n = length is \<and> stops = []" by blast
    then show ?thesis
      using True step now by (intro exI [of _ "Suc n"] exI [of _ stops]) (auto simp: nth_Cons')
  next
    case False
    then have run: "reader_run send (i # is) s = (f, s')" using step by (cases f) simp_all
    have "input_lsns i = []" using step False by (cases rule: reader_step_cases [of i send s]) auto
    moreover have "wal_calls s' = wal_calls s \<or>
        wal_calls s' = wal_calls s @ [ReplStop] \<and> (\<exists>cmd. i = Command cmd)"
      using step False by (cases rule: reader_step_cases [of i send s]) auto
    ultimately show ?thesis
      using run False by (intro exI [of _ 1]) auto
  qed
qed simp

context invalidation_sink
begin

abbreviation accepted_in :: "'w wal_reader \<Rightarrow> invalidation list" where
  "accepted_in s \<equiv> accepted (wal_world s)"

lemma commit_accepted:
  "accepted_in (handle_commit send_invalidation env end_lsn s) = accepted_in s @
    delivered_in (ce_now env) (fst (deliveries send_invalidation (ce_now env)
      (commit_entries env (wal_transaction s)) (wal_world s)))"
  by (simp add: handle_commit_deliveries deliveries_accepted)

lemma commit_group:
  assumes "orders_ok env"
  shows "\<exists>g. accepted_in (handle_commit send_invalidation env end_lsn s) = accepted_in s @ g
    \<and> distinct (map fst g) \<and> list_all invalidation_ok g"
proof -
  let ?rs = "fst (deliveries send_invalidation (ce_now env)
      (commit_entries env (wal_transaction s)) (wal_world s))"
  obtain P where P: "delivered_in (ce_now env) ?rs = invalidations_of (ce_now env) (map fst (filter P ?rs))"
    using delivered_in_filter by blast
  have "map fst ?rs = commit_entries env (wal_transaction s)" by (rule deliveries_fst)
  from group_ok [OF assms this] have
    "distinct (map fst (invalidations_of (ce_now env) (map fst (filter P ?rs))))"
    "list_all invalidation_ok (invalidations_of (ce_now env) (map fst (filter P ?rs)))" by blast+
  then show ?thesis using P commit_accepted by metis
qed

lemma run_accepted:
  assumes "list_all input_orders_ok is"
  shows "\<exists>gs. accepted_in (snd (reader_run send_invalidation is s)) = accepted_in s @ concat gs
    \<and> length gs \<le> length (commit_lsns is)
    \<and> (\<forall>g \<in> set gs. distinct (map fst g) \<and> list_all invalidation_ok g)"
  using assms
proof (induction "is" arbitrary: s)
  case (Cons i "is")
  obtain f s' where step: "reader_step send_invalidation i s = (f, s')"
    by (cases "reader_step send_invalidation i s")
  obtain g where g: "accepted_in s' = accepted_in s @ concat g" "length g \<le> length (input_lsns i)"
    "\<forall>g \<in> set g. distinct (map fst g) \<and> list_all invalidation_ok g"
  proof (cases rule: reader_step_cases [of i send_invalidation s])
    case (commit env end_lsn)
    then have "orders_ok env" using Cons.prems by simp
    from commit_group [OF this, of end_lsn s] obtain g where
      "accepted_in s' = accepted_in s @ g" "distinct (map fst g)" "list_all invalidation_ok g"
      using commit step by auto
    then show ?thesis using that [of "[g]"] commit by simp
  next
    case stop
    then show ?thesis using that [of "[]"] step by simp
  next
    case other
    then show ?thesis using that [of "[]"] step by simp
  qed
  show ?case
  proof (cases f)
    case Continue
    from Cons.IH [of s'] Cons.prems obtain gs where
      "accepted_in (snd (reader_run send_invalidation is s')) = accepted_in s' @ concat gs"
      "length gs \<le> length (commit_lsns is)"
      "\<forall>g \<in> set gs. distinct (map fst g) \<and> list_all invalidation_ok g" by auto
    with g Continue step show ?thesis by (intro exI [of _ "g @ gs"]) auto
  qed (use g step in \<open>intro exI [of _ g]; auto\<close>)+
qed (auto intro!: exI [of _ "[]"])

lemma length_filter_distinct_fst: "distinct (map fst g) \<Longrightarrow> length (filter (\<lambda>x. fst x = d) g) \<le> 1"
  by (induction g) (auto simp: filter_empty_conv image_iff)

text \<open>At most one invalidation per room and commit, over a whole run.\<close>

lemma run_room_bound:
  assumes "list_all input_orders_ok is" "accepted_in s = []"
  shows "length (filter (\<lambda>x. fst x = d) (accepted_in (snd (reader_run send_invalidation is s))))
    \<le> length (commit_lsns is)"
proof -
  obtain gs where gs: "accepted_in (snd (reader_run send_invalidation is s)) = concat gs"
    "length gs \<le> length (commit_lsns is)" "\<forall>g \<in> set gs. distinct (map fst g)"
    using run_accepted [OF assms(1), of s] assms(2) by auto
  have "length (filter (\<lambda>x. fst x = d) (concat gs)) \<le> length gs"
    using gs(3)
  proof (induction gs)
    case (Cons g gs)
    then show ?case using length_filter_distinct_fst [of g d] by auto
  qed simp
  with gs show ?thesis by simp
qed

end

section \<open>A transaction from begin to commit\<close>

text \<open>
  Between the begin and the commit arrive payloads, and in any order between them keep-alives and
  ticks of the slot poll. A payload that does not parse has no messages.
\<close>

fun quiet_input :: "reader_input \<Rightarrow> bool" where
  "quiet_input (SlotTick poll) \<longleftrightarrow> True"
| "quiet_input (ReplRecv env (Inr (Some (XLogData d)))) \<longleftrightarrow> True"
| "quiet_input (ReplRecv env (Inr (Some (KeepAlive wal_end reply)))) \<longleftrightarrow> True"
| "quiet_input _ \<longleftrightarrow> False"

fun input_messages :: "reader_input \<Rightarrow> pg_output_message list" where
  "input_messages (ReplRecv env (Inr (Some (XLogData d)))) =
    (case parse_pgoutput_messages d of Inl e \<Rightarrow> [] | Inr messages \<Rightarrow> messages)"
| "input_messages _ = []"

definition run_messages :: "reader_input list \<Rightarrow> pg_output_message list" where
  "run_messages inputs = concat (map input_messages inputs)"

text \<open>An event with the columns its hints need, and the hints of a transaction's events.\<close>

definition complete_event :: "wal_event \<Rightarrow> bool" where
  "complete_event ev \<longleftrightarrow>
    (case required_column ev of
       None \<Rightarrow> True
     | Some (table, column, t) \<Rightarrow> column_of t column \<in> range (Some \<circ> Text))"

definition transaction_hints :: "wal_event list \<Rightarrow> query_hint set" where
  "transaction_hints evs = (\<Union>ev \<in> {ev \<in> set evs. complete_event ev}. touched_hints ev)"

lemma complete_event_iff: "complete_event ev \<longleftrightarrow> (\<exists>hs. generate_invalidation_hints ev = Inr hs)"
proof (cases "generate_invalidation_hints ev")
  case (Inl e)
  then show ?thesis using generate_error_iff [of ev e] by (auto simp: complete_event_def)
next
  case (Inr hs)
  then have "generate_invalidation_hints ev \<noteq> Inl e" for e by simp
  then show ?thesis
    using Inr unfolding generate_error_iff by (fastforce simp: complete_event_def split: option.split)
qed

lemma set_event_hints: "set (event_hints ev) = (if complete_event ev then touched_hints ev else {})"
  using generated_hints_exact(1) [of ev]
  by (cases "generate_invalidation_hints ev") (auto simp: event_hints_def complete_event_iff)

lemma buffered_hints:
  "fset (tx_hints (buffer_events evs empty_buffer)) = transaction_hints evs"
  by (auto simp: buffer_events_def tx_hints_add_all empty_buffer_def set_event_hints
      transaction_hints_def split: if_splits)

lemma transaction_hints_Cons:
  "transaction_hints [] = {}"
  "transaction_hints (ev # evs) = set (event_hints ev) \<union> transaction_hints evs"
  by (auto simp: transaction_hints_def set_event_hints)

lemma touched_hints_route: "h \<in> touched_hints ev \<Longrightarrow> route_key h = Some (hint_value h)"
  by (auto simp: touched_hints_def route_key_def)

lemma transaction_hints_route: "h \<in> transaction_hints evs \<Longrightarrow> route_key h = Some (hint_value h)"
  by (auto simp: transaction_hints_def touched_hints_route)

lemma convert_messages_append:
  "convert_messages r ms = (evs, False, r') \<Longrightarrow>
    convert_messages r (ms @ ms') =
      (case convert_messages r' ms' of (evs', changed, r'') \<Rightarrow> (evs @ evs', changed, r''))"
proof (induction ms arbitrary: r evs)
  case Nil
  then show ?case by (simp split: prod.split)
next
  case (Cons m ms)
  obtain res r1 where conv: "pgoutput_to_wal_event r m = (res, r1)"
    by (cases "pgoutput_to_wal_event r m")
  show ?case
  proof (cases res)
    case (Inl e)
    then show ?thesis using Cons.prems conv by (cases e) simp
  next
    case (Inr x)
    then show ?thesis
      using Cons.prems Cons.IH [of r1] conv
      by (cases x; cases "convert_messages r1 ms") (auto split: prod.splits)
  qed
qed

lemma convert_messages_prefix:
  assumes "convert_messages r (ms @ ms') = (evs, False, r'')"
  obtains evs1 r1 evs2 where "convert_messages r ms = (evs1, False, r1)"
    "convert_messages r1 ms' = (evs2, False, r'')" "evs = evs1 @ evs2"
proof -
  have "\<exists>evs1 r1. convert_messages r ms = (evs1, False, r1)"
    using assms
  proof (induction ms arbitrary: r evs)
    case (Cons m ms)
    obtain res r1 where conv: "pgoutput_to_wal_event r m = (res, r1)"
      by (cases "pgoutput_to_wal_event r m")
    show ?case
    proof (cases res)
      case (Inl e)
      then show ?thesis using Cons.prems conv by (cases e) simp
    next
      case (Inr x)
      then show ?thesis
        using Cons.prems Cons.IH [of r1] conv
        by (cases x) (fastforce split: prod.splits)+
    qed
  qed simp
  then obtain evs1 r1 where pre: "convert_messages r ms = (evs1, False, r1)" by blast
  obtain evs2 c r2 where "convert_messages r1 ms' = (evs2, c, r2)"
    by (cases "convert_messages r1 ms'")
  with assms convert_messages_append [OF pre, of ms'] show thesis
    using that [OF pre, of evs2] by auto
qed

text \<open>A quiet run converts the messages of its payloads and does nothing else but metrics.\<close>

lemma quiet_step:
  assumes "quiet_input i" "convert_messages (wal_relations s) (input_messages i) = (evs, False, r)"
  shows "\<exists>m. reader_step send i s = (Continue, (after_events evs r s)\<lparr>wal_metrics := m\<rparr>)
    \<and> wal_events_dropped_total m = wal_events_dropped_total (wal_metrics s)"
proof (cases i rule: quiet_input.cases)
  case (1 poll)
  then have "evs = []" "r = wal_relations s" using assms(2) by auto
  moreover have "wal_events_dropped_total (handle_slot_poll poll m) = wal_events_dropped_total m" for m
    by (cases "(poll, m)" rule: handle_slot_poll.cases)
      (auto simp: set_wal_lag_seconds_def set_wal_retained_bytes_def set_wal_slot_active_def)
  ultimately show ?thesis
    using 1 by (intro exI [of _ "if wal_has_sql_client s then handle_slot_poll poll (wal_metrics s)
        else wal_metrics s"]) (simp add: after_events_Nil)
next
  case (2 env d)
  show ?thesis
  proof (cases "parse_pgoutput_messages d")
    case (Inl e)
    then show ?thesis
      using 2 assms by (auto simp: handle_xlog_data_def after_events_Nil intro!: exI [of _ "wal_metrics s"])
  next
    case (Inr ms)
    then show ?thesis
      using 2 assms
      by (auto simp: handle_xlog_data_def messages_loop_eq after_events_def add_consumed_def
          intro!: exI [of _ "add_consumed (length evs) (wal_metrics s)"])
  qed
next
  case (3 env wal_end reply)
  then show ?thesis
    using assms by (auto simp: after_events_Nil intro!: exI [of _ "wal_metrics s"])
qed (use assms in auto)

lemma after_events_metrics:
  "after_events evs' r' ((after_events evs r s)\<lparr>wal_metrics := m\<rparr>) =
    (after_events (evs @ evs') r' s)\<lparr>wal_metrics := add_consumed (length evs') m\<rparr>"
  by (cases "wal_transaction s") (simp_all add: after_events_def)

lemma quiet_run:
  assumes "list_all quiet_input is"
    and "convert_messages (wal_relations s) (run_messages is) = (evs, False, r)"
  shows "\<exists>m. reader_run send is s = (Continue, (after_events evs r s)\<lparr>wal_metrics := m\<rparr>)
    \<and> wal_events_dropped_total m = wal_events_dropped_total (wal_metrics s)"
  using assms
proof (induction "is" arbitrary: s evs)
  case Nil
  then show ?case
    by (auto simp: run_messages_def after_events_Nil intro!: exI [of _ "wal_metrics s"])
next
  case (Cons i "is")
  from Cons.prems(2) obtain evs1 r1 evs2 where
    one: "convert_messages (wal_relations s) (input_messages i) = (evs1, False, r1)" and
    two: "convert_messages r1 (run_messages is) = (evs2, False, r)" and evs: "evs = evs1 @ evs2"
    by (auto simp: run_messages_def elim!: convert_messages_prefix)
  from quiet_step [OF _ one, of send] Cons.prems(1) obtain m where
    m: "reader_step send i s = (Continue, (after_events evs1 r1 s)\<lparr>wal_metrics := m\<rparr>)"
    "wal_events_dropped_total m = wal_events_dropped_total (wal_metrics s)" by auto
  have rel: "wal_relations ((after_events evs1 r1 s)\<lparr>wal_metrics := m\<rparr>) = r1"
    by (simp add: after_events_def)
  from Cons.IH [of "(after_events evs1 r1 s)\<lparr>wal_metrics := m\<rparr>" evs2] Cons.prems(1) two
  obtain m' where "reader_run send is ((after_events evs1 r1 s)\<lparr>wal_metrics := m\<rparr>) =
      (Continue, (after_events evs2 r ((after_events evs1 r1 s)\<lparr>wal_metrics := m\<rparr>))\<lparr>wal_metrics := m'\<rparr>)"
    "wal_events_dropped_total m' = wal_events_dropped_total m"
    by (auto simp: rel)
  with m evs show ?case
    by (intro exI [of _ m']) (simp add: after_events_metrics)
qed

section \<open>The transaction at the rooms actor\<close>

definition broadcasts :: "u64 \<Rightarrow> (document_id \<times> query_hint list) list \<Rightarrow> ('tx, 'r) room_command list" where
  "broadcasts timestamp routed =
    map (\<lambda>(d, hs). RoomBroadcast d (Invalidation (map to_key hs) timestamp)) routed"

context command_channel
begin

lemma deliveries_space:
  assumes "\<not> closed w (handle_tx (sink_rooms self))"
    and "length (commands w) + length routed \<le> capacity (handle_tx (sink_rooms self))"
  shows "(\<forall>x \<in> set (fst (deliveries (rooms_send_invalidation cmd_send self) timestamp routed w)). snd x = Inr ())
    \<and> commands (snd (deliveries (rooms_send_invalidation cmd_send self) timestamp routed w)) =
      commands w @ broadcasts timestamp routed"
  using assms
proof (induction routed arbitrary: w)
  case Nil
  then show ?case by (simp add: broadcasts_def)
next
  case (Cons x routed)
  obtain d hs where x: "x = (d, hs)" by (cases x)
  let ?h = "handle_tx (sink_rooms self)"
  let ?c = "RoomBroadcast d (Invalidation (map to_key hs) timestamp)"
  from send_ok [of w ?h ?c] Cons.prems obtain w' where w': "cmd_send ?h ?c w = (SendOk, w')"
    "commands w' = commands w @ [?c]" "closed w' = closed w" by auto
  then have "rooms_send_invalidation cmd_send self d hs timestamp w = (Inr (), w')"
    by (simp add: rooms_send_invalidation_def broadcast_to_room_def)
  with Cons.IH [of w'] Cons.prems w' show ?case
    by (cases "deliveries (rooms_send_invalidation cmd_send self) timestamp routed w'")
      (simp add: x broadcasts_def)
qed

end

text \<open>Without space for all rooms: the first ones are sent, the others refused and counted.\<close>

context command_channel
begin

lemma deliveries_refused:
  assumes "\<not> accepts w (handle_tx (sink_rooms self))"
  shows "snd (deliveries (rooms_send_invalidation cmd_send self) timestamp routed w) = w
    \<and> dropped_in (fst (deliveries (rooms_send_invalidation cmd_send self) timestamp routed w)) =
      (if closed w (handle_tx (sink_rooms self)) then 0 else length routed)"
proof (induction routed)
  case (Cons x routed)
  let ?h = "handle_tx (sink_rooms self)" and ?del = "deliveries (rooms_send_invalidation cmd_send self) timestamp routed w"
  obtain d hs where x: "x = (d, hs)" by (cases x)
  obtain rs w' where rs: "?del = (rs, w')" by (metis surj_pair)
  let ?c = "RoomBroadcast d (Invalidation (map to_key hs) timestamp)"
  have "rooms_send_invalidation cmd_send self d hs timestamp w =
      (Inl (if closed w ?h then ChannelClosed else ChannelFull), w)"
    using assms by (cases rule: send_cases [of w ?h ?c])
      (simp_all add: rooms_send_invalidation_def broadcast_to_room_def)
  with Cons.IH show ?case by (simp add: x rs dropped_in_def)
qed (simp add: dropped_in_def)

lemma deliveries_full:
  assumes "\<not> closed w (handle_tx (sink_rooms self))"
    and "free = capacity (handle_tx (sink_rooms self)) - length (commands w)"
  shows "commands (snd (deliveries (rooms_send_invalidation cmd_send self) timestamp routed w)) =
      commands w @ broadcasts timestamp (take free routed)
    \<and> dropped_in (fst (deliveries (rooms_send_invalidation cmd_send self) timestamp routed w)) = length routed - free"
  using assms
proof (induction routed arbitrary: w free)
  case Nil
  then show ?case by (simp add: dropped_in_def broadcasts_def)
next
  case (Cons x routed)
  let ?h = "handle_tx (sink_rooms self)"
  show ?case
  proof (cases "accepts w ?h")
    case False
    then have "free = 0" using Cons.prems by (simp add: accepts_def)
    with deliveries_refused [OF False, of timestamp "x # routed"] Cons.prems(1) show ?thesis
      by (simp add: broadcasts_def)
  next
    case True
    obtain d hs where x: "x = (d, hs)" by (cases x)
    let ?c = "RoomBroadcast d (Invalidation (map to_key hs) timestamp)"
    from True obtain w' where w': "cmd_send ?h ?c w = (SendOk, w')" "commands w' = commands w @ [?c]" "closed w' = closed w"
      by (cases rule: send_cases [of w ?h ?c]) auto
    then have sent: "rooms_send_invalidation cmd_send self d hs timestamp w = (Inr (), w')"
      by (simp add: rooms_send_invalidation_def broadcast_to_room_def)
    obtain rs w'' where rs: "deliveries (rooms_send_invalidation cmd_send self) timestamp routed w' = (rs, w'')"
      by (metis surj_pair)
    have "free \<noteq> 0" using True Cons.prems(2) by (simp add: accepts_def)
    then obtain free' where free: "free = Suc free'" using not0_implies_Suc by blast
    have open': "\<not> closed w' ?h" using Cons.prems(1) w'(3) by simp
    have left: "free' = capacity ?h - length (commands w')" using Cons.prems(2) free w'(2) by simp
    have "commands w'' = commands w' @ broadcasts timestamp (take free' routed) \<and> dropped_in rs = length routed - free'"
      using Cons.IH [OF open' left] by (simp only: rs fst_conv snd_conv)
    with w'(2) show ?thesis by (simp add: x sent rs free broadcasts_def dropped_in_def)
  qed
qed

end

text \<open>The entries of a commit whose buffer holds the given hints.\<close>

lemma commit_entries_of:
  assumes "orders_ok env" "fset (tx_hints tx) = H" "\<And>h. h \<in> H \<Longrightarrow> route_key h = Some (hint_value h)"
  shows "fst ` set (commit_entries env (Some tx)) = hint_value ` H"
    and "(d, hs) \<in> set (commit_entries env (Some tx)) \<Longrightarrow> set hs = {h \<in> H. hint_value h = d}"
proof -
  have mem: "h |\<in>| tx_hints tx \<longleftrightarrow> h \<in> H" for h using assms(2) by blast
  have iff: "(d, hs) \<in> set (commit_entries env (Some tx)) \<longleftrightarrow>
      hs = hints_for d (ce_hint_order env (tx_hints tx)) \<and> d \<in> hint_value ` H" for d hs
    using assms(3) by (auto simp: commit_entries_iff [OF assms(1)] mem image_iff)
  show "fst ` set (commit_entries env (Some tx)) = hint_value ` H"
  proof -
    have "fst ` set (commit_entries env (Some tx)) = {d. \<exists>hs. (d, hs) \<in> set (commit_entries env (Some tx))}"
      by force
    then show ?thesis by (simp add: iff)
  qed
  show "set hs = {h \<in> H. hint_value h = d}" if entry: "(d, hs) \<in> set (commit_entries env (Some tx))"
  proof -
    have "hs = hints_for d (ce_hint_order env (tx_hints tx))" using entry unfolding iff by blast
    moreover have "iteration_order (ce_hint_order env)" using assms(1) by (simp add: orders_ok_def)
    ultimately have "set hs = {h. h |\<in>| tx_hints tx \<and> route_key h = Some d}"
      by (simp only: set_hints_for_order)
    also have "\<dots> = {h \<in> H. hint_value h = d}" using assms(3) by (auto simp: mem)
    finally show ?thesis .
  qed
qed

text \<open>
  What the rooms actor is sent for the hints \<open>H\<close> of a transaction: one entry per document of a hint,
  with the keys of that document's hints.
\<close>

definition exact_invalidations :: "query_hint set \<Rightarrow> (document_id \<times> query_hint list) list \<Rightarrow> bool" where
  "exact_invalidations H entries \<longleftrightarrow>
    distinct (map fst entries) \<and> fst ` set entries = hint_value ` H
    \<and> (\<forall>(d, hs) \<in> set entries. distinct hs \<and> set hs = {h \<in> H. hint_value h = d})"

lemma commit_entries_exact:
  assumes "orders_ok env" "fset (tx_hints tx) = H" "\<And>h. h \<in> H \<Longrightarrow> route_key h = Some (hint_value h)"
  shows "exact_invalidations H (commit_entries env (Some tx))"
proof -
  have "distinct hs" if "(d, hs) \<in> set (commit_entries env (Some tx))" for d hs
    using that assms(1)
    by (auto simp: commit_entries_iff [OF assms(1)] hints_for_def orders_ok_def iteration_order_distinct)
  with commit_entries_of [OF assms] commit_entries_distinct [OF assms(1)] show ?thesis
    by (auto simp: exact_invalidations_def)
qed

lemma reader_run_append:
  "reader_run send is s = (Continue, s') \<Longrightarrow> reader_run send (is @ js) s = reader_run send js s'"
  by (induction "is" arbitrary: s) (auto split: prod.splits flow.splits)

lemma transaction_run:
  fixes s :: "'w wal_reader"
  assumes "list_all quiet_input is"
    and "convert_messages (wal_relations s) (run_messages is) = (evs, False, r)"
    and "orders_ok env"
  obtains s' m where
    "reader_run send (ReplRecv env0 (Inr (Some Begin)) # is @ [ReplRecv env (Inr (Some (Commit end_lsn)))]) s
      = (Continue, handle_commit send env end_lsn s')"
    and "wal_world s' = wal_world s" "wal_relations s' = r" "wal_calls s' = wal_calls s"
    and "wal_events_dropped_total (wal_metrics s') = wal_events_dropped_total (wal_metrics s)"
    and "exact_invalidations (transaction_hints evs) (commit_entries env (wal_transaction s'))"
proof -
  let ?b = "s\<lparr>wal_transaction := Some empty_buffer\<rparr>"
  from quiet_run [OF assms(1), of ?b evs r send] assms(2) obtain m where
    run: "reader_run send is ?b = (Continue, (after_events evs r ?b)\<lparr>wal_metrics := m\<rparr>)"
    and m: "wal_events_dropped_total m = wal_events_dropped_total (wal_metrics s)" by auto
  let ?s' = "(after_events evs r ?b)\<lparr>wal_metrics := m\<rparr>"
  have tx: "wal_transaction ?s' = Some (buffer_events evs empty_buffer)"
    by (simp add: after_events_def)
  have "exact_invalidations (transaction_hints evs) (commit_entries env (wal_transaction ?s'))"
    unfolding tx
    by (rule commit_entries_exact [OF assms(3) buffered_hints transaction_hints_route])
  moreover have "reader_run send (ReplRecv env0 (Inr (Some Begin)) # is @
      [ReplRecv env (Inr (Some (Commit end_lsn)))]) s = (Continue, handle_commit send env end_lsn ?s')"
    using reader_run_append [OF run] by simp
  ultimately show thesis
    using that [of ?s'] m by (simp add: after_events_def)
qed

context command_channel
begin

lemma transaction_delivered:
  assumes "\<not> closed (wal_world s) (handle_tx (sink_rooms self))"
    and "length (commands (wal_world s)) + length (commit_entries env (wal_transaction s))
      \<le> capacity (handle_tx (sink_rooms self))"
  shows "commands (wal_world (handle_commit (rooms_send_invalidation cmd_send self) env end_lsn s)) =
      commands (wal_world s) @ broadcasts (ce_now env) (commit_entries env (wal_transaction s))"
    and "wal_events_dropped_total (wal_metrics
        (handle_commit (rooms_send_invalidation cmd_send self) env end_lsn s)) =
      wal_events_dropped_total (wal_metrics s)"
proof -
  note space = deliveries_space [OF assms, of "ce_now env"]
  then show "commands (wal_world (handle_commit (rooms_send_invalidation cmd_send self) env end_lsn s)) =
      commands (wal_world s) @ broadcasts (ce_now env) (commit_entries env (wal_transaction s))"
    by (simp add: handle_commit_deliveries)
  from space have "dropped_in (fst (deliveries (rooms_send_invalidation cmd_send self) (ce_now env)
      (commit_entries env (wal_transaction s)) (wal_world s))) = 0"
    by (auto simp: dropped_in_def filter_empty_conv)
  then show "wal_events_dropped_total (wal_metrics
        (handle_commit (rooms_send_invalidation cmd_send self) env end_lsn s)) =
      wal_events_dropped_total (wal_metrics s)"
    by (simp add: handle_commit_deliveries)
qed

end

lemma exact_invalidations_length:
  assumes "exact_invalidations H entries"
  shows "length entries = card (hint_value ` H)"
proof -
  have "card (set (map fst entries)) = length (map fst entries)"
    using assms by (intro distinct_card) (simp add: exact_invalidations_def)
  then show ?thesis using assms by (simp add: exact_invalidations_def)
qed

end
