(* ===== verification/Pg_Fixture.thy ===== *)
theory Pg_Fixture
  imports Pg_Wire Wal_Delivery
begin

text \<open>
  The payload captured from PostgreSQL under \<^verbatim>\<open>tests/fixtures/pgoutput_capture.bin\<close>, which the
  tests of \<^verbatim>\<open>src/wal/pgoutput.rs\<close> and \<^verbatim>\<open>tests/wal_hint_generation_test.rs\<close> read: its bytes,
  the wire messages they encode and what the program makes of them, evaluated in the kernel.
\<close>

section \<open>The captured bytes\<close>

definition fixture_bytes :: "u8 list" where
  "fixture_bytes = [
    82, 0, 0, 64, 1, 112, 117, 98, 108, 105, 99, 0, 100, 111, 99, 117, 109, 101, 110, 116, 115, 0,
    100, 0, 1, 1, 105, 100, 0, 0, 0, 0, 25, 255, 255, 255, 255, 73, 0, 0, 64, 1, 78, 0, 1, 116, 0,
    0, 0, 20, 100, 111, 99, 95, 102, 105, 120, 116, 117, 114, 101, 95, 112, 103, 111, 117, 116,
    112, 117, 116, 82, 0, 0, 64, 47, 112, 117, 98, 108, 105, 99, 0, 99, 111, 109, 109, 101, 110,
    116, 115, 0, 102, 0, 3, 1, 105, 100, 0, 0, 0, 11, 134, 255, 255, 255, 255, 1, 100, 111, 99,
    117, 109, 101, 110, 116, 95, 105, 100, 0, 0, 0, 0, 25, 255, 255, 255, 255, 1, 116, 101, 120,
    116, 0, 0, 0, 0, 25, 255, 255, 255, 255, 73, 0, 0, 64, 47, 78, 0, 3, 116, 0, 0, 0, 36, 102,
    50, 54, 101, 54, 57, 51, 54, 45, 50, 48, 98, 101, 45, 52, 97, 97, 99, 45, 56, 48, 97, 50, 45,
    49, 57, 98, 54, 97, 54, 50, 100, 53, 49, 50, 55, 116, 0, 0, 0, 20, 100, 111, 99, 95, 102, 105,
    120, 116, 117, 114, 101, 95, 112, 103, 111, 117, 116, 112, 117, 116, 116, 0, 0, 0, 16, 102,
    105, 120, 116, 117, 114, 101, 32, 105, 110, 115, 101, 114, 116, 32, 49, 73, 0, 0, 64, 47, 78,
    0, 3, 116, 0, 0, 0, 36, 102, 53, 55, 54, 52, 55, 97, 49, 45, 99, 57, 56, 56, 45, 52, 101, 55,
    99, 45, 57, 54, 57, 55, 45, 49, 49, 53, 56, 99, 57, 52, 54, 101, 102, 48, 99, 116, 0, 0, 0,
    20, 100, 111, 99, 95, 102, 105, 120, 116, 117, 114, 101, 95, 112, 103, 111, 117, 116, 112,
    117, 116, 116, 0, 0, 0, 16, 102, 105, 120, 116, 117, 114, 101, 32, 105, 110, 115, 101, 114,
    116, 32, 50, 73, 0, 0, 64, 47, 78, 0, 3, 116, 0, 0, 0, 36, 57, 54, 102, 53, 97, 56, 55, 57,
    45, 55, 98, 53, 98, 45, 52, 49, 53, 54, 45, 97, 97, 100, 51, 45, 100, 50, 102, 49, 49, 99, 53,
    50, 56, 97, 54, 97, 116, 0, 0, 0, 20, 100, 111, 99, 95, 102, 105, 120, 116, 117, 114, 101, 95,
    112, 103, 111, 117, 116, 112, 117, 116, 116, 0, 0, 0, 26, 102, 105, 120, 116, 117, 114, 101,
    32, 119, 105, 108, 108, 32, 117, 112, 100, 97, 116, 101, 47, 100, 101, 108, 101, 116, 101, 73,
    0, 0, 64, 47, 78, 0, 3, 116, 0, 0, 0, 36, 97, 54, 55, 102, 57, 56, 53, 97, 45, 100, 99, 51,
    51, 45, 52, 102, 48, 49, 45, 97, 52, 56, 49, 45, 50, 51, 48, 56, 56, 97, 99, 56, 101, 55, 54,
    48, 116, 0, 0, 0, 20, 100, 111, 99, 95, 102, 105, 120, 116, 117, 114, 101, 95, 112, 103, 111,
    117, 116, 112, 117, 116, 116, 0, 0, 0, 16, 102, 105, 120, 116, 117, 114, 101, 32, 105, 110,
    115, 101, 114, 116, 32, 49, 73, 0, 0, 64, 47, 78, 0, 3, 116, 0, 0, 0, 36, 54, 97, 49, 101, 98,
    55, 52, 54, 45, 48, 102, 52, 56, 45, 52, 56, 53, 57, 45, 97, 49, 101, 51, 45, 53, 97, 52, 53,
    102, 55, 51, 50, 50, 49, 102, 99, 116, 0, 0, 0, 20, 100, 111, 99, 95, 102, 105, 120, 116, 117,
    114, 101, 95, 112, 103, 111, 117, 116, 112, 117, 116, 116, 0, 0, 0, 16, 102, 105, 120, 116,
    117, 114, 101, 32, 105, 110, 115, 101, 114, 116, 32, 50, 73, 0, 0, 64, 47, 78, 0, 3, 116, 0,
    0, 0, 36, 53, 101, 101, 54, 53, 51, 56, 53, 45, 54, 97, 53, 57, 45, 52, 49, 48, 101, 45, 98,
    99, 97, 102, 45, 99, 50, 49, 98, 99, 50, 97, 52, 54, 55, 53, 99, 116, 0, 0, 0, 20, 100, 111,
    99, 95, 102, 105, 120, 116, 117, 114, 101, 95, 112, 103, 111, 117, 116, 112, 117, 116, 116, 0,
    0, 0, 26, 102, 105, 120, 116, 117, 114, 101, 32, 119, 105, 108, 108, 32, 117, 112, 100, 97,
    116, 101, 47, 100, 101, 108, 101, 116, 101, 73, 0, 0, 64, 47, 78, 0, 3, 116, 0, 0, 0, 36, 97,
    54, 98, 102, 97, 56, 99, 101, 45, 48, 52, 51, 52, 45, 52, 53, 102, 102, 45, 56, 50, 52, 99,
    45, 57, 52, 55, 100, 51, 98, 51, 99, 51, 100, 99, 48, 116, 0, 0, 0, 20, 100, 111, 99, 95, 102,
    105, 120, 116, 117, 114, 101, 95, 112, 103, 111, 117, 116, 112, 117, 116, 116, 0, 0, 0, 16,
    102, 105, 120, 116, 117, 114, 101, 32, 105, 110, 115, 101, 114, 116, 32, 49, 73, 0, 0, 64, 47,
    78, 0, 3, 116, 0, 0, 0, 36, 51, 50, 97, 52, 101, 57, 48, 52, 45, 51, 102, 48, 56, 45, 52, 56,
    101, 52, 45, 56, 101, 51, 101, 45, 101, 97, 98, 101, 55, 100, 98, 98, 52, 55, 50, 98, 116, 0,
    0, 0, 20, 100, 111, 99, 95, 102, 105, 120, 116, 117, 114, 101, 95, 112, 103, 111, 117, 116,
    112, 117, 116, 116, 0, 0, 0, 16, 102, 105, 120, 116, 117, 114, 101, 32, 105, 110, 115, 101,
    114, 116, 32, 50, 73, 0, 0, 64, 47, 78, 0, 3, 116, 0, 0, 0, 36, 99, 48, 102, 56, 49, 100, 101,
    101, 45, 57, 56, 51, 97, 45, 52, 55, 97, 55, 45, 98, 98, 49, 50, 45, 99, 55, 49, 99, 102, 99,
    57, 56, 101, 50, 55, 100, 116, 0, 0, 0, 20, 100, 111, 99, 95, 102, 105, 120, 116, 117, 114,
    101, 95, 112, 103, 111, 117, 116, 112, 117, 116, 116, 0, 0, 0, 26, 102, 105, 120, 116, 117,
    114, 101, 32, 119, 105, 108, 108, 32, 117, 112, 100, 97, 116, 101, 47, 100, 101, 108, 101,
    116, 101, 85, 0, 0, 64, 47, 79, 0, 3, 116, 0, 0, 0, 36, 99, 48, 102, 56, 49, 100, 101, 101,
    45, 57, 56, 51, 97, 45, 52, 55, 97, 55, 45, 98, 98, 49, 50, 45, 99, 55, 49, 99, 102, 99, 57,
    56, 101, 50, 55, 100, 116, 0, 0, 0, 20, 100, 111, 99, 95, 102, 105, 120, 116, 117, 114, 101,
    95, 112, 103, 111, 117, 116, 112, 117, 116, 116, 0, 0, 0, 26, 102, 105, 120, 116, 117, 114,
    101, 32, 119, 105, 108, 108, 32, 117, 112, 100, 97, 116, 101, 47, 100, 101, 108, 101, 116,
    101, 78, 0, 3, 116, 0, 0, 0, 36, 99, 48, 102, 56, 49, 100, 101, 101, 45, 57, 56, 51, 97, 45,
    52, 55, 97, 55, 45, 98, 98, 49, 50, 45, 99, 55, 49, 99, 102, 99, 57, 56, 101, 50, 55, 100,
    116, 0, 0, 0, 20, 100, 111, 99, 95, 102, 105, 120, 116, 117, 114, 101, 95, 112, 103, 111, 117,
    116, 112, 117, 116, 116, 0, 0, 0, 15, 102, 105, 120, 116, 117, 114, 101, 32, 117, 112, 100,
    97, 116, 101, 100, 68, 0, 0, 64, 47, 79, 0, 3, 116, 0, 0, 0, 36, 99, 48, 102, 56, 49, 100,
    101, 101, 45, 57, 56, 51, 97, 45, 52, 55, 97, 55, 45, 98, 98, 49, 50, 45, 99, 55, 49, 99, 102,
    99, 57, 56, 101, 50, 55, 100, 116, 0, 0, 0, 20, 100, 111, 99, 95, 102, 105, 120, 116, 117,
    114, 101, 95, 112, 103, 111, 117, 116, 112, 117, 116, 116, 0, 0, 0, 15, 102, 105, 120, 116,
    117, 114, 101, 32, 117, 112, 100, 97, 116, 101, 100]"

section \<open>The messages they encode\<close>

definition fixture_wire :: "wire_message list" where
  "fixture_wire = [
    WRelation \<lparr>wr_id = 16385, wr_namespace = ''public'', wr_name = ''documents'', wr_replica_identity = 100,
      wr_columns = [\<lparr>wc_flags = 1, wc_name = ''id'', wc_type_oid = 25, wc_type_modifier = 4294967295\<rparr>]\<rparr>,
    WInsert 16385 [WText ''doc_fixture_pgoutput''],
    WRelation \<lparr>wr_id = 16431, wr_namespace = ''public'', wr_name = ''comments'', wr_replica_identity = 102,
      wr_columns = [\<lparr>wc_flags = 1, wc_name = ''id'', wc_type_oid = 2950, wc_type_modifier = 4294967295\<rparr>,
        \<lparr>wc_flags = 1, wc_name = ''document_id'', wc_type_oid = 25, wc_type_modifier = 4294967295\<rparr>,
        \<lparr>wc_flags = 1, wc_name = ''text'', wc_type_oid = 25, wc_type_modifier = 4294967295\<rparr>]\<rparr>,
    WInsert 16431 [WText ''f26e6936-20be-4aac-80a2-19b6a62d5127'',
      WText ''doc_fixture_pgoutput'',
      WText ''fixture insert 1''],
    WInsert 16431 [WText ''f57647a1-c988-4e7c-9697-1158c946ef0c'',
      WText ''doc_fixture_pgoutput'',
      WText ''fixture insert 2''],
    WInsert 16431 [WText ''96f5a879-7b5b-4156-aad3-d2f11c528a6a'',
      WText ''doc_fixture_pgoutput'',
      WText ''fixture will update/delete''],
    WInsert 16431 [WText ''a67f985a-dc33-4f01-a481-23088ac8e760'',
      WText ''doc_fixture_pgoutput'',
      WText ''fixture insert 1''],
    WInsert 16431 [WText ''6a1eb746-0f48-4859-a1e3-5a45f73221fc'',
      WText ''doc_fixture_pgoutput'',
      WText ''fixture insert 2''],
    WInsert 16431 [WText ''5ee65385-6a59-410e-bcaf-c21bc2a4675c'',
      WText ''doc_fixture_pgoutput'',
      WText ''fixture will update/delete''],
    WInsert 16431 [WText ''a6bfa8ce-0434-45ff-824c-947d3b3c3dc0'',
      WText ''doc_fixture_pgoutput'',
      WText ''fixture insert 1''],
    WInsert 16431 [WText ''32a4e904-3f08-48e4-8e3e-eabe7dbb472b'',
      WText ''doc_fixture_pgoutput'',
      WText ''fixture insert 2''],
    WInsert 16431 [WText ''c0f81dee-983a-47a7-bb12-c71cfc98e27d'',
      WText ''doc_fixture_pgoutput'',
      WText ''fixture will update/delete''],
    WUpdate 16431 [(OldTuple, [WText ''c0f81dee-983a-47a7-bb12-c71cfc98e27d'',
      WText ''doc_fixture_pgoutput'',
      WText ''fixture will update/delete''])]
      [WText ''c0f81dee-983a-47a7-bb12-c71cfc98e27d'',
      WText ''doc_fixture_pgoutput'',
      WText ''fixture updated''],
    WDelete 16431 (OldTuple, [WText ''c0f81dee-983a-47a7-bb12-c71cfc98e27d'',
      WText ''doc_fixture_pgoutput'',
      WText ''fixture updated''])]"

lemma fixture_wf: "list_all wf_wire_message fixture_wire"
  by (simp add: fixture_wire_def wire_check)

lemma fixture_encoded: "concat (map enc_wire_message fixture_wire) = fixture_bytes"
  by (simp add: fixture_wire_def fixture_bytes_def wire_eval)

lemma fixture_parsed: "parse_pgoutput_messages fixture_bytes = Inr (map message_of fixture_wire)"
  using messages_loop_complete [OF fixture_wf, of "[]"]
  by (simp add: parse_pgoutput_messages_def new_reader_at fixture_encoded)

section \<open>The events and hints of the capture\<close>

definition fixture_events :: "wal_event list" where
  "fixture_events = fst (convert_messages fmempty (map message_of fixture_wire))"

definition fixture_relations :: relation_table where
  "fixture_relations = snd (snd (convert_messages fmempty (map message_of fixture_wire)))"

lemma fixture_converted:
  "convert_messages fmempty (map message_of fixture_wire) = (fixture_events, False, fixture_relations)"
  unfolding fixture_events_def fixture_relations_def
  by (simp add: fixture_wire_def relation_of_def Let_def)

lemma fixture_event_count: "length fixture_events = 12"
  by (simp add: fixture_events_def fixture_wire_def relation_of_def Let_def)

lemma fixture_hints:
  "transaction_hints fixture_events = {QueryHint ''comments'' ''document_id'' ''doc_fixture_pgoutput''}"
  by (simp add: fixture_events_def fixture_wire_def relation_of_def Let_def transaction_hints_Cons
      event_hints_def get_text_column_def require_text_column_def from_values_def
      value_at_def last_old_def)

end
