(* ===== verification/Fixture_Rows.thy ===== *)
theory Fixture_Rows
  imports Pg_Fixture "HOL-Library.Monad_Syntax"
begin

text \<open>
  The reading of the captured payload by the tests of \<^verbatim>\<open>src/wal/pgoutput.rs\<close>: rows are read
  by the position of a column instead of the map the conversion builds. The two readings agree, and
  what the tests assert holds of the capture. A panic of the test helpers is \<open>None\<close>.
\<close>

section \<open>Rows by position\<close>

record comment_row =
  row_id :: string
  row_document_id :: string
  row_text :: string

record comment_update =
  update_old :: comment_row
  update_new :: comment_row

definition column_idx :: "relation \<Rightarrow> string \<Rightarrow> nat option" where
  "column_idx rel name = position (\<lambda>col. col = name) (rel_columns rel)"

fun expect_text :: "wal_value \<Rightarrow> string option" where
  "expect_text (Text s) = Some s"
| "expect_text Null = None"
| "expect_text (IntVal i) = None"

definition row_from_values :: "relation \<Rightarrow> wal_value list \<Rightarrow> comment_row option" where
  "row_from_values rel values =
    (if length values \<noteq> length (rel_columns rel) then None
     else do {
       id_idx \<leftarrow> column_idx rel ''id'';
       document_id_idx \<leftarrow> column_idx rel ''document_id'';
       text_idx \<leftarrow> column_idx rel ''text'';
       i \<leftarrow> expect_text (values ! id_idx);
       d \<leftarrow> expect_text (values ! document_id_idx);
       t \<leftarrow> expect_text (values ! text_idx);
       Some \<lparr>row_id = i, row_document_id = d, row_text = t\<rparr>
     })"

lemma column_idx_nth: "column_idx rel c = Some n \<Longrightarrow> n < length (rel_columns rel) \<and> rel_columns rel ! n = c"
proof -
  have "position P xs = Some n \<Longrightarrow> n < length xs \<and> P (xs ! n)" for P :: "string \<Rightarrow> bool" and xs
    by (induction xs arbitrary: n) (auto split: if_splits)
  then show "column_idx rel c = Some n \<Longrightarrow> n < length (rel_columns rel) \<and> rel_columns rel ! n = c"
    unfolding column_idx_def by blast
qed

lemma expect_text_iff: "expect_text v = Some s \<longleftrightarrow> v = Text s"
  by (cases v) auto

text \<open>Where no column name repeats, reading by position and reading the converted tuple agree.\<close>

lemma row_agrees:
  assumes "row_from_values rel vs = Some row" and "distinct (rel_columns rel)"
  shows "column_of (from_values (rel_columns rel) vs) ''id'' = Some (Text (row_id row))
    \<and> column_of (from_values (rel_columns rel) vs) ''document_id'' = Some (Text (row_document_id row))
    \<and> column_of (from_values (rel_columns rel) vs) ''text'' = Some (Text (row_text row))"
proof -
  have read: "column_of (from_values (rel_columns rel) vs) c = Some (vs ! n)"
    if "column_idx rel c = Some n" "length vs = length (rel_columns rel)" for c n
    using column_idx_nth [OF that(1)] from_values_nth [OF assms(2), of n vs] that(2)
    by (auto simp: value_at_def)
  from assms(1) show ?thesis
    by (auto simp: row_from_values_def bind_eq_Some_conv expect_text_iff read split: if_splits)
qed

section \<open>Loading the capture\<close>

record fixture =
  fx_documents_relation :: "relation option"
  fx_comments_relation :: "relation option"
  fx_document_ids_inserted :: "string list"
  fx_comment_inserts :: "comment_row list"
  fx_comment_updates :: "comment_update list"
  fx_comment_deletes :: "comment_row list"

definition empty_fixture :: fixture where
  "empty_fixture = \<lparr>fx_documents_relation = None, fx_comments_relation = None,
    fx_document_ids_inserted = [], fx_comment_inserts = [], fx_comment_updates = [],
    fx_comment_deletes = []\<rparr>"

fun fixture_message :: "pg_output_message \<Rightarrow> relation_table \<times> fixture \<Rightarrow> (relation_table \<times> fixture) option" where
  "fixture_message (MsgRelation rel) (relations, fx) =
    (let relations' = fmupd (rel_id rel) rel relations in
     if rel_name rel = ''documents'' then Some (relations', fx\<lparr>fx_documents_relation := Some rel\<rparr>)
     else if rel_name rel = ''comments'' then Some (relations', fx\<lparr>fx_comments_relation := Some rel\<rparr>)
     else Some (relations', fx))"
| "fixture_message (MsgInsert relation_id new_values) (relations, fx) = do {
     rel \<leftarrow> fmlookup relations relation_id;
     if rel_name rel = ''documents'' then do {
       doc_id \<leftarrow> (case new_values of [] \<Rightarrow> None | v # vs \<Rightarrow> expect_text v);
       Some (relations, fx\<lparr>fx_document_ids_inserted := fx_document_ids_inserted fx @ [doc_id]\<rparr>)
     }
     else if rel_name rel = ''comments'' then do {
       row \<leftarrow> row_from_values rel new_values;
       Some (relations, fx\<lparr>fx_comment_inserts := fx_comment_inserts fx @ [row]\<rparr>)
     }
     else Some (relations, fx)
   }"
| "fixture_message (MsgUpdate relation_id old_values new_values) (relations, fx) = do {
     rel \<leftarrow> fmlookup relations relation_id;
     if rel_name rel \<noteq> ''comments'' then Some (relations, fx)
     else do {
       olds \<leftarrow> old_values;
       old_row \<leftarrow> row_from_values rel olds;
       new_row \<leftarrow> row_from_values rel new_values;
       Some (relations, fx\<lparr>fx_comment_updates :=
         fx_comment_updates fx @ [\<lparr>update_old = old_row, update_new = new_row\<rparr>]\<rparr>)
     }
   }"
| "fixture_message (MsgDelete relation_id old_values) (relations, fx) = do {
     rel \<leftarrow> fmlookup relations relation_id;
     if rel_name rel \<noteq> ''comments'' then Some (relations, fx)
     else do {
       row \<leftarrow> row_from_values rel old_values;
       Some (relations, fx\<lparr>fx_comment_deletes := fx_comment_deletes fx @ [row]\<rparr>)
     }
   }"

fun fixture_messages :: "pg_output_message list \<Rightarrow> relation_table \<times> fixture \<Rightarrow> (relation_table \<times> fixture) option" where
  "fixture_messages [] st = Some st"
| "fixture_messages (msg # msgs) st = Option.bind (fixture_message msg st) (fixture_messages msgs)"

definition fixture_load :: "u8 list \<Rightarrow> (pg_output_message list \<times> fixture) option" where
  "fixture_load bytes =
    (case parse_pgoutput_messages bytes of
       Inl e \<Rightarrow> None
     | Inr messages \<Rightarrow> do {
         (relations, fx) \<leftarrow> fixture_messages messages (fmempty, empty_fixture);
         documents \<leftarrow> fx_documents_relation fx;
         comments \<leftarrow> fx_comments_relation fx;
         Some (messages, fx)
       })"

text \<open>What the tests assert of the capture.\<close>

lemma capture_loads:
  "\<exists>fx. fixture_load fixture_bytes = Some (map message_of fixture_wire, fx)
    \<and> map_option rel_columns (fx_documents_relation fx) = Some [''id'']
    \<and> map_option rel_columns (fx_comments_relation fx) = Some [''id'', ''document_id'', ''text'']
    \<and> fx_document_ids_inserted fx = [''doc_fixture_pgoutput'']
    \<and> length (fx_comment_inserts fx) = 9
    \<and> fx_comment_updates fx =
        [\<lparr>update_old = \<lparr>row_id = ''c0f81dee-983a-47a7-bb12-c71cfc98e27d'',
            row_document_id = ''doc_fixture_pgoutput'', row_text = ''fixture will update/delete''\<rparr>,
          update_new = \<lparr>row_id = ''c0f81dee-983a-47a7-bb12-c71cfc98e27d'',
            row_document_id = ''doc_fixture_pgoutput'', row_text = ''fixture updated''\<rparr>\<rparr>]
    \<and> fx_comment_deletes fx =
        [\<lparr>row_id = ''c0f81dee-983a-47a7-bb12-c71cfc98e27d'',
          row_document_id = ''doc_fixture_pgoutput'', row_text = ''fixture updated''\<rparr>]"
  by (simp add: fixture_load_def fixture_parsed fixture_wire_def relation_of_def last_old_def
      empty_fixture_def row_from_values_def column_idx_def Let_def)

section \<open>Damaged payloads\<close>

lemma read_u8_first: "read_u8 ctx (reader_at before (b # bs)) = Inr (b, reader_at (before @ [b]) bs)"
  by (simp add: read_u8_at)

lemma unknown_tag_here:
  assumes "b \<notin> {tag CHR ''R'', tag CHR ''I'', tag CHR ''U'', tag CHR ''D''}"
  shows "parse_messages_loop (reader_at before (b # bs)) = Inl (UnknownMessageTag b)"
  using assms
  by (subst parse_messages_loop.simps)
    (simp add: parse_message_def and_then_def throw_def read_u8_first)

text \<open>An unknown tag after any number of well-formed messages: the whole payload is an error.\<close>

lemma unknown_tag_anywhere:
  assumes "b \<notin> {tag CHR ''R'', tag CHR ''I'', tag CHR ''U'', tag CHR ''D''}" "list_all wf_wire_message ws"
  shows "parse_pgoutput_messages (concat (map enc_wire_message ws) @ b # bs) = Inl (UnknownMessageTag b)"
proof -
  have "parse_messages_loop (reader_at before (concat (map enc_wire_message ws) @ b # bs)) = Inl (UnknownMessageTag b)"
    for before
    using assms(2)
  proof (induction ws arbitrary: before)
    case (Cons w ws)
    have "enc_wire_message w \<noteq> []" by (cases w) simp_all
    with Cons show ?case by (subst parse_messages_loop.simps) (simp add: rd_message.complete)
  qed (use unknown_tag_here [OF assms(1)] in simp)
  then show ?thesis by (simp add: parse_pgoutput_messages_def new_reader_at)
qed

end
