(* ===== verification/Wal_Handle.thy ===== *)
theory Wal_Handle
  imports Wal_Reader
begin

text \<open>
  The handle of the WAL reader (\<^verbatim>\<open>src/wal/replication.rs\<close>) through which it is told to stop,
  and the application state of \<^verbatim>\<open>src/state.rs\<close> that carries both handles and the metrics. The
  metrics are shared between tasks in the program; here every function that counts returns them.
\<close>

section \<open>The handle\<close>

datatype wal_reader_command_error = ReaderChannelFull | ReaderChannelClosed

fun fmt_wal_reader_command_error :: "wal_reader_command_error \<Rightarrow> string" where
  "fmt_wal_reader_command_error ReaderChannelFull = ''WAL reader command channel is full''"
| "fmt_wal_reader_command_error ReaderChannelClosed = ''WAL reader command channel is closed''"

definition wal_reader_channel_capacity :: nat where
  "wal_reader_channel_capacity = 256"

record 'c wal_reader_handle =
  reader_tx :: 'c

definition stop ::
    "('c \<Rightarrow> wal_reader_command \<Rightarrow> 'w \<Rightarrow> send_result \<times> 'w) \<Rightarrow> 'c wal_reader_handle \<Rightarrow> 'w \<Rightarrow>
      (wal_reader_command_error + unit) \<times> 'w" where
  "stop reader_send self w =
    (case reader_send (reader_tx self) StopCommand w of
       (SendOk, w') \<Rightarrow> (Inr (), w')
     | (SendFull, w') \<Rightarrow> (Inl ReaderChannelFull, w')
     | (SendClosed, w') \<Rightarrow> (Inl ReaderChannelClosed, w'))"

section \<open>The application state\<close>

record ('h, 'c) app_state =
  app_rooms :: "'h rooms_handle"
  app_wal_reader :: "'c wal_reader_handle"
  app_metrics :: metrics

definition new_app_state ::
    "'h rooms_handle \<Rightarrow> 'c wal_reader_handle \<Rightarrow> metrics \<Rightarrow> ('h, 'c) app_state" where
  "new_app_state rooms wal_reader m =
    \<lparr>app_rooms = rooms, app_wal_reader = wal_reader, app_metrics = m\<rparr>"

locale reader_channel = mpsc reader_send queue closed capacity
  for reader_send :: "'c \<Rightarrow> wal_reader_command \<Rightarrow> 'w \<Rightarrow> send_result \<times> 'w"
    and queue :: "'w \<Rightarrow> 'c \<Rightarrow> wal_reader_command list"
    and closed :: "'w \<Rightarrow> 'c \<Rightarrow> bool"
    and capacity :: "'c \<Rightarrow> nat"
begin

lemma stop_ok:
  "stop reader_send self w = (Inr (), w') \<longleftrightarrow>
    accepts w (reader_tx self) \<and> w' = snd (reader_send (reader_tx self) StopCommand w)"
  by (rule send_cases [of w "reader_tx self" StopCommand]) (auto simp: stop_def)

lemma stop_refused:
  "stop reader_send self w = (Inl e, w') \<longleftrightarrow>
    \<not> accepts w (reader_tx self) \<and> w' = w
    \<and> e = (if closed w (reader_tx self) then ReaderChannelClosed else ReaderChannelFull)"
  by (rule send_cases [of w "reader_tx self" StopCommand]) (auto simp: stop_def)

end

interpretation ref_reader: reader_channel "chan_try_send cap" chan_queue chan_closed cap for cap
  by unfold_locales

end
