(* ===== verification/Pg_Setup.thy ===== *)
theory Pg_Setup
  imports Pg_Config
begin

text \<open>
  \<^verbatim>\<open>src/postgres/setup.rs\<close> and \<^verbatim>\<open>src/postgres/connection.rs\<close>: the statements the server
  runs before it starts, and their errors. The PostgreSQL client is not part of this program: its
  operations are parameters, \<open>'db\<close> is the state of the server they talk to and \<open>'e\<close> the client's
  error. The locale \<open>setup_database\<close> states the documented behaviour of the statements sent.
\<close>

section \<open>Errors\<close>

text \<open>What the program reads of a database error.\<close>

record db_error =
  db_code :: string
  db_message :: string
  db_detail :: "string option"
  db_hint :: "string option"

datatype 'e setup_error = ConnectionFailed 'e | QueryFailed string 'e

definition opt_text :: "string \<Rightarrow> string option \<Rightarrow> string" where
  "opt_text label v = (case v of None \<Rightarrow> [] | Some d \<Rightarrow> label @ d)"

fun fmt_setup_error ::
    "('e \<Rightarrow> db_error option) \<Rightarrow> ('e \<Rightarrow> string) \<Rightarrow> 'e setup_error \<Rightarrow> string" where
  "fmt_setup_error as_db_error show_error (ConnectionFailed err) =
    ''Postgres connection failed: '' @ show_error err"
| "fmt_setup_error as_db_error show_error (QueryFailed query error) =
    (case as_db_error error of
       Some db_error \<Rightarrow>
         (let detail = opt_text '' detail='' (db_detail db_error);
              hint = opt_text '' hint='' (db_hint db_error)
          in ''Postgres setup query failed ('' @ query @ ''): code='' @ db_code db_error @
             '' message='' @ db_message db_error @ detail @ hint)
     | None \<Rightarrow> ''Postgres setup query failed ('' @ query @ ''): '' @ show_error error)"

definition is_duplicate_object :: "('e \<Rightarrow> db_error option) \<Rightarrow> 'e \<Rightarrow> bool" where
  "is_duplicate_object as_db_error error =
    (case as_db_error error of
       None \<Rightarrow> False
     | Some db_error \<Rightarrow> db_code db_error = ''42710'')"

section \<open>Statements\<close>

type_synonym ('e, 'db) execute = "string \<Rightarrow> 'db \<Rightarrow> ('e + unit) \<times> 'db"
type_synonym ('e, 'db) query_opt = "string \<Rightarrow> string \<Rightarrow> 'db \<Rightarrow> ('e + bool) \<times> 'db"
type_synonym ('e, 'db) query_one = "string \<Rightarrow> string \<Rightarrow> 'db \<Rightarrow> ('e + string \<times> string) \<times> 'db"
type_synonym ('e, 'db) setup_step = "'db \<Rightarrow> ('e setup_error + unit) \<times> 'db"

text \<open>A statement followed by the \<open>?\<close> operator and the rest of the function.\<close>

definition and_continue :: "('e, 'db) setup_step \<Rightarrow> ('e, 'db) setup_step \<Rightarrow> ('e, 'db) setup_step" where
  "and_continue p q db = (case p db of (Inl e, db') \<Rightarrow> (Inl e, db') | (Inr u, db') \<Rightarrow> q db')"

definition exec :: "('e, 'db) execute \<Rightarrow> string \<Rightarrow> ('e, 'db) setup_step" where
  "exec execute query db =
    (case execute query db of
       (Inl error, db') \<Rightarrow> (Inl (QueryFailed query error), db')
     | (Inr u, db') \<Rightarrow> (Inr (), db'))"

definition slot_exists_query :: string where
  "slot_exists_query = ''SELECT 1 FROM pg_replication_slots WHERE slot_name = $1''"

definition create_slot_query :: string where
  "create_slot_query =
    ''SELECT slot_name, lsn::text FROM pg_create_logical_replication_slot($1, '' @ [CHR 0x27] @
    ''pgoutput'' @ [CHR 0x27] @ '')''"

definition ensure_replication_slot ::
    "('e, 'db) query_opt \<Rightarrow> ('e, 'db) query_one \<Rightarrow> postgres_config \<Rightarrow> ('e, 'db) setup_step" where
  "ensure_replication_slot query_opt query_one config db =
    (let name = slot_name config in
     case query_opt slot_exists_query name db of
       (Inl error, db') \<Rightarrow> (Inl (QueryFailed slot_exists_query error), db')
     | (Inr exists, db') \<Rightarrow>
         if exists then (Inr (), db')
         else
           (case query_one create_slot_query name db' of
              (Inl error, db'') \<Rightarrow> (Inl (QueryFailed create_slot_query error), db'')
            | (Inr (created_slot_name, consistent_point), db'') \<Rightarrow> (Inr (), db'')))"

definition table_queries :: "string list" where
  "table_queries =
    [''CREATE TABLE IF NOT EXISTS documents (id TEXT PRIMARY KEY)'',
     ''CREATE EXTENSION IF NOT EXISTS pgcrypto'',
     ''CREATE TABLE IF NOT EXISTS comments (id UUID PRIMARY KEY DEFAULT gen_random_uuid(), document_id TEXT NOT NULL, text TEXT)'',
     ''ALTER TABLE comments REPLICA IDENTITY FULL'']"

definition create_publication :: "string \<Rightarrow> string" where
  "create_publication publication = ''CREATE PUBLICATION '' @ publication @ '' FOR TABLE documents, comments''"

text \<open>The publication: an existing one counts as success, any other error is returned.\<close>

definition ensure_publication ::
    "('e \<Rightarrow> db_error option) \<Rightarrow> ('e, 'db) execute \<Rightarrow> string \<Rightarrow> ('e, 'db) setup_step" where
  "ensure_publication as_db_error execute publication db =
    (case exec execute (create_publication publication) db of
       (Inr u, db') \<Rightarrow> (Inr (), db')
     | (Inl (QueryFailed query error), db') \<Rightarrow>
         if is_duplicate_object as_db_error error then (Inr (), db')
         else (Inl (QueryFailed query error), db')
     | (Inl (ConnectionFailed err), db') \<Rightarrow> (Inl (ConnectionFailed err), db'))"

definition run_setup_queries ::
    "('e \<Rightarrow> db_error option) \<Rightarrow> ('e, 'db) execute \<Rightarrow> ('e, 'db) query_opt \<Rightarrow> ('e, 'db) query_one \<Rightarrow>
      postgres_config \<Rightarrow> ('e, 'db) setup_step" where
  "run_setup_queries as_db_error execute query_opt query_one config =
    and_continue (exec execute (table_queries ! 0))
    (and_continue (exec execute (table_queries ! 1))
    (and_continue (exec execute (table_queries ! 2))
    (and_continue (exec execute (table_queries ! 3))
    (and_continue (ensure_publication as_db_error execute (publication_name config))
      (ensure_replication_slot query_opt query_one config)))))"

text \<open>
  Connecting hands the URL to the client library, unparsed; the task that drives the connection only
  logs how it ends.
\<close>

definition connect ::
    "(string \<Rightarrow> 'db \<Rightarrow> ('e + unit) \<times> 'db) \<Rightarrow> postgres_config \<Rightarrow> 'db \<Rightarrow> ('e + unit) \<times> 'db" where
  "connect tokio_connect config db =
    (case tokio_connect (database_url config) db of
       (Inl err, db') \<Rightarrow> (Inl err, db')
     | (Inr client, db') \<Rightarrow> (Inr client, db'))"

definition setup_postgres ::
    "(string \<Rightarrow> 'db \<Rightarrow> ('e + unit) \<times> 'db) \<Rightarrow> ('e \<Rightarrow> db_error option) \<Rightarrow> ('e, 'db) execute \<Rightarrow>
      ('e, 'db) query_opt \<Rightarrow> ('e, 'db) query_one \<Rightarrow> postgres_config \<Rightarrow> ('e, 'db) setup_step" where
  "setup_postgres tokio_connect as_db_error execute query_opt query_one config db =
    (case connect tokio_connect config db of
       (Inl err, db') \<Rightarrow> (Inl (ConnectionFailed err), db')
     | (Inr u, db') \<Rightarrow> run_setup_queries as_db_error execute query_opt query_one config db')"

lemma and_continue_ok:
  "and_continue p q db = (Inr (), db'') \<longleftrightarrow> (\<exists>db'. p db = (Inr (), db') \<and> q db' = (Inr (), db''))"
  by (auto simp: and_continue_def split: prod.splits sum.splits)

lemma and_continue_fails:
  "and_continue p q db = (Inl e, db'') \<longleftrightarrow>
    p db = (Inl e, db'') \<or> (\<exists>db'. p db = (Inr (), db') \<and> q db' = (Inl e, db''))"
  by (auto simp: and_continue_def split: prod.splits sum.splits)

section \<open>What PostgreSQL promises of the statements\<close>

text \<open>
  The text of an operator's setting becomes an SQL identifier: \<open>named p\<close> is the name PostgreSQL reads
  in it (an unquoted one is folded to lower case), if the statement is one at all. \<open>up\<close> says that the
  connection works and the role has the rights the statements need: then the statements that say
  \<^verbatim>\<open>IF NOT EXISTS\<close> and the repeated \<^verbatim>\<open>ALTER\<close> succeed, and creating a publication that exists is
  refused with the code of a duplicate object.
\<close>

locale setup_database =
  fixes as_db_error :: "'e \<Rightarrow> db_error option"
    and execute :: "('e, 'db) execute"
    and query_opt :: "('e, 'db) query_opt"
    and query_one :: "('e, 'db) query_one"
    and named :: "string \<Rightarrow> string option"
    and up :: "'db \<Rightarrow> bool"
    and publications :: "'db \<Rightarrow> string set"
    and slots :: "'db \<Rightarrow> string set"
  assumes table_query:
      "q \<in> set table_queries \<Longrightarrow> publications (snd (execute q db)) = publications db
        \<and> slots (snd (execute q db)) = slots db"
    and table_repeated: "q \<in> set table_queries \<Longrightarrow> up db \<Longrightarrow> \<exists>u db'. execute q db = (Inr u, db') \<and> up db'"
    and publication_created:
      "execute (create_publication p) db = (Inr u, db') \<Longrightarrow>
        \<exists>n. named p = Some n \<and> publications db' = insert n (publications db) \<and> slots db' = slots db"
    and publication_refused:
      "execute (create_publication p) db = (Inl e, db') \<Longrightarrow>
        publications db' = publications db \<and> slots db' = slots db
        \<and> (map_option db_code (as_db_error e) = Some ''42710'' \<longrightarrow> (\<exists>n. named p = Some n \<and> n \<in> publications db))"
    and publication_exists:
      "named p = Some n \<Longrightarrow> n \<in> publications db \<Longrightarrow> up db \<Longrightarrow>
        \<exists>e db'. execute (create_publication p) db = (Inl e, db') \<and> up db'
          \<and> map_option db_code (as_db_error e) = Some ''42710''"
    and slot_queried:
      "query_opt slot_exists_query s db = (r, db') \<Longrightarrow>
        publications db' = publications db \<and> slots db' = slots db \<and> (r = Inr b \<longrightarrow> b = (s \<in> slots db))
        \<and> (up db \<longrightarrow> (\<exists>b. r = Inr b))"
    and slot_created:
      "query_one create_slot_query s db = (Inr row, db') \<Longrightarrow>
        publications db' = publications db \<and> slots db' = insert s (slots db)"
    and slot_refused:
      "query_one create_slot_query s db = (Inl e, db') \<Longrightarrow>
        publications db' = publications db \<and> slots db' = slots db"
begin

lemma exec_table:
  assumes "exec execute q db = (r, db')" "q \<in> set table_queries"
  shows "publications db' = publications db \<and> slots db' = slots db"
  using assms table_query [of q db]
  by (cases "execute q db") (auto simp: exec_def split: sum.splits)

lemma exec_repeated:
  assumes "up db" "q \<in> set table_queries"
  obtains db' where "exec execute q db = (Inr (), db')" "up db'"
    "publications db' = publications db" "slots db' = slots db"
proof -
  from table_repeated [OF assms(2,1)] obtain db' where "exec execute q db = (Inr (), db')" "up db'"
    by (auto simp: exec_def)
  with exec_table [OF this(1) assms(2)] that show thesis by blast
qed

lemma duplicate_iff:
  "is_duplicate_object as_db_error e \<longleftrightarrow> map_option db_code (as_db_error e) = Some ''42710''"
  by (auto simp: is_duplicate_object_def split: option.split)

lemma ensure_publication_ok:
  assumes "ensure_publication as_db_error execute p db = (Inr (), db')"
  shows "\<exists>n. named p = Some n \<and> publications db' = insert n (publications db) \<and> slots db' = slots db"
proof (cases "execute (create_publication p) db")
  case (Pair r db1)
  show ?thesis
  proof (cases r)
    case (Inl e)
    with Pair assms have "is_duplicate_object as_db_error e" "db' = db1"
      by (auto simp: ensure_publication_def exec_def split: if_splits)
    then show ?thesis
      using publication_refused [of p db e db1] Pair Inl by (auto simp: duplicate_iff)
  next
    case (Inr u)
    with Pair assms show ?thesis
      using publication_created [of p db u db1] by (simp add: ensure_publication_def exec_def)
  qed
qed

text \<open>A publication that exists is not an error.\<close>

lemma ensure_publication_known:
  assumes "named p = Some n" "n \<in> publications db" "up db"
  obtains db' where "ensure_publication as_db_error execute p db = (Inr (), db')" "up db'"
    "publications db' = publications db" "slots db' = slots db"
proof -
  from publication_exists [OF assms] obtain e db' where refused: "execute (create_publication p) db = (Inl e, db')"
    "up db'" "map_option db_code (as_db_error e) = Some ''42710''" by blast
  then have "ensure_publication as_db_error execute p db = (Inr (), db')"
    by (simp add: ensure_publication_def exec_def duplicate_iff)
  with refused publication_refused [OF refused(1)] that show thesis by blast
qed

lemma ensure_slot_ok:
  assumes "ensure_replication_slot query_opt query_one config db = (Inr (), db')"
  shows "publications db' = publications db \<and> slots db' = insert (slot_name config) (slots db)"
proof -
  obtain r db1 where q: "query_opt slot_exists_query (slot_name config) db = (r, db1)"
    by (metis surj_pair)
  then obtain b where b: "r = Inr b"
    using assms by (cases r) (auto simp: ensure_replication_slot_def Let_def)
  note kept = slot_queried [OF q, of b]
  show ?thesis
  proof (cases b)
    case True
    with assms q b kept show ?thesis by (auto simp: ensure_replication_slot_def Let_def)
  next
    case False
    obtain row db2 where one: "query_one create_slot_query (slot_name config) db1 = (row, db2)"
      by (metis surj_pair)
    with assms q b False obtain x where "row = Inr x" "db' = db2"
      by (cases row) (auto simp: ensure_replication_slot_def Let_def)
    then show ?thesis using slot_created [of "slot_name config" db1 x db2] one kept by simp
  qed
qed

text \<open>An existing slot is never created again.\<close>

lemma ensure_slot_known:
  assumes "slot_name config \<in> slots db" "up db"
  obtains db' where "ensure_replication_slot query_opt query_one config db = (Inr (), db')"
    "publications db' = publications db" "slots db' = slots db"
proof -
  obtain r db1 where q: "query_opt slot_exists_query (slot_name config) db = (r, db1)"
    by (metis surj_pair)
  with slot_queried [OF q] assms have kept: "r = Inr True" "publications db1 = publications db" "slots db1 = slots db"
    by auto
  then have "ensure_replication_slot query_opt query_one config db = (Inr (), db1)"
    by (simp add: ensure_replication_slot_def q)
  with kept that show thesis by blast
qed

lemma table_query_in: "i < 4 \<Longrightarrow> table_queries ! i \<in> set table_queries"
  by (intro nth_mem) (simp add: table_queries_def)

text \<open>After a setup that succeeded the publication and the slot exist; nothing else changed.\<close>

lemma setup_ok:
  assumes "run_setup_queries as_db_error execute query_opt query_one config db = (Inr (), db')"
  shows "\<exists>n. named (publication_name config) = Some n \<and> publications db' = insert n (publications db)
    \<and> slots db' = insert (slot_name config) (slots db)"
proof -
  from assms obtain d1 d2 d3 d4 d5 where run:
    "exec execute (table_queries ! 0) db = (Inr (), d1)" "exec execute (table_queries ! 1) d1 = (Inr (), d2)"
    "exec execute (table_queries ! 2) d2 = (Inr (), d3)" "exec execute (table_queries ! 3) d3 = (Inr (), d4)"
    "ensure_publication as_db_error execute (publication_name config) d4 = (Inr (), d5)"
    "ensure_replication_slot query_opt query_one config d5 = (Inr (), db')"
    unfolding run_setup_queries_def and_continue_ok by blast
  have "publications d4 = publications db \<and> slots d4 = slots db"
    using exec_table [OF run(1)] exec_table [OF run(2)] exec_table [OF run(3)] exec_table [OF run(4)]
      table_query_in by simp
  then show ?thesis
    using ensure_publication_ok [OF run(5)] ensure_slot_ok [OF run(6)] by auto
qed

text \<open>A setup that finds its publication and its slot succeeds, and changes nothing.\<close>

lemma setup_again:
  assumes "up db" "named (publication_name config) = Some n" "n \<in> publications db" "slot_name config \<in> slots db"
  shows "\<exists>db'. run_setup_queries as_db_error execute query_opt query_one config db = (Inr (), db')
    \<and> publications db' = publications db \<and> slots db' = slots db"
proof -
  obtain d1 where d1: "exec execute (table_queries ! 0) db = (Inr (), d1)" "up d1"
    "publications d1 = publications db" "slots d1 = slots db"
    using exec_repeated [OF assms(1) table_query_in] by (metis zero_less_numeral)
  obtain d2 where d2: "exec execute (table_queries ! 1) d1 = (Inr (), d2)" "up d2"
    "publications d2 = publications db" "slots d2 = slots db"
    using exec_repeated [OF d1(2) table_query_in [of 1]] d1 by auto
  obtain d3 where d3: "exec execute (table_queries ! 2) d2 = (Inr (), d3)" "up d3"
    "publications d3 = publications db" "slots d3 = slots db"
    using exec_repeated [OF d2(2) table_query_in [of 2]] d2 by auto
  obtain d4 where d4: "exec execute (table_queries ! 3) d3 = (Inr (), d4)" "up d4"
    "publications d4 = publications db" "slots d4 = slots db"
    using exec_repeated [OF d3(2) table_query_in [of 3]] d3 by auto
  obtain d5 where d5: "ensure_publication as_db_error execute (publication_name config) d4 = (Inr (), d5)" "up d5"
    "publications d5 = publications db" "slots d5 = slots db"
    using ensure_publication_known [OF assms(2) _ d4(2)] assms(3) d4 by metis
  obtain d6 where d6: "ensure_replication_slot query_opt query_one config d5 = (Inr (), d6)"
    "publications d6 = publications db" "slots d6 = slots db"
    using ensure_slot_known [OF _ d5(2)] assms(4) d5 by metis
  show ?thesis
    by (intro exI [of _ d6])
      (simp only: run_setup_queries_def and_continue_def d1 d2 d3 d4 d5 d6 prod.case sum.case simp_thms)
qed

end

section \<open>A reference database\<close>

text \<open>Connected or not; names are plain identifiers, folded to lower case.\<close>

record ref_db =
  ref_up :: bool
  ref_publications :: "string list"
  ref_slots :: "string list"

definition ref_upper :: "char \<Rightarrow> bool" where
  "ref_upper c \<longleftrightarrow> (of_char c :: nat) \<in> {65..90}"

definition ref_lower :: "char \<Rightarrow> char" where
  "ref_lower c = (if ref_upper c then char_of (of_char c + 32 :: nat) else c)"

definition ref_named :: "string \<Rightarrow> string option" where
  "ref_named p =
    (if p \<noteq> [] \<and> (\<forall>c \<in> set p. ref_upper c \<or> (of_char c :: nat) \<in> insert 95 {97..122})
     then Some (map ref_lower p) else None)"

definition coded_error :: "string \<Rightarrow> db_error" where
  "coded_error code = \<lparr>db_code = code, db_message = ''refused'', db_detail = None, db_hint = None\<rparr>"

definition ref_execute :: "(db_error, ref_db) execute" where
  "ref_execute q db =
    (if \<not> ref_up db then (Inl (coded_error ''08006''), db)
     else if prefix ''CREATE PUBLICATION '' q then
       (case ref_named (take (length q - 49) (drop 19 q)) of
          None \<Rightarrow> (Inl (coded_error ''42601''), db)
        | Some n \<Rightarrow>
            if n \<in> set (ref_publications db) then (Inl (coded_error ''42710''), db)
            else (Inr (), db\<lparr>ref_publications := n # ref_publications db\<rparr>))
     else (Inr (), db))"

definition ref_query_opt :: "(db_error, ref_db) query_opt" where
  "ref_query_opt q s db =
    (if ref_up db then (Inr (s \<in> set (ref_slots db)), db) else (Inl (coded_error ''08006''), db))"

definition ref_query_one :: "(db_error, ref_db) query_one" where
  "ref_query_one q s db =
    (if ref_up db then (Inr (s, ''0/0''), db\<lparr>ref_slots := s # ref_slots db\<rparr>)
     else (Inl (coded_error ''08006''), db))"

lemma ref_execute_publication:
  "ref_execute (create_publication p) db =
    (if \<not> ref_up db then (Inl (coded_error ''08006''), db)
     else case ref_named p of
        None \<Rightarrow> (Inl (coded_error ''42601''), db)
      | Some n \<Rightarrow>
          if n \<in> set (ref_publications db) then (Inl (coded_error ''42710''), db)
          else (Inr (), db\<lparr>ref_publications := n # ref_publications db\<rparr>))"
  by (simp add: ref_execute_def create_publication_def)

lemma ref_execute_table:
  "q \<in> set table_queries \<Longrightarrow>
    ref_execute q db = (if ref_up db then Inr () else Inl (coded_error ''08006''), db)"
  by (auto simp: table_queries_def ref_execute_def)

interpretation ref_setup: setup_database Some ref_execute ref_query_opt ref_query_one ref_named ref_up
  "\<lambda>db. set (ref_publications db)" "\<lambda>db. set (ref_slots db)"
  by unfold_locales
    (auto simp: ref_execute_table ref_execute_publication ref_query_opt_def ref_query_one_def
      coded_error_def split: if_splits option.splits)

end
