(* ===== verification/Wal_Start.thy ===== *)
theory Wal_Start
  imports Wal_Handle Pg_Setup Pg_Wire Wal_Delivery "HOL-Library.Monad_Syntax"
begin

text \<open>
  How the WAL reader comes up (\<^verbatim>\<open>src/wal/replication.rs\<close>), the capture tool that reads the same
  stream into a file (\<^verbatim>\<open>src/bin/capture_pgoutput.rs\<close>), and the metrics endpoint. Connecting to PostgreSQL is the clients' business, so the outcome is an
  argument; the replication client is started with a fixed configuration.
\<close>

section \<open>The replication configuration\<close>

record replication_config =
  rc_host :: string
  rc_port :: u16
  rc_user :: string
  rc_password :: string
  rc_database :: string
  rc_tls :: bool
  rc_slot :: string
  rc_publication :: string
  rc_start_lsn :: u64
  rc_stop_at_lsn :: "u64 option"
  rc_status_interval_ms :: nat
  rc_idle_wakeup_interval_ms :: nat
  rc_buffer_events :: nat

definition repl_config :: "postgres_config \<Rightarrow> connection_info \<Rightarrow> replication_config" where
  "repl_config config conn =
    \<lparr>rc_host = conn_host conn, rc_port = conn_port conn, rc_user = conn_user conn,
     rc_password = (case conn_password conn of None \<Rightarrow> [] | Some p \<Rightarrow> p),
     rc_database = conn_database conn, rc_tls = False,
     rc_slot = slot_name config, rc_publication = publication_name config,
     rc_start_lsn = 0, rc_stop_at_lsn = None,
     rc_status_interval_ms = 10000, rc_idle_wakeup_interval_ms = 10000, rc_buffer_events = 8192\<rparr>"

section \<open>The actor\<close>

text \<open>
  The whole task: it gives up before the loop when the URL does not parse or the replication client
  cannot connect; a failed connection for the slot health only leaves the polls out.
\<close>

definition reader_connect ::
    "(string \<Rightarrow> 'u + parsed_url) \<Rightarrow> (replication_config \<Rightarrow> 'e + unit) \<Rightarrow> (string \<Rightarrow> 'd + unit) \<Rightarrow>
      postgres_config \<Rightarrow> metrics \<Rightarrow> 'w \<Rightarrow> 'w wal_reader option" where
  "reader_connect url_parse repl_connect sql_connect config m w =
    (case connection_info_of url_parse config of
       Inl err \<Rightarrow> None
     | Inr conn \<Rightarrow>
         (case repl_connect (repl_config config conn) of
            Inl err \<Rightarrow> None
          | Inr _ \<Rightarrow>
              (let has_sql_client = (case sql_connect (database_url config) of Inl err \<Rightarrow> False | Inr _ \<Rightarrow> True)
               in Some (reader_start has_sql_client m w))))"

datatype 'w actor_end = GaveUp | Looped flow "'w wal_reader"

definition wal_reader_actor ::
    "(string \<Rightarrow> 'u + parsed_url) \<Rightarrow> (replication_config \<Rightarrow> 'e + unit) \<Rightarrow> (string \<Rightarrow> 'd + unit) \<Rightarrow>
      'w sink_send \<Rightarrow> postgres_config \<Rightarrow> reader_input list \<Rightarrow> metrics \<Rightarrow> 'w \<Rightarrow> 'w actor_end" where
  "wal_reader_actor url_parse repl_connect sql_connect send config inputs m w =
    (case reader_connect url_parse repl_connect sql_connect config m w of
       None \<Rightarrow> GaveUp
     | Some reader \<Rightarrow> (case reader_run send inputs reader of (f, s) \<Rightarrow> Looped f s))"

lemma reader_connect_None:
  "reader_connect url_parse repl_connect sql_connect config m w = None \<longleftrightarrow>
    (\<forall>conn. connection_info_of url_parse config = Inr conn \<longrightarrow> (\<exists>e. repl_connect (repl_config config conn) = Inl e))"
  by (auto simp: reader_connect_def Let_def split: sum.splits)

lemma reader_connect_start:
  "reader_connect url_parse repl_connect sql_connect config m w = Some reader \<Longrightarrow>
    \<exists>has_sql. reader = reader_start has_sql m w"
  by (auto simp: reader_connect_def Let_def split: sum.splits)

lemma gave_up_iff:
  "wal_reader_actor url_parse repl_connect sql_connect send config inputs m w = GaveUp \<longleftrightarrow>
    (\<forall>conn. connection_info_of url_parse config = Inr conn \<longrightarrow> (\<exists>e. repl_connect (repl_config config conn) = Inl e))"
  unfolding reader_connect_None [symmetric, where m = m and w = w and sql_connect = sql_connect]
  by (simp add: wal_reader_actor_def split: option.split prod.split)

text \<open>\<^verbatim>\<open>WalReaderHandle::start\<close>: a channel and its task.\<close>

definition wal_reader_handle_start :: "(nat \<Rightarrow> 'w \<Rightarrow> 'c \<times> 'w) \<Rightarrow> 'w \<Rightarrow> 'c wal_reader_handle \<times> 'w" where
  "wal_reader_handle_start channel w =
    (case channel wal_reader_channel_capacity w of (tx, w') \<Rightarrow> (\<lparr>reader_tx = tx\<rparr>, w'))"

definition debug_metrics_handler :: "('h, 'c) app_state \<Rightarrow> metrics_snapshot" where
  "debug_metrics_handler state = snapshot (app_metrics state)"

section \<open>The capture tool\<close>

record capture_args =
  cap_out :: string
  cap_max_xlog :: nat
  cap_timeout_secs :: nat
  cap_setup :: bool

definition default_capture_args :: capture_args where
  "default_capture_args = \<lparr>cap_out = ''tests/fixtures/pgoutput_capture.bin'', cap_max_xlog = 1,
    cap_timeout_secs = 30, cap_setup = True\<rparr>"

text \<open>
  One round: the instant compared with the deadline, and what the \<^verbatim>\<open>select!\<close> yields, \<open>None\<close>
  for the timer, which also fires when the rounds are used up. \<open>'f\<close> is the output file, \<open>write_all\<close>
  covers the write and the flush. The result is the number of payloads written, with the file.
\<close>

fun capture_loop ::
    "(u8 list \<Rightarrow> 'f \<Rightarrow> ('e + unit) \<times> 'f) \<Rightarrow> nat \<Rightarrow> nat \<Rightarrow>
      (nat \<times> ('e + replication_event option) option) list \<Rightarrow> nat \<Rightarrow> 'f \<Rightarrow> ('e + nat) \<times> 'f" where
  "capture_loop write_all max_xlog deadline [] written out = (Inr written, out)"
| "capture_loop write_all max_xlog deadline ((now, ev) # rounds) written out =
    (if \<not> written < max_xlog then (Inr written, out)
     else if deadline \<le> now then (Inr written, out)
     else
       (case ev of
          None \<Rightarrow> (Inr written, out)
        | Some (Inl e) \<Rightarrow> (Inl e, out)
        | Some (Inr (Some (XLogData d))) \<Rightarrow>
            (case write_all d out of
               (Inl e, out') \<Rightarrow> (Inl e, out')
             | (Inr u, out') \<Rightarrow> capture_loop write_all max_xlog deadline rounds (written + 1) out')
        | Some (Inr (Some _)) \<Rightarrow> capture_loop write_all max_xlog deadline rounds written out
        | Some (Inr None) \<Rightarrow> (Inr written, out)))"

text \<open>
  \<^verbatim>\<open>Path::parent\<close>: the path up to its last component, for paths without \<^verbatim>\<open>.\<close> components; the empty
  path and the root have none.
\<close>

definition path_parent :: "string \<Rightarrow> string option" where
  "path_parent path =
    (let slash = (\<lambda>c. c = CHR ''/'');
         trimmed = dropWhile slash (rev path);
         rest = dropWhile slash (dropWhile (Not \<circ> slash) trimmed)
     in if trimmed = [] then None
        else if rest = [] \<and> slash (hd path) then Some ''/''
        else Some (rev rest))"

definition create_parent :: "(string \<Rightarrow> 'e + unit) \<Rightarrow> string \<Rightarrow> 'e + unit" where
  "create_parent create_dir_all path =
    (case path_parent path of
       None \<Rightarrow> Inr ()
     | Some parent \<Rightarrow> if parent = [] then Inr () else create_dir_all parent)"

text \<open>
  The program: setup, directory, file, URL, connection, loop; an error anywhere ends it without a
  stop.
\<close>

definition capture_main ::
    "(string \<Rightarrow> 'e + parsed_url) \<Rightarrow> (postgres_config \<Rightarrow> 'e + unit) \<Rightarrow> (string \<Rightarrow> 'e + unit) \<Rightarrow>
      (string \<Rightarrow> 'e + 'f) \<Rightarrow> (replication_config \<Rightarrow> 'e + unit) \<Rightarrow> (u8 list \<Rightarrow> 'f \<Rightarrow> ('e + unit) \<times> 'f) \<Rightarrow> capture_args \<Rightarrow>
      (string \<Rightarrow> string option) \<Rightarrow> nat \<Rightarrow> (nat \<times> ('e + replication_event option) option) list \<Rightarrow>
      'e + 'f \<times> nat \<times> repl_call list" where
  "capture_main url_parse setup create_dir_all create repl_connect write_all args env start rounds =
    (let pg_config = from_env env in
     case (if cap_setup args then setup pg_config else Inr ()) of
       Inl e \<Rightarrow> Inl e
     | Inr _ \<Rightarrow>
    (case create_parent create_dir_all (cap_out args) of
       Inl e \<Rightarrow> Inl e
     | Inr _ \<Rightarrow>
    (case create (cap_out args) of
       Inl e \<Rightarrow> Inl e
     | Inr out \<Rightarrow>
    (case connection_info_of url_parse pg_config of
       Inl e \<Rightarrow> Inl e
     | Inr conn \<Rightarrow>
    (case repl_connect (repl_config pg_config conn) of
       Inl e \<Rightarrow> Inl e
     | Inr _ \<Rightarrow>
    (case capture_loop write_all (cap_max_xlog args) (start + cap_timeout_secs args) rounds 0 out of
       (Inl e, out') \<Rightarrow> Inl e
     | (Inr written, out') \<Rightarrow> Inr (out', written, [ReplStop])))))))"

lemma parent_of_default: "path_parent (cap_out default_capture_args) = Some ''tests/fixtures''"
  by (simp add: path_parent_def default_capture_args_def)

text \<open>The payloads of the rounds before the loop ends, and what a reliable file then holds.\<close>

fun captured :: "nat \<Rightarrow> (nat \<times> ('e + replication_event option) option) list \<Rightarrow> u8 list list" where
  "captured deadline [] = []"
| "captured deadline ((now, ev) # rounds) =
    (if deadline \<le> now then []
     else
       (case ev of
          Some (Inr (Some (XLogData d))) \<Rightarrow> d # captured deadline rounds
        | Some (Inr (Some _)) \<Rightarrow> captured deadline rounds
        | _ \<Rightarrow> []))"

lemma capture_written:
  assumes "\<And>d out. write_all d out = (Inr (), out @ d)"
    and "capture_loop write_all max_xlog deadline rounds written out = (Inr n, out')"
    and "written \<le> max_xlog"
  shows "out' = out @ concat (take (max_xlog - written) (captured deadline rounds))
    \<and> n = written + length (take (max_xlog - written) (captured deadline rounds))"
  using assms(2,3)
proof (induction rounds arbitrary: written out)
  case (Cons r rounds)
  obtain now ev where r: "r = (now, ev)" by (cases r)
  show ?case
  proof (cases "written < max_xlog \<and> now < deadline \<and> (\<exists>d. ev = Some (Inr (Some (XLogData d))))")
    case True
    then obtain d where ev: "ev = Some (Inr (Some (XLogData d)))" by blast
    with True r Cons.prems(1) have "capture_loop write_all max_xlog deadline rounds (written + 1) (out @ d) = (Inr n, out')"
      using assms(1) [of d out] by simp
    from Cons.IH [OF this] True have IH:
      "out' = (out @ d) @ concat (take (max_xlog - (written + 1)) (captured deadline rounds))
        \<and> n = written + 1 + length (take (max_xlog - (written + 1)) (captured deadline rounds))" by simp
    have "max_xlog - written = Suc (max_xlog - (written + 1))" using True by (simp add: Suc_diff_Suc)
    with IH True r ev show ?thesis by simp
  next
    case False
    with Cons r show ?thesis
      by (cases ev) (auto split: if_splits sum.splits option.splits replication_event.splits)
  qed
qed simp

section \<open>The gauges of the slot\<close>

definition slot_gauges :: "metrics \<Rightarrow> u64 \<times> u64 \<times> u64" where
  "slot_gauges m = (wal_slot_active m, wal_retained_bytes m, wal_lag_seconds m)"

lemma slot_gauges_deliver [simp]: "slot_gauges (fst (deliver_loop send t routed m w)) = slot_gauges m"
  by (simp add: deliver_loop_outcomes slot_gauges_def add_dropped_def split: prod.split)

lemma slot_gauges_commit: "slot_gauges (wal_metrics (handle_commit send env lsn s)) = slot_gauges (wal_metrics s)"
proof (cases "wal_transaction s")
  case None
  then show ?thesis by (simp add: handle_commit_def Let_def slot_gauges_def set_wal_lsn_def)
next
  case (Some tx)
  let ?d = "deliver_loop send (ce_now env)
    (map_entries (ce_room_order env) (route (ce_hint_order env) (fst (take_hints tx)))) (wal_metrics s) (wal_world s)"
  from Some have "wal_metrics (handle_commit send env lsn s) = set_wal_lsn lsn (fst ?d)"
    by (simp add: handle_commit_def Let_def split: prod.split)
  then show ?thesis
    using slot_gauges_deliver [of send "ce_now env"] by (simp add: slot_gauges_def set_wal_lsn_def)
qed

text \<open>Without the SQL client no input touches them.\<close>

lemma slot_gauges_step:
  assumes "\<not> wal_has_sql_client s"
  shows "slot_gauges (wal_metrics (snd (reader_step send i s))) = slot_gauges (wal_metrics s)
    \<and> \<not> wal_has_sql_client (snd (reader_step send i s))"
proof (cases "(send, i, s)" rule: reader_step.cases)
  case (3 send' env d s')
  have "slot_gauges (wal_metrics (after_events evs r s)) = slot_gauges (wal_metrics s)
      \<and> wal_has_sql_client (after_events evs r s) = wal_has_sql_client s" for evs r
    by (cases "wal_transaction s") (simp_all add: after_events_def add_consumed_def slot_gauges_def)
  with 3 assms show ?thesis
    by (simp add: handle_xlog_data_def messages_loop_eq split: sum.split prod.split)
qed (use assms slot_gauges_commit in \<open>simp_all\<close>)

lemma slot_gauges_run:
  "\<not> wal_has_sql_client s \<Longrightarrow>
    slot_gauges (wal_metrics (snd (reader_run send is s))) = slot_gauges (wal_metrics s)"
proof (induction "is" arbitrary: s)
  case (Cons i "is")
  obtain f s' where s': "reader_step send i s = (f, s')" by (cases "reader_step send i s")
  with slot_gauges_step [OF Cons.prems, of send i] Cons.IH [of s'] show ?case by (cases f) simp_all
qed simp

end
