(* ===== verification/Wal_Typing.thy ===== *)
theory Wal_Typing
  imports Pg_Wire Wal_Delivery
begin

text \<open>
  The strings of the model are lists of bytes; a Rust \<open>String\<close> is UTF-8. This theory shows that every
  string of the WAL pipeline is one, from the messages of a payload over the relation table and the
  events to the buffered hints, and that no value is ever an integer.
\<close>

section \<open>Messages\<close>

text \<open>
  What every parsed message is like: at most 65535 columns, values that are null or UTF-8 text below
  \<open>2 ^ 31\<close> bytes (never an integer), names without a NUL byte.
\<close>

definition typed_text :: "string \<Rightarrow> bool" where
  "typed_text s \<longleftrightarrow> utf8_valid (as_bytes s) \<and> length s < 2 ^ 31"

fun typed_value :: "wal_value \<Rightarrow> bool" where
  "typed_value Null \<longleftrightarrow> True"
| "typed_value (Text s) \<longleftrightarrow> typed_text s"
| "typed_value (IntVal v) \<longleftrightarrow> False"

abbreviation typed_values :: "wal_value list \<Rightarrow> bool" where
  "typed_values \<equiv> wf_counted typed_value"

fun typed_message :: "pg_output_message \<Rightarrow> bool" where
  "typed_message (MsgRelation rel) \<longleftrightarrow>
    wf_cstring (rel_namespace rel) \<and> wf_cstring (rel_name rel) \<and> wf_counted wf_cstring (rel_columns rel)"
| "typed_message (MsgInsert i new) \<longleftrightarrow> typed_values new"
| "typed_message (MsgUpdate i old new) \<longleftrightarrow> (\<forall>vs \<in> set_option old. typed_values vs) \<and> typed_values new"
| "typed_message (MsgDelete i old) \<longleftrightarrow> typed_values old"

lemma typed_value_of: "wf_wire_value v \<Longrightarrow> typed_value (value_of v)"
  by (cases v) (simp_all add: typed_text_def)

lemma typed_wire_tuple: "wf_wire_tuple vs \<Longrightarrow> typed_values (map value_of vs)"
  by (auto simp: wf_counted_def list_all_iff typed_value_of)

lemma typed_message_of: "wf_wire_message w \<Longrightarrow> typed_message (message_of w)"
proof (cases w)
  case (WRelation r)
  then show "wf_wire_message w \<Longrightarrow> ?thesis"
    by (auto simp: wf_wire_relation_def relation_of_def wf_counted_def list_all_iff wf_wire_column_def)
next
  case (WUpdate i os new)
  moreover have "list_all wf_wire_old os \<Longrightarrow> vs \<in> set_option (last_old None os) \<Longrightarrow> typed_values vs" for vs
    using last_in_set [of os]
    by (auto simp: last_old_def wf_wire_old_def list_all_iff intro!: typed_wire_tuple split: if_splits)
  ultimately show "wf_wire_message w \<Longrightarrow> ?thesis" by (simp add: typed_wire_tuple)
qed (simp_all add: typed_wire_tuple wf_wire_old_def)

lemma parsed_typed: "parse_pgoutput_messages d = Inr ms \<Longrightarrow> list_all typed_message ms"
  unfolding parse_iff_wire by (auto simp: list_all_iff typed_message_of)

section \<open>Relations and events\<close>

definition typed_relation :: "relation \<Rightarrow> bool" where
  "typed_relation rel \<longleftrightarrow> typed_message (MsgRelation rel)"

definition typed_table :: "relation_table \<Rightarrow> bool" where
  "typed_table relations \<longleftrightarrow> (\<forall>k rel. fmlookup relations k = Some rel \<longrightarrow> typed_relation rel)"

definition typed_tuple :: "tuple_data \<Rightarrow> bool" where
  "typed_tuple t \<longleftrightarrow> (\<forall>c v. column_of t c = Some v \<longrightarrow> wf_cstring c \<and> typed_value v)"

fun typed_event :: "wal_event \<Rightarrow> bool" where
  "typed_event (EvInsert i n new) \<longleftrightarrow> wf_cstring n \<and> typed_tuple new"
| "typed_event (EvUpdate i n old new) \<longleftrightarrow> wf_cstring n \<and> (\<forall>t \<in> set_option old. typed_tuple t) \<and> typed_tuple new"
| "typed_event (EvDelete i n old) \<longleftrightarrow> wf_cstring n \<and> typed_tuple old"

lemma typed_from_values:
  assumes "typed_relation rel" "typed_values vs"
  shows "typed_tuple (from_values (rel_columns rel) vs)"
  unfolding typed_tuple_def
proof (intro allI impI)
  fix c v
  assume v: "column_of (from_values (rel_columns rel) vs) c = Some v"
  then have c: "c \<in> set (rel_columns rel)" by (metis from_values_dom option.distinct(1))
  then obtain before after where split: "rel_columns rel = before @ c # after" "c \<notin> set after"
    by (metis split_list_last)
  with from_values_lookup [OF split(2), of before vs] v have "v = value_at vs (length before)" by simp
  then have "typed_value v"
    using assms(2) by (auto simp: value_at_def wf_counted_def list_all_length)
  moreover have "wf_cstring c"
    using assms(1) c by (auto simp: typed_relation_def wf_counted_def list_all_iff)
  ultimately show "wf_cstring c \<and> typed_value v" by blast
qed

lemma convert_typed:
  assumes "typed_table relations" "typed_message msg"
    and "pgoutput_to_wal_event relations msg = (res, relations')"
  shows "typed_table relations'" and "res = Inr (Some ev) \<Longrightarrow> typed_event ev"
proof -
  have known: "typed_relation rel" if "fmlookup relations k = Some rel" for k rel
    using assms(1) that by (simp add: typed_table_def)
  show "typed_table relations'"
    using assms known
    by (cases msg) (auto simp: typed_table_def typed_relation_def Let_def split: option.splits if_splits)
  have name: "wf_cstring (rel_name rel)" if "typed_relation rel" for rel
    using that by (simp add: typed_relation_def)
  show "typed_event ev" if "res = Inr (Some ev)"
    using assms(2,3) that
    by (cases msg) (auto simp: Let_def name known typed_from_values split: option.splits if_splits)
qed

lemma convert_messages_typed:
  assumes "typed_table relations" "list_all typed_message msgs"
    and "convert_messages relations msgs = (evs, changed, r)"
  shows "typed_table r \<and> list_all typed_event evs"
  using assms
proof (induction msgs arbitrary: relations evs changed r)
  case (Cons msg msgs)
  obtain res relations' where conv: "pgoutput_to_wal_event relations msg = (res, relations')"
    by (metis surj_pair)
  note step = convert_typed [OF Cons.prems(1) _ conv]
  obtain evs' changed' r' where rest: "convert_messages relations' msgs = (evs', changed', r')"
    by (metis prod_cases3)
  show ?case
    using Cons.IH [OF _ _ rest] Cons.prems step conv rest
    by (auto split: sum.splits option.splits pg_output_conversion_error.splits)
qed simp

section \<open>Hints\<close>

lemma typed_column: "typed_tuple t \<Longrightarrow> column_of t c = Some (Text s) \<Longrightarrow> typed_text s"
  unfolding typed_tuple_def by fastforce

lemma typed_touched: "typed_event ev \<Longrightarrow> h \<in> touched_hints ev \<Longrightarrow> typed_text (hint_value h)"
  by (cases ev)
    (auto simp: touched_hints_def comment_versions_def dest: typed_column split: option.splits)

lemma typed_hints: "list_all typed_event evs \<Longrightarrow> h \<in> transaction_hints evs \<Longrightarrow> typed_text (hint_value h)"
  by (auto simp: transaction_hints_def list_all_iff dest: typed_touched)

text \<open>The state of the reader, over any run.\<close>

definition typed_reader :: "'w wal_reader \<Rightarrow> bool" where
  "typed_reader s \<longleftrightarrow> typed_table (wal_relations s)
    \<and> (\<forall>b \<in> set_option (wal_transaction s). \<forall>h \<in> fset (tx_hints b). typed_text (hint_value h))"

lemma buffered_typed:
  "list_all typed_event evs \<Longrightarrow> h \<in> fset (tx_hints (buffer_events evs b)) \<Longrightarrow>
    h \<in> fset (tx_hints b) \<or> typed_text (hint_value h)"
  by (auto simp: buffer_events_def tx_hints_add_all set_event_hints list_all_iff dest: typed_touched
      split: if_splits)

lemma reader_step_typed:
  assumes "typed_reader s"
  shows "typed_reader (snd (reader_step send i s))"
proof (cases "(send, i, s)" rule: reader_step.cases)
  case (3 send' env d s0)
  show ?thesis
  proof (cases "parse_pgoutput_messages d")
    case (Inl e)
    with 3 assms show ?thesis by (simp add: handle_xlog_data_def)
  next
    case (Inr ms)
    obtain evs changed r where conv: "convert_messages (wal_relations s) ms = (evs, changed, r)"
      by (metis prod_cases3)
    have typed: "typed_table r" "list_all typed_event evs"
      using convert_messages_typed [OF _ parsed_typed [OF Inr] conv] assms by (simp_all add: typed_reader_def)
    have "snd (reader_step send i s) = after_events evs r s"
      using 3 Inr conv by (simp add: handle_xlog_data_def messages_loop_eq)
    with typed buffered_typed [OF typed(2)] assms show ?thesis
      by (fastforce simp: typed_reader_def after_events_def)
  qed
qed (use assms in \<open>auto simp: typed_reader_def empty_buffer_def\<close>)

lemma reader_run_typed: "typed_reader s \<Longrightarrow> typed_reader (snd (reader_run send is s))"
proof (induction "is" arbitrary: s)
  case (Cons i "is")
  obtain f s' where step: "reader_step send i s = (f, s')" by (cases "reader_step send i s")
  with reader_step_typed [OF Cons.prems, of send i] have "typed_reader s'" by simp
  with step Cons.IH show ?case by (cases f) simp_all
qed simp

lemma reader_start_typed: "typed_reader (reader_start has_sql m w)"
  by (simp add: typed_reader_def reader_start_def typed_table_def)

end
