(* ===== verification/Wal_Properties.thy ===== *)
theory Wal_Properties
  imports Pg_Truncation Fixture_Rows Wal_Start Wal_Typing
begin

text \<open>
  The properties of the WAL pipeline: what the parser accepts and how it fails, the conversion to
  events with the table of relations, the hints of a change and their routing, and the reader. Each
  property rests on the lemmas of its component; concrete inputs are the captured payload and the
  rows it holds.
\<close>

section \<open>The parser\<close>

text \<open>
  C4. The parser accepts exactly the pgoutput grammar: a payload parses to a list of messages if and
  only if it is the encoding of well-formed wire messages, and the result is what the program keeps
  of them, in order. It never accepts a damaged payload and never rejects a well-formed one.
\<close>

theorem parser_accepts_grammar:
  "parse_pgoutput_messages d = Inr ms \<longleftrightarrow>
    (\<exists>ws. list_all wf_wire_message ws \<and> ms = map message_of ws \<and> d = concat (map enc_wire_message ws))"
  by (rule parse_iff_wire)

text \<open>
  C21. A payload cut short is never misread: whatever prefix of a valid payload arrives, the parser
  reports a truncation or returns the messages that are complete in the prefix, and no others.
\<close>

theorem cut_payload_is_seen:
  assumes "parse_pgoutput_messages (d @ ext) = Inr ms"
  shows "(\<exists>ctx. parse_pgoutput_messages d = Inl (Truncated ctx))
    \<or> (\<exists>n. parse_pgoutput_messages d = Inr (take n ms))"
  by (rule cut_payload [OF assms])

theorem cut_payload_is_seen_witness:
  "(\<exists>ctx. parse_pgoutput_messages (take 100 fixture_bytes) = Inl (Truncated ctx))
    \<or> (\<exists>n. parse_pgoutput_messages (take 100 fixture_bytes) = Inr (take n (map message_of fixture_wire)))"
  by (rule cut_payload_is_seen [of _ "drop 100 fixture_bytes"]) (simp add: fixture_parsed)

text \<open>
  C27. A payload is all or nothing: an unknown tag after any number of well-formed messages makes the
  whole payload an error that names the byte, however the payload goes on.
\<close>

theorem unknown_tag_rejects_payload:
  assumes "b \<notin> {tag CHR ''R'', tag CHR ''I'', tag CHR ''U'', tag CHR ''D''}"
    and "list_all wf_wire_message ws"
  shows "parse_pgoutput_messages (concat (map enc_wire_message ws) @ b # bs) = Inl (UnknownMessageTag b)"
  by (rule unknown_tag_anywhere [OF assms])

theorem unknown_tag_rejects_payload_witness:
  "parse_pgoutput_messages (fixture_bytes @ [88, 1, 2]) = Inl (UnknownMessageTag 88)"
  using unknown_tag_rejects_payload [OF _ fixture_wf, of 88 "[1, 2]"]
  by (simp add: fixture_encoded byte_of_Char)

text \<open>
  The work a payload causes is bounded by its size: every message takes at least eight bytes, so
  a payload of \<open>n\<close> bytes has at most \<open>n div 8\<close> messages.
\<close>

theorem messages_bounded:
  assumes "parse_pgoutput_messages d = Inr ms"
  shows "8 * length ms \<le> length d"
  using assms message_count by (auto simp: parse_iff_wire)

theorem messages_bounded_witness: "8 * length (map message_of fixture_wire) \<le> length fixture_bytes"
  by (rule messages_bounded [OF fixture_parsed])

text \<open>
  The cursor arithmetic of the reader is exact on the machine: on a slice of less than
  \<open>2 ^ 63\<close> bytes and a length the wire can carry, \<^verbatim>\<open>pos + len\<close> does not wrap, and the 64-bit
  computation of \<^verbatim>\<open>read_bytes\<close> gives what the model with natural numbers gives.
\<close>

theorem cursor_arithmetic_exact:
  assumes "reader_ok r" and "length (data r) < 2 ^ 63" and "len < 2 ^ 63"
  shows "read_bytes_usize (of_nat len) ctx (data r) (of_nat (pos r)) =
    map_sum id (map_prod id (\<lambda>r'. of_nat (pos r'))) (read_bytes len ctx r)"
  by (rule read_bytes_usize_eq [OF assms])

theorem cursor_arithmetic_exact_witness:
  "read_bytes_usize 2147483647 ''tuple data'' [1, 2, 3] 1 = Inl (Truncated ''tuple data'')"
proof -
  let ?r = "reader_at [1] [2, 3]"
  have "read_bytes_usize (of_nat 2147483647) ''tuple data'' (data ?r) (of_nat (pos ?r)) =
      map_sum id (map_prod id (\<lambda>r'. of_nat (pos r'))) (read_bytes 2147483647 ''tuple data'' ?r)"
    by (rule cursor_arithmetic_exact) (auto simp: reader_ok_iff)
  then show ?thesis by (simp add: read_bytes_at)
qed

section \<open>The conversion\<close>

text \<open>
  The table of relations only grows: over the messages of a payload a known relation keeps its
  description for ever, and every entry stays filed under its own id.
\<close>

theorem relation_table_stable:
  assumes "relations_ok relations"
  shows "relations_ok (snd (snd (convert_messages relations msgs)))
    \<and> relations \<subseteq>\<^sub>f snd (snd (convert_messages relations msgs))"
  using convert_messages_ok [OF assms] convert_messages_known
  by (auto simp: fmsubset_alt_def fmpred_iff)

theorem relation_table_stable_witness:
  "relations_ok fixture_relations
    \<and> fixture_relations \<subseteq>\<^sub>f snd (snd (convert_messages fixture_relations (map message_of fixture_wire)))"
proof -
  have ok: "relations_ok fixture_relations"
    unfolding fixture_relations_def by (intro convert_messages_ok relations_ok_empty)
  with relation_table_stable [OF ok] show ?thesis by blast
qed

text \<open>
  Exactly when the reader stops over a schema change: an announcement of a known relation id with
  another name, namespace or list of columns. The first announcement and a repeated one never do.
\<close>

theorem schema_change_iff:
  "fst (pgoutput_to_wal_event relations msg) = Inl SchemaChange \<longleftrightarrow>
    (\<exists>rel existing. msg = MsgRelation rel \<and> fmlookup relations (rel_id rel) = Some existing
      \<and> existing \<noteq> rel)"
  by (rule convert_schema_change_iff)

text \<open>
  Exactly which messages become events: the row changes of announced relations; a change of an
  unknown relation is passed over, and an announcement yields no event.
\<close>

theorem row_changes_become_events:
  "(\<exists>ev. fst (pgoutput_to_wal_event relations msg) = Inr (Some ev)) \<longleftrightarrow>
    row_change msg \<and> fmlookup relations (message_relation_id msg) \<noteq> None"
  by (rule convert_event_iff)

text \<open>
  C20. Every string is a Rust \<open>String\<close> and no value is an integer: with a table of relations of that
  kind, a payload that parses gives messages, events, hints and again a table whose names are UTF-8
  without a NUL byte and whose values are null or UTF-8 text below \<open>2 ^ 31\<close> bytes; and so is, from the start
  and over any inputs, all that the reader keeps.
\<close>

theorem reader_strings_typed:
  assumes "parse_pgoutput_messages d = Inr ms" and "typed_table relations"
    and "convert_messages relations ms = (evs, changed, r)"
  shows "list_all typed_message ms \<and> list_all typed_event evs \<and> typed_table r
    \<and> (\<forall>h \<in> transaction_hints evs. typed_text (hint_value h))
    \<and> typed_reader (snd (reader_run send inputs (reader_start has_sql m w)))"
proof -
  note typed = convert_messages_typed [OF assms(2) parsed_typed [OF assms(1)] assms(3)]
  then show ?thesis
    using parsed_typed [OF assms(1)]
    by (auto intro: typed_hints reader_run_typed reader_start_typed)
qed

theorem reader_strings_typed_witness:
  "list_all typed_event fixture_events \<and> typed_table fixture_relations"
  using reader_strings_typed [OF fixture_parsed _ fixture_converted,
      of "\<lambda>d hs t w. (Inr (), w)" "[]" False new_metrics "()"]
  by (simp add: typed_table_def)

section \<open>Hints and routing\<close>

text \<open>
  C9. The hints of a change are exactly the documents it touches: for a comment the document of every
  version of the row the event carries, so a comment moved between documents invalidates both; for a
  deleted document that document; nothing otherwise, and no hint twice.
\<close>

theorem hints_exact:
  assumes "generate_invalidation_hints ev = Inr hs"
  shows "set hs = touched_hints ev \<and> distinct hs"
  using generated_hints_exact [OF assms] by blast

definition moved_comment :: wal_event where
  "moved_comment = EvUpdate 16431 ''comments''
    (Some (from_values [''id'', ''document_id''] [Text ''c1'', Text ''a'']))
    (from_values [''id'', ''document_id''] [Text ''c1'', Text ''b''])"

lemma moved_comment_hints:
  "generate_invalidation_hints moved_comment =
    Inr [QueryHint ''comments'' ''document_id'' ''a'', QueryHint ''comments'' ''document_id'' ''b'']"
  by (simp add: moved_comment_def from_values_def value_at_def require_text_column_def get_text_column_def)

theorem hints_exact_witness:
  "touched_hints moved_comment =
    {QueryHint ''comments'' ''document_id'' ''a'', QueryHint ''comments'' ''document_id'' ''b''}"
  using hints_exact [OF moved_comment_hints] by auto

text \<open>
  C29. Exactly when no hints can be generated: the row version that decides (the new row, or the
  deleted one) of a \<^verbatim>\<open>comments\<close> change has no text in \<^verbatim>\<open>document_id\<close>, or a deleted
  \<^verbatim>\<open>documents\<close> row none in \<^verbatim>\<open>id\<close>; the error names that table and column.
\<close>

theorem hint_error_iff:
  "generate_invalidation_hints ev = Inl e \<longleftrightarrow>
    (\<exists>table column t. required_column ev = Some (table, column, t)
      \<and> (\<forall>v. column_of t column \<noteq> Some (Text v)) \<and> e = MissingColumn table column)"
  by (rule generate_error_iff)

text \<open>
  C30. The key a client receives identifies the hint: two generated hints with the same key are the
  same hint, whatever the document ids contain.
\<close>

theorem keys_identify_hints:
  assumes "generate_invalidation_hints ev = Inr hs" "h \<in> set hs"
    and "generate_invalidation_hints ev' = Inr hs'" "h' \<in> set hs'"
    and "to_key h = to_key h'"
  shows "h = h'"
  using generated_routable [OF assms(1,2)] generated_routable [OF assms(3,4)] assms(5)
  by (simp add: to_key_inject)

theorem keys_identify_hints_witness:
  "QueryHint ''comments'' ''document_id'' ''a'' = QueryHint ''comments'' ''document_id'' ''a''"
  by (rule keys_identify_hints [OF moved_comment_hints _ moved_comment_hints]) simp_all

text \<open>
  C22. Routing partitions the hints of a transaction by document: whatever order the hash set is
  iterated in, a room gets exactly the hints whose key is that room, each once, and a room is in the
  result exactly when it has a hint.
\<close>

theorem routing_partitions:
  assumes "iteration_order it"
  shows "set (entry_list (route it hs) d) = {h. h |\<in>| hs \<and> route_key h = Some d}
    \<and> distinct (entry_list (route it hs) d)
    \<and> fset (fmdom (route it hs)) = {d. \<exists>h. h |\<in>| hs \<and> route_key h = Some d}"
proof -
  have "entry_list (route it hs) d = hints_for d (it hs)" by (simp add: entry_list_def route_lookup)
  then have "distinct (entry_list (route it hs) d)"
    using iteration_order_distinct [OF assms] by (simp add: hints_for_def)
  with route_members [OF assms] route_dom [OF assms] show ?thesis by blast
qed

theorem routing_partitions_witness:
  "set (entry_list (route sorted_list_of_fset
      {|QueryHint ''comments'' ''document_id'' ''a'', QueryHint ''documents'' ''id'' ''a'',
        QueryHint ''comments'' ''document_id'' ''b''|}) ''a'') =
    {QueryHint ''comments'' ''document_id'' ''a'', QueryHint ''documents'' ''id'' ''a''}"
  unfolding conjunct1 [OF routing_partitions [OF iteration_order_sorted]]
  by (auto simp: route_key_def)

text \<open>
  The public deduplication of routed hints is a no-operation after routing, because the buffer of
  a transaction is a set; on any other routed map it keeps the first of each hint.
\<close>

theorem dedupe_keeps_first:
  assumes "iteration_order it"
  shows "dedupe_routed_hints (route it hs) = route it hs
    \<and> fmlookup (dedupe_routed_hints m) d = map_option (\<lambda>v. rev (remdups (rev v))) (fmlookup m d)"
proof -
  have "retain_unseen {||} = (\<lambda>v. rev (remdups (rev v)))" by (rule ext) (rule retain_unseen_first)
  then show ?thesis using dedupe_route [OF assms] by (simp add: dedupe_routed_hints_def)
qed

theorem dedupe_keeps_first_witness:
  "fmlookup (dedupe_routed_hints (fmap_of_list [(''a'', [QueryHint ''t'' ''c'' ''x'', QueryHint ''t'' ''c'' ''y'',
      QueryHint ''t'' ''c'' ''x''])])) ''a'' = Some [QueryHint ''t'' ''c'' ''x'', QueryHint ''t'' ''c'' ''y'']"
  using dedupe_keeps_first [OF iteration_order_sorted, of "{||}"
      "fmap_of_list [(''a'', [QueryHint ''t'' ''c'' ''x'', QueryHint ''t'' ''c'' ''y'', QueryHint ''t'' ''c'' ''x''])]" "''a''"]
  by simp

section \<open>The reader\<close>

text \<open>
  C26. What holds in every state of the WAL reader, from its start on and over any inputs: relations
  are filed under their ids, and a buffered transaction holds only hints that route to the room of
  their own value.
\<close>

theorem reader_invariant:
  "reader_inv (snd (reader_run send inputs (reader_start has_sql m w)))"
  by (intro reader_run_inv reader_inv_start)

text \<open>
  C28. When the reader gives up: if a run returns, one input was a payload that announces a relation
  whose table entry is different, and that entry is still there; up to that payload each commit was
  reported, and the run makes no further call (in particular the replication client is not stopped)
  and reads no further input.
\<close>

theorem schema_change_ends_reader:
  assumes "reader_run send inputs s = (Return, s')"
  shows "\<exists>n < length inputs. \<exists>env d ms rel existing. inputs ! n = ReplRecv env (Inr (Some (XLogData d)))
    \<and> parse_pgoutput_messages d = Inr ms \<and> MsgRelation rel \<in> set ms
    \<and> fmlookup (wal_relations s') (rel_id rel) = Some existing \<and> existing \<noteq> rel
    \<and> wal_calls s' = wal_calls s @ map UpdateAppliedLsn (commit_lsns (take n inputs))
    \<and> (\<forall>rest. reader_run send (inputs @ rest) s = (Return, s'))"
  using reader_run_return [OF assms] reader_run_over [OF assms] by blast

definition sorted_env :: commit_env where
  "sorted_env = \<lparr>ce_now = 5, ce_hint_order = sorted_list_of_fset, ce_room_order = sorted_list_of_fset\<rparr>"

definition renamed_relation :: "string \<Rightarrow> wire_message" where
  "renamed_relation name = WRelation \<lparr>wr_id = 7, wr_namespace = ''public'', wr_name = name,
    wr_replica_identity = 100, wr_columns = []\<rparr>"

definition renaming_inputs :: "reader_input list" where
  "renaming_inputs = map (\<lambda>name. ReplRecv sorted_env (Inr (Some (XLogData (enc_wire_message (renamed_relation name))))))
    [''old'', ''new''] @ [ReplRecv sorted_env (Inr (Some (Commit 3)))]"

theorem schema_change_ends_reader_witness:
  "\<exists>rel existing. rel_name existing = ''old'' \<and> existing \<noteq> rel
    \<and> fmlookup (wal_relations (snd (reader_run (\<lambda>d hs t w. (Inr (), w)) renaming_inputs
        (reader_start False new_metrics ())))) (rel_id rel) = Some existing"
proof -
  let ?send = "\<lambda>(d :: document_id) (hs :: query_hint list) (t :: u64) (w :: unit). (Inr () :: room_command_error + unit, w)"
  let ?rel = "\<lambda>name. \<lparr>rel_id = 7, rel_namespace = ''public'', rel_name = name, rel_columns = []\<rparr>"
  have parsed: "parse_pgoutput_messages (enc_wire_message (renamed_relation name)) = Inr [MsgRelation (?rel name)]"
    if "ascii name" for name
    using that unfolding parse_iff_wire
    by (intro exI [of _ "[renamed_relation name]"])
      (simp add: renamed_relation_def relation_of_def wire_check)
  have ascii: "ascii ''old''" "ascii ''new''" by (simp_all add: ascii_def)
  obtain s' where run: "reader_run ?send renaming_inputs (reader_start False new_metrics ()) = (Return, s')"
    and table: "wal_relations s' = fmupd 7 (?rel ''old'') fmempty"
    by (simp add: renaming_inputs_def handle_xlog_data_def parsed ascii reader_start_def)
  from schema_change_ends_reader [OF run] show ?thesis
    unfolding run snd_conv table by (auto split: if_splits)
qed

text \<open>
  C25. Every document of a commit is accounted for, also when the rooms actor is overloaded: of the exact
  invalidations of the transaction as many as the command channel has places are sent, in the order of
  the map, and every other one is counted as dropped, once; on a closed channel nothing is sent and
  nothing counted. In any case the transaction is over and the position is reported.
\<close>

theorem commit_accounts:
  fixes s :: "'w wal_reader"
  assumes "mpsc cmd_send queue closed capacity" and "orders_ok env"
    and "reader_inv s" "wal_transaction s = Some b"
    and "commands = handle_tx (sink_rooms sink)"
    and "free = capacity commands - length (queue (wal_world s) commands)"
    and "s' = handle_commit (rooms_send_invalidation cmd_send sink) env end_lsn s"
  shows "\<exists>entries. exact_invalidations (fset (tx_hints b)) entries
    \<and> (if closed (wal_world s) commands
        then queue (wal_world s') commands = queue (wal_world s) commands
          \<and> wal_events_dropped_total (wal_metrics s') = wal_events_dropped_total (wal_metrics s)
        else queue (wal_world s') commands =
            queue (wal_world s) commands @ broadcasts (ce_now env) (take free entries)
          \<and> wal_events_dropped_total (wal_metrics s') = wal_events_dropped_total (wal_metrics s)
            + of_nat (card (hint_value ` fset (tx_hints b)) - free))
    \<and> wal_transaction s' = None \<and> wal_calls s' = wal_calls s @ [UpdateAppliedLsn end_lsn]"
proof -
  note cmds = command_channel.intro [OF assms(1)]
  let ?es = "commit_entries env (wal_transaction s)"
  have exact: "exact_invalidations (fset (tx_hints b)) ?es"
    using assms(3) unfolding assms(4) reader_inv_def buffer_ok_def
    by (intro commit_entries_exact [OF assms(2) refl]) auto
  note full = command_channel.deliveries_full [OF cmds, of "wal_world s" sink free "ce_now env" ?es]
  note refused = command_channel.deliveries_refused [OF cmds, of "wal_world s" sink "ce_now env" ?es]
  have refuses: "closed (wal_world s) commands \<Longrightarrow> \<not> mpsc.accepts queue closed capacity (wal_world s) commands"
    by (simp add: mpsc.accepts_def [OF assms(1)])
  show ?thesis
    using exact full refused refuses exact_invalidations_length [OF exact]
    by (intro exI [of _ ?es]) (simp add: assms(5-7) handle_commit_deliveries)
qed

text \<open>Two documents, and one place on the command channel.\<close>

definition two_room_reader :: "(unit, (nat, nat) room_command) channels wal_reader" where
  "two_room_reader = (reader_start True new_metrics open_channels)
    \<lparr>wal_transaction := Some \<lparr>tx_hints = {|QueryHint ''documents'' ''id'' ''a'', QueryHint ''documents'' ''id'' ''b''|}\<rparr>\<rparr>"

theorem commit_accounts_witness:
  "\<exists>entries. length entries = 2
    \<and> chan_queue (wal_world (handle_commit (rooms_send_invalidation (chan_try_send (\<lambda>_. 1)) \<lparr>sink_rooms = \<lparr>handle_tx = ()\<rparr>\<rparr>)
        sorted_env 7 two_room_reader)) () = broadcasts 5 (take 1 entries)
    \<and> wal_events_dropped_total (wal_metrics (handle_commit
        (rooms_send_invalidation (chan_try_send (\<lambda>_. 1)) \<lparr>sink_rooms = \<lparr>handle_tx = ()\<rparr>\<rparr>)
        sorted_env 7 two_room_reader)) = 1"
proof -
  let ?b = "\<lparr>tx_hints = {|QueryHint ''documents'' ''id'' ''a'', QueryHint ''documents'' ''id'' ''b''|}\<rparr>"
  have orders: "orders_ok sorted_env" by (simp add: sorted_env_def orders_ok_def iteration_order_sorted)
  have inv: "reader_inv two_room_reader" "wal_transaction two_room_reader = Some ?b"
    by (auto simp: two_room_reader_def reader_inv_def reader_start_def relations_ok_empty buffer_ok_def
        route_key_def plain_names_def)
  have start: "chan_queue (wal_world two_room_reader) x = []" "\<not> chan_closed (wal_world two_room_reader) x"
    "wal_events_dropped_total (wal_metrics two_room_reader) = 0" "ce_now sorted_env = 5" for x
    by (simp_all add: two_room_reader_def reader_start_def open_channels_def new_metrics_def sorted_env_def)
  have docs: "card (hint_value ` fset (tx_hints ?b)) = 2" by simp
  obtain entries where e: "exact_invalidations (fset (tx_hints ?b)) entries"
    "chan_queue (wal_world (handle_commit (rooms_send_invalidation (chan_try_send (\<lambda>_. 1)) \<lparr>sink_rooms = \<lparr>handle_tx = ()\<rparr>\<rparr>)
        sorted_env 7 two_room_reader)) () = broadcasts 5 (take 1 entries)"
    "wal_events_dropped_total (wal_metrics (handle_commit
        (rooms_send_invalidation (chan_try_send (\<lambda>_. 1)) \<lparr>sink_rooms = \<lparr>handle_tx = ()\<rparr>\<rparr>)
        sorted_env 7 two_room_reader)) = 1"
    using commit_accounts [OF ref_chan.mpsc_axioms [of "\<lambda>_. 1"] orders inv refl refl refl,
        of "\<lparr>sink_rooms = \<lparr>handle_tx = ()\<rparr>\<rparr>" 7] unfolding docs by (auto simp: start)
  with exact_invalidations_length [OF e(1)] docs show ?thesis by (intro exI [of _ entries]) simp
qed

section \<open>The capture tool\<close>

text \<open>
  C40. What the capture tool writes can be read back: on a file that takes every write, if each
  captured payload parses, the file parses to the messages of the payloads in order, and there are at
  most as many payloads as asked for.
\<close>

theorem capture_reads_back:
  assumes "\<And>d out. write_all d out = (Inr (), out @ d)"
    and "capture_loop write_all max_xlog deadline rounds 0 [] = (Inr n, file)"
    and "list_all2 (\<lambda>d ms. parse_pgoutput_messages d = Inr ms)
      (take max_xlog (captured deadline rounds)) mss"
  shows "parse_pgoutput_messages file = Inr (concat mss) \<and> n = length mss \<and> n \<le> max_xlog"
proof -
  from capture_written [OF assms(1,2)] have
    "file = concat (take max_xlog (captured deadline rounds))"
    "n = length (take max_xlog (captured deadline rounds))" by simp_all
  with parse_concat [OF assms(3)] list_all2_lengthD [OF assms(3)] show ?thesis by auto
qed

theorem capture_reads_back_witness:
  "parse_pgoutput_messages (fixture_bytes @ fixture_bytes) =
      Inr (map message_of fixture_wire @ map message_of fixture_wire)"
proof -
  let ?put = "\<lambda>d out. (Inr () :: string + unit, out @ d)"
  let ?rounds = "[(1, Some (Inr (Some (XLogData fixture_bytes)))), (2, Some (Inr (Some Begin))),
    (3, Some (Inr (Some (XLogData fixture_bytes)))), (4, None)]"
  have "capture_loop ?put 2 30 ?rounds 0 [] = (Inr 2, fixture_bytes @ fixture_bytes)" by simp
  from capture_reads_back [OF refl this, of "[map message_of fixture_wire, map message_of fixture_wire]"]
  show ?thesis by (simp add: fixture_parsed)
qed

end
