(* ===== verification/Session.thy ===== *)
theory Session
  imports Wal_Handle
begin

text \<open>
  \<^verbatim>\<open>src/websocket.rs\<close>: one WebSocket connection, from the first frame to the clean-up after
  either of its two tasks ended. Decoding and encoding the JSON of a frame is serde's, so it is a
  parameter; the answer to a join (an acknowledgement, a dropped sender, the timeout), the clock and
  the frames are inputs.
\<close>

section \<open>The session\<close>

record 'tx session =
  session_client_id :: client_id
  session_current_room :: "document_id option"
  session_tx :: 'tx

definition new_session :: "client_id \<Rightarrow> 'tx \<Rightarrow> 'tx session" where
  "new_session cid tx = \<lparr>session_client_id = cid, session_current_room = None, session_tx = tx\<rparr>"

definition client_channel_capacity :: nat where
  "client_channel_capacity = 256"

text \<open>What awaiting the join's answer under the timeout gives.\<close>

datatype ack = Acked | AckDropped | AckTimedOut

record 'r call_env =
  call_now :: u64
  call_responder :: 'r
  call_ack :: ack

type_synonym ('h, 'tx, 'r, 'w) cmd_send = "'h \<Rightarrow> ('tx, 'r) room_command \<Rightarrow> 'w \<Rightarrow> send_result \<times> 'w"
type_synonym ('tx, 'w) client_send = "'tx \<Rightarrow> server_message \<Rightarrow> 'w \<Rightarrow> send_result \<times> 'w"

section \<open>Client messages\<close>

text \<open>The \<^verbatim>\<open>map_err\<close> of the three calls: a full channel is counted, any refusal is \<open>SendFailed\<close>.\<close>

definition command_result ::
    "room_command_error + unit \<Rightarrow> ('h, 'c) app_state \<Rightarrow> (web_socket_error + unit) \<times> ('h, 'c) app_state" where
  "command_result res state =
    (case res of
       Inr u \<Rightarrow> (Inr (), state)
     | Inl err \<Rightarrow>
         (Inl SendFailed,
          if err = ChannelFull
          then state\<lparr>app_metrics := inc_actor_cmd_drop (app_metrics state)\<rparr> else state))"

text \<open>A join up to where it awaits the answer, and what follows the answer.\<close>

definition join_send ::
    "('h, 'tx, 'r, 'w) cmd_send \<Rightarrow> 'r \<Rightarrow> document_id \<Rightarrow> ('h, 'c) app_state \<Rightarrow> 'tx session \<Rightarrow> 'w \<Rightarrow>
      (web_socket_error + unit) \<times> ('h, 'c) app_state \<times> 'w" where
  "join_send cmd_send respond_to document_id state session w =
    (case join_room cmd_send (app_rooms state) document_id (session_client_id session)
        (session_tx session) respond_to w of
       (res, w') \<Rightarrow> (case command_result res state of (r, state') \<Rightarrow> (r, state', w')))"

definition join_finish ::
    "('tx, 'w) client_send \<Rightarrow> ack \<Rightarrow> document_id \<Rightarrow> 'tx session \<Rightarrow> 'w \<Rightarrow>
      (web_socket_error + unit) \<times> 'tx session \<times> 'w" where
  "join_finish client_send answer document_id session w =
    (case answer of
       Acked \<Rightarrow>
         (let session' = session\<lparr>session_current_room := Some document_id\<rparr>;
              response = Joined (session_client_id session) document_id;
              (sent, w') = client_send (session_tx session) response w
          in (Inr (), session', w'))
     | AckDropped \<Rightarrow> (Inl SendFailed, session, w)
     | AckTimedOut \<Rightarrow> (Inl SendFailed, session, w))"

definition send_to_room ::
    "('h, 'tx, 'r, 'w) cmd_send \<Rightarrow> u64 \<Rightarrow> document_id \<Rightarrow> string \<Rightarrow> ('h, 'c) app_state \<Rightarrow> 'tx session \<Rightarrow>
      'w \<Rightarrow> (web_socket_error + unit) \<times> ('h, 'c) app_state \<times> 'w" where
  "send_to_room cmd_send now room text state session w =
    (let message = new_message now (session_client_id session) text in
     case broadcast_to_room cmd_send (app_rooms state) room message w of
       (res, w') \<Rightarrow> (case command_result res state of (r, state') \<Rightarrow> (r, state', w')))"

fun handle_client_message ::
    "('h, 'tx, 'r, 'w) cmd_send \<Rightarrow> ('tx, 'w) client_send \<Rightarrow> 'r call_env \<Rightarrow> client_message \<Rightarrow>
      ('h, 'c) app_state \<Rightarrow> 'tx session \<Rightarrow> 'w \<Rightarrow>
      (web_socket_error + unit) \<times> ('h, 'c) app_state \<times> 'tx session \<times> 'w" where
  "handle_client_message cmd_send client_send env (Join document_id) state session w =
    (case join_send cmd_send (call_responder env) document_id state session w of
       (Inl e, state', w') \<Rightarrow> (Inl e, state', session, w')
     | (Inr u, state', w') \<Rightarrow>
         (case join_finish client_send (call_ack env) document_id session w' of
            (r, session', w'') \<Rightarrow> (r, state', session', w'')))"
| "handle_client_message cmd_send client_send env (SendMessage text) state session w =
    (case session_current_room session of
       Some room \<Rightarrow>
         (case send_to_room cmd_send (call_now env) room text state session w of
            (r, state', w') \<Rightarrow> (r, state', session, w'))
     | None \<Rightarrow> (Inl NotInRoom, state, session, w))"
| "handle_client_message cmd_send client_send env (SendMessageTo document_id text) state session w =
    (case send_to_room cmd_send (call_now env) document_id text state session w of
       (r, state', w') \<Rightarrow> (r, state', session, w'))"

section \<open>The receive task\<close>

text \<open>What \<^verbatim>\<open>receiver.next()\<close> yields; the end of the list is the end of the stream.\<close>

datatype ws_frame = TextFrame string | OtherFrame | FrameError

definition handle_text ::
    "('h, 'tx, 'r, 'w) cmd_send \<Rightarrow> ('tx, 'w) client_send \<Rightarrow> (string \<Rightarrow> string + client_message) \<Rightarrow>
      'r call_env \<Rightarrow> string \<Rightarrow> ('h, 'c) app_state \<Rightarrow> 'tx session \<Rightarrow> 'w \<Rightarrow>
      ('h, 'c) app_state \<times> 'tx session \<times> 'w" where
  "handle_text cmd_send client_send from_json env text state session w =
    (case from_json text of
       Inr client_msg \<Rightarrow>
         (case handle_client_message cmd_send client_send env client_msg state session w of
            (Inl err, state', session', w') \<Rightarrow>
              (state', session',
               snd (client_send (session_tx session) (ErrorMessage (fmt_web_socket_error err)) w'))
          | (Inr u, state', session', w') \<Rightarrow> (state', session', w'))
     | Inl e \<Rightarrow>
         (let err = InvalidMessage e
          in (state, session,
              snd (client_send (session_tx session) (ErrorMessage (fmt_web_socket_error err)) w))))"

fun recv_loop ::
    "('h, 'tx, 'r, 'w) cmd_send \<Rightarrow> ('tx, 'w) client_send \<Rightarrow> (string \<Rightarrow> string + client_message) \<Rightarrow>
      ('r call_env \<times> ws_frame) list \<Rightarrow> ('h, 'c) app_state \<Rightarrow> 'tx session \<Rightarrow> 'w \<Rightarrow>
      ('h, 'c) app_state \<times> 'tx session \<times> 'w" where
  "recv_loop cmd_send client_send from_json [] state session w = (state, session, w)"
| "recv_loop cmd_send client_send from_json ((env, FrameError) # frames) state session w =
    (state, session, w)"
| "recv_loop cmd_send client_send from_json ((env, OtherFrame) # frames) state session w =
    recv_loop cmd_send client_send from_json frames state session w"
| "recv_loop cmd_send client_send from_json ((env, TextFrame text) # frames) state session w =
    (case handle_text cmd_send client_send from_json env text state session w of
       (state', session', w') \<Rightarrow> recv_loop cmd_send client_send from_json frames state' session' w')"

section \<open>The send task\<close>

text \<open>
  The messages the send task takes from the client's queue: encoded and written to the socket until
  an encoding or a write fails. \<open>'s\<close> is the socket; the messages left when the task breaks are the
  first component.
\<close>

fun send_loop ::
    "(server_message \<Rightarrow> string + string) \<Rightarrow> (string \<Rightarrow> 's \<Rightarrow> bool \<times> 's) \<Rightarrow> server_message list \<Rightarrow> 's \<Rightarrow>
      server_message list \<times> 's" where
  "send_loop to_json write [] sock = ([], sock)"
| "send_loop to_json write (msg # msgs) sock =
    (case to_json msg of
       Inr json \<Rightarrow>
         (case write json sock of
            (ok, sock') \<Rightarrow> if ok then send_loop to_json write msgs sock' else (msgs, sock'))
     | Inl e \<Rightarrow> (msgs, sock))"

section \<open>The connection\<close>

text \<open>After the tasks: leave the current room, a full command channel is counted.\<close>

definition leave_on_close ::
    "('h, 'tx, 'r, 'w) cmd_send \<Rightarrow> ('h, 'c) app_state \<Rightarrow> 'tx session \<Rightarrow> 'w \<Rightarrow> ('h, 'c) app_state \<times> 'w" where
  "leave_on_close cmd_send state session w =
    (case session_current_room session of
       None \<Rightarrow> (state, w)
     | Some document_id \<Rightarrow>
         (case leave_room cmd_send (app_rooms state) document_id (session_client_id session) w of
            (Inl err, w') \<Rightarrow>
              (if err = ChannelFull
               then state\<lparr>app_metrics := inc_actor_cmd_drop (app_metrics state)\<rparr> else state, w')
          | (Inr u, w') \<Rightarrow> (state, w')))"

text \<open>
  The receive task handled \<open>frames\<close>. When the send task ends first, the receive task is aborted
  where it waits: between frames, or in a join whose command was sent but not yet answered, the
  argument \<open>aborted\<close>.
\<close>

definition handle_socket ::
    "('h, 'tx, 'r, 'w) cmd_send \<Rightarrow> ('tx, 'w) client_send \<Rightarrow> (string \<Rightarrow> string + client_message) \<Rightarrow>
      client_id \<Rightarrow> 'tx \<Rightarrow> ('r call_env \<times> ws_frame) list \<Rightarrow> ('r \<times> document_id) option \<Rightarrow>
      ('h, 'c) app_state \<Rightarrow> 'w \<Rightarrow> ('h, 'c) app_state \<times> 'w" where
  "handle_socket cmd_send client_send from_json cid tx frames aborted state w =
    (case recv_loop cmd_send client_send from_json frames state (new_session cid tx) w of
       (state1, session, w1) \<Rightarrow>
         (case (case aborted of
             None \<Rightarrow> (state1, w1)
           | Some (respond_to, document_id) \<Rightarrow>
               (case join_send cmd_send respond_to document_id state1 session w1 of
                  (r, state2, w2) \<Rightarrow> (state2, w2))) of
            (state2, w2) \<Rightarrow> leave_on_close cmd_send state2 session w2))"

end
