(* ===== verification/Session_Rooms.thy ===== *)
theory Session_Rooms
  imports Session
begin

text \<open>
  What a connection of \<^verbatim>\<open>src/websocket.rs\<close> does to the rest of the server: the answers to its
  messages, the commands it puts on the rooms actor's channel, what its client is told, and how the
  room membership of \<^verbatim>\<open>src/rooms.rs\<close> looks once it is closed.
\<close>

section \<open>Results and the current room\<close>

text \<open>How a send of a command is answered.\<close>

fun answered :: "send_result \<Rightarrow> ('h, 'c) app_state \<Rightarrow> (web_socket_error + unit) \<times> ('h, 'c) app_state" where
  "answered SendOk state = (Inr (), state)"
| "answered SendFull state =
    (Inl SendFailed, state\<lparr>app_metrics := inc_actor_cmd_drop (app_metrics state)\<rparr>)"
| "answered SendClosed state = (Inl SendFailed, state)"

definition answer_send ::
    "send_result \<times> 'w \<Rightarrow> ('h, 'c) app_state \<Rightarrow> (web_socket_error + unit) \<times> ('h, 'c) app_state \<times> 'w" where
  "answer_send sent state =
    (fst (answered (fst sent) state), snd (answered (fst sent) state), snd sent)"

lemma join_send_eq:
  "join_send cmd_send r d state session w =
    answer_send (cmd_send (handle_tx (app_rooms state))
      (RoomJoin d (session_client_id session) (session_tx session) r) w) state"
proof -
  obtain res w' where sent: "cmd_send (handle_tx (app_rooms state))
      (RoomJoin d (session_client_id session) (session_tx session) r) w = (res, w')"
    by (metis surj_pair)
  show ?thesis
    unfolding join_send_def join_room_def command_result_def answer_send_def sent
    by (cases res) simp_all
qed

lemma send_to_room_eq:
  "send_to_room cmd_send now room text state session w =
    answer_send (cmd_send (handle_tx (app_rooms state))
      (RoomBroadcast room (new_message now (session_client_id session) text)) w) state"
proof -
  obtain res w' where sent: "cmd_send (handle_tx (app_rooms state))
      (RoomBroadcast room (new_message now (session_client_id session) text)) w = (res, w')"
    by (metis surj_pair)
  show ?thesis
    unfolding send_to_room_def broadcast_to_room_def command_result_def answer_send_def Let_def sent
    by (cases res) simp_all
qed

lemma answered_cases:
  obtains "fst (answered res state) = Inr ()" "res = SendOk" "snd (answered res state) = state"
  | "fst (answered res state) = Inl SendFailed" "res \<noteq> SendOk"
      "app_rooms (snd (answered res state)) = app_rooms state"
  by (cases res) auto

text \<open>The three kinds of messages, by the answer to their command.\<close>

lemma handle_join:
  "handle_client_message cmd_send client_send env (Join d) state session w =
    (let sent = cmd_send (handle_tx (app_rooms state))
        (RoomJoin d (session_client_id session) (session_tx session) (call_responder env)) w;
         state' = snd (answered (fst sent) state) in
     if fst sent \<noteq> SendOk then (Inl SendFailed, state', session, snd sent)
     else if call_ack env = Acked
     then (Inr (), state', session\<lparr>session_current_room := Some d\<rparr>,
       snd (client_send (session_tx session) (Joined (session_client_id session) d) (snd sent)))
     else (Inl SendFailed, state', session, snd sent))"
proof -
  obtain res w1 where sent: "cmd_send (handle_tx (app_rooms state))
      (RoomJoin d (session_client_id session) (session_tx session) (call_responder env)) w = (res, w1)"
    by (metis surj_pair)
  obtain r w2 where reply: "client_send (session_tx session) (Joined (session_client_id session) d) w1 = (r, w2)"
    by (metis surj_pair)
  show ?thesis
    unfolding handle_client_message.simps join_send_eq sent answer_send_def
    by (cases res; cases "call_ack env") (simp_all add: join_finish_def reply)
qed

lemma handle_send:
  "handle_client_message cmd_send client_send env (SendMessage text) state session w =
    (case session_current_room session of
       None \<Rightarrow> (Inl NotInRoom, state, session, w)
     | Some room \<Rightarrow>
        (let sent = cmd_send (handle_tx (app_rooms state))
            (RoomBroadcast room (new_message (call_now env) (session_client_id session) text)) w
         in (fst (answered (fst sent) state), snd (answered (fst sent) state), session, snd sent)))"
  by (simp add: send_to_room_eq answer_send_def Let_def split: option.split)

lemma handle_send_to:
  "handle_client_message cmd_send client_send env (SendMessageTo d text) state session w =
    (let sent = cmd_send (handle_tx (app_rooms state))
        (RoomBroadcast d (new_message (call_now env) (session_client_id session) text)) w
     in (fst (answered (fst sent) state), snd (answered (fst sent) state), session, snd sent))"
  by (simp add: send_to_room_eq answer_send_def Let_def)

lemmas handle_eqs = handle_join handle_send handle_send_to
declare handle_client_message.simps [simp del]

lemma answered_error: "fst (answered res state) = Inl e \<longleftrightarrow> res \<noteq> SendOk \<and> e = SendFailed"
  by (cases res) auto

text \<open>\<open>NotInRoom\<close> is the answer to a message outside a room, every other refusal is \<open>SendFailed\<close>.\<close>

lemma handle_not_in_room:
  "fst (handle_client_message cmd_send client_send env msg state session w) = Inl NotInRoom \<longleftrightarrow>
    (\<exists>text. msg = SendMessage text) \<and> session_current_room session = None"
  by (cases msg; cases "session_current_room session") (simp_all add: handle_eqs Let_def answered_error)

lemma handle_errors:
  "fst (handle_client_message cmd_send client_send env msg state session w) = Inl e \<Longrightarrow>
    e = NotInRoom \<or> e = SendFailed"
  by (cases msg; cases "session_current_room session")
    (simp_all add: handle_eqs Let_def answered_error split: if_splits)

text \<open>Only an acknowledged join changes the session, and only its current room.\<close>

lemma handle_session:
  "handle_client_message cmd_send client_send env msg state session w = (res, state', session', w') \<Longrightarrow>
    session' = session
    \<or> (\<exists>d. msg = Join d \<and> call_ack env = Acked \<and> res = Inr ()
        \<and> session' = session\<lparr>session_current_room := Some d\<rparr>)"
  by (cases msg; cases "session_current_room session")
    (auto simp: handle_eqs Let_def split: if_splits)

text \<open>The documents the text frames of a run ask to join.\<close>

definition joined_docs ::
    "(string \<Rightarrow> string + client_message) \<Rightarrow> ('r call_env \<times> ws_frame) list \<Rightarrow> document_id set" where
  "joined_docs from_json frames =
    {d. \<exists>env text. (env, TextFrame text) \<in> set frames \<and> from_json text = Inr (Join d)}"

lemma joined_docs_Cons:
  "joined_docs from_json (f # frames) = joined_docs from_json [f] \<union> joined_docs from_json frames"
  by (auto simp: joined_docs_def)

lemma joined_docs_subset:
  "joined_docs from_json [f] \<subseteq> joined_docs from_json (f # frames)"
  "joined_docs from_json frames \<subseteq> joined_docs from_json (f # frames)"
  by (auto simp: joined_docs_def)

definition session_like :: "'tx session \<Rightarrow> document_id set \<Rightarrow> 'tx session \<Rightarrow> bool" where
  "session_like session docs session' \<longleftrightarrow>
    session_client_id session' = session_client_id session \<and> session_tx session' = session_tx session
    \<and> (session_current_room session' = session_current_room session
       \<or> session_current_room session' \<in> Some ` docs)"

lemma handle_text_session:
  assumes "handle_text cmd_send client_send from_json env text state session w = (state', session', w')"
  shows "session_like session (joined_docs from_json [(env, TextFrame text)]) session'"
proof (cases "from_json text")
  case (Inl e)
  with assms show ?thesis by (simp add: handle_text_def session_like_def)
next
  case (Inr msg)
  obtain res s1 session1 w1 where h:
    "handle_client_message cmd_send client_send env msg state session w = (res, s1, session1, w1)"
    by (metis prod_cases4)
  have "session' = session1"
    using assms Inr h by (cases res) (simp_all add: handle_text_def)
  then show ?thesis
    using handle_session [OF h] Inr by (auto simp: session_like_def joined_docs_def)
qed

lemma session_like_refl [simp]: "session_like session docs session"
  by (simp add: session_like_def)

lemma session_like_trans:
  "session_like a docs b \<Longrightarrow> session_like b docs' c \<Longrightarrow> session_like a (docs \<union> docs') c"
  by (auto simp: session_like_def)

lemma session_like_mono: "session_like a docs b \<Longrightarrow> docs \<subseteq> docs' \<Longrightarrow> session_like a docs' b"
  by (auto simp: session_like_def)

lemma recv_loop_session:
  "recv_loop cmd_send client_send from_json frames state session w = (state', session', w') \<Longrightarrow>
    session_like session (joined_docs from_json frames) session'"
proof (induction cmd_send client_send from_json frames state session w rule: recv_loop.induct)
  case (3 cmd_send client_send from_json env frames state session w)
  then show ?case
    using session_like_mono by (metis Un_upper2 joined_docs_Cons recv_loop.simps(3))
next
  case (4 cmd_send client_send from_json env str frames state session w)
  obtain s1 session1 w1 where h:
    "handle_text cmd_send client_send from_json env str state session w = (s1, session1, w1)"
    by (metis prod_cases3)
  then have "session_like session1 (joined_docs from_json frames) session'"
    using "4.IH" [OF h [symmetric] refl] "4.prems" by (simp add: h)
  with session_like_trans [OF handle_text_session [OF h]] show ?case
    by (metis joined_docs_Cons)
qed auto

section \<open>Commands and replies\<close>

text \<open>
  The two kinds of channels a connection sends on: commands to the rooms actor, and replies to its
  own client. Each keeps the contract and leaves the channels of the other kind alone.
\<close>

locale session_channels =
  cmds: mpsc cmd_send cmd_queue cmd_closed cmd_capacity +
  clients: mpsc client_send client_queue client_closed client_capacity
  for cmd_send :: "'h \<Rightarrow> ('tx, 'r) room_command \<Rightarrow> 'w \<Rightarrow> send_result \<times> 'w"
    and cmd_queue :: "'w \<Rightarrow> 'h \<Rightarrow> ('tx, 'r) room_command list"
    and cmd_closed :: "'w \<Rightarrow> 'h \<Rightarrow> bool"
    and cmd_capacity :: "'h \<Rightarrow> nat"
    and client_send :: "'tx \<Rightarrow> server_message \<Rightarrow> 'w \<Rightarrow> send_result \<times> 'w"
    and client_queue :: "'w \<Rightarrow> 'tx \<Rightarrow> server_message list"
    and client_closed :: "'w \<Rightarrow> 'tx \<Rightarrow> bool"
    and client_capacity :: "'tx \<Rightarrow> nat" +
  assumes cmd_frame:
      "client_queue (snd (cmd_send h c w)) = client_queue w"
      "client_closed (snd (cmd_send h c w)) = client_closed w"
    and client_frame:
      "cmd_queue (snd (client_send tx m w)) = cmd_queue w"
      "cmd_closed (snd (client_send tx m w)) = cmd_closed w"

text \<open>The command a message asks for, and what all commands of a session have in common.\<close>

fun command_of ::
    "'r call_env \<Rightarrow> client_message \<Rightarrow> 'tx session \<Rightarrow> ('tx, 'r) room_command option" where
  "command_of env (Join d) session =
    Some (RoomJoin d (session_client_id session) (session_tx session) (call_responder env))"
| "command_of env (SendMessage text) session =
    (case session_current_room session of
       None \<Rightarrow> None
     | Some room \<Rightarrow> Some (RoomBroadcast room (new_message (call_now env) (session_client_id session) text)))"
| "command_of env (SendMessageTo d text) session =
    Some (RoomBroadcast d (new_message (call_now env) (session_client_id session) text))"

fun own_command :: "client_id \<Rightarrow> 'tx \<Rightarrow> document_id set \<Rightarrow> ('tx, 'r) room_command \<Rightarrow> bool" where
  "own_command cid tx docs (RoomJoin d c t ack) \<longleftrightarrow> c = cid \<and> t = tx \<and> d \<in> docs"
| "own_command cid tx docs (RoomLeave d c) \<longleftrightarrow> False"
| "own_command cid tx docs (RoomBroadcast d m) \<longleftrightarrow> (\<exists>text now. m = new_message now cid text)"

lemma own_command_mono: "own_command cid tx docs c \<Longrightarrow> docs \<subseteq> docs' \<Longrightarrow> own_command cid tx docs' c"
  by (cases c) auto

lemma own_commands_mono:
  "list_all (own_command cid tx docs) cs \<Longrightarrow> docs \<subseteq> docs' \<Longrightarrow> list_all (own_command cid tx docs') cs"
  by (auto simp: list_all_iff intro: own_command_mono)

context session_channels
begin

abbreviation commands_to :: "('h, 'c) app_state \<Rightarrow> 'w \<Rightarrow> ('tx, 'r) room_command list" where
  "commands_to state w \<equiv> cmd_queue w (handle_tx (app_rooms state))"

lemma answered_app [simp]: "app_rooms (snd (answered res state)) = app_rooms state"
  by (cases res) simp_all

lemma handle_app:
  "handle_client_message cmd_send client_send env msg state session w = (res, state', session', w') \<Longrightarrow>
    app_rooms state' = app_rooms state"
  by (cases msg; cases "session_current_room session")
    (auto simp: handle_eqs Let_def split: if_splits)

text \<open>A message puts its command on the channel when there is space, and nothing otherwise.\<close>

lemma handle_commands:
  assumes "handle_client_message cmd_send client_send env msg state session w = (res, state', session', w')"
  shows "commands_to state w' = commands_to state w @
    (case command_of env msg session of
       None \<Rightarrow> []
     | Some c \<Rightarrow> if cmds.accepts w (handle_tx (app_rooms state)) then [c] else [])"
  using assms
  by (cases msg; cases "session_current_room session")
    (auto simp: handle_eqs Let_def cmds.send_queue client_frame split: if_splits)

lemma handle_text_commands:
  assumes "handle_text cmd_send client_send from_json env str state session w = (state', session', w')"
  shows "app_rooms state' = app_rooms state"
    and "\<exists>cs. commands_to state w' = commands_to state w @ cs \<and>
      list_all (own_command (session_client_id session) (session_tx session)
        (joined_docs from_json [(env, TextFrame str)])) cs"
proof -
  have "app_rooms state' = app_rooms state \<and>
    (\<exists>cs. commands_to state w' = commands_to state w @ cs \<and>
      list_all (own_command (session_client_id session) (session_tx session)
        (joined_docs from_json [(env, TextFrame str)])) cs)"
  proof (cases "from_json str")
    case (Inl e)
    with assms show ?thesis
      by (auto simp: handle_text_def client_frame intro!: exI [of _ "[]"])
  next
    case (Inr msg)
    obtain res s1 session1 w1 where h:
      "handle_client_message cmd_send client_send env msg state session w = (res, s1, session1, w1)"
      by (metis prod_cases4)
    have now: "state' = s1" "commands_to state w' = commands_to state w1"
      using assms Inr h by (cases res; auto simp: handle_text_def client_frame)+
    have own: "own_command (session_client_id session) (session_tx session)
        (joined_docs from_json [(env, TextFrame str)]) c" if "command_of env msg session = Some c" for c
      using that Inr by (cases msg) (auto simp: joined_docs_def split: option.splits, blast+)
    show ?thesis
      using handle_commands [OF h] handle_app [OF h] own unfolding now
      by (cases "command_of env msg session") auto
  qed
  then show "app_rooms state' = app_rooms state"
    and "\<exists>cs. commands_to state w' = commands_to state w @ cs \<and>
      list_all (own_command (session_client_id session) (session_tx session)
        (joined_docs from_json [(env, TextFrame str)])) cs" by blast+
qed

lemma recv_loop_commands:
  "recv_loop cmd_send client_send from_json frames state session w = (state', session', w') \<Longrightarrow>
    app_rooms state' = app_rooms state
    \<and> (\<exists>cs. commands_to state w' = commands_to state w @ cs \<and>
      list_all (own_command (session_client_id session) (session_tx session)
        (joined_docs from_json frames)) cs)"
proof (induction frames arbitrary: state session w)
  case (Cons f frames)
  obtain env fr where f: "f = (env, fr)" by (cases f)
  show ?case
  proof (cases fr)
    case (TextFrame str)
    obtain s1 session1 w1 where h:
      "handle_text cmd_send client_send from_json env str state session w = (s1, session1, w1)"
      by (metis prod_cases3)
    from handle_text_commands [OF h] obtain cs where cs: "app_rooms s1 = app_rooms state"
      "commands_to state w1 = commands_to state w @ cs"
      "list_all (own_command (session_client_id session) (session_tx session)
        (joined_docs from_json [(env, TextFrame str)])) cs" by blast
    have like: "session_client_id session1 = session_client_id session" "session_tx session1 = session_tx session"
      using handle_text_session [OF h] by (simp_all add: session_like_def)
    from Cons.IH [of s1 session1 w1] Cons.prems f TextFrame h obtain cs' where
      "app_rooms state' = app_rooms s1" "commands_to s1 w' = commands_to s1 w1 @ cs'"
      "list_all (own_command (session_client_id session) (session_tx session)
        (joined_docs from_json frames)) cs'" by (auto simp: like)
    with cs f TextFrame show ?thesis
      using own_commands_mono [OF cs(3) joined_docs_subset(1)]
        own_commands_mono [OF _ joined_docs_subset(2)]
      by (intro conjI exI [of _ "cs @ cs'"]) simp_all
  next
    case OtherFrame
    with Cons.IH [of state session w] Cons.prems f obtain cs where "app_rooms state' = app_rooms state"
      "commands_to state w' = commands_to state w @ cs"
      "list_all (own_command (session_client_id session) (session_tx session)
        (joined_docs from_json frames)) cs" by auto
    with own_commands_mono [OF this(3) joined_docs_subset(2)] show ?thesis by blast
  next
    case FrameError
    with Cons.prems f show ?thesis by (auto intro: exI [of _ "[]"])
  qed
qed (auto intro: exI [of _ "[]"])

end

section \<open>The actor and a closed connection\<close>

definition present :: "client_id \<Rightarrow> ('tx, 'r, 'w) coordinator \<Rightarrow> document_id \<Rightarrow> bool" where
  "present cid st d \<longleftrightarrow> cid \<in> fst ` set (clients_in st d)"

text \<open>A client gets into a room by a join only.\<close>

lemma member_step:
  assumes "x \<in> set (clients_in (coordinator_step try_send c st) d)"
  shows "x \<in> set (clients_in st d) \<or> (\<exists>ack. c = RoomJoin d (fst x) (snd x) ack)"
proof (cases c)
  case (RoomJoin room i tx ack)
  with assms show ?thesis by (auto split: if_splits)
next
  case (RoomLeave room i)
  with assms show ?thesis unfolding RoomLeave clients_leave by (auto split: if_splits)
next
  case (RoomBroadcast room m)
  obtain rs w' where rs: "outcomes try_send m (clients_in st room) (co_world st) = (rs, w')"
    by (metis surj_pair)
  from assms show ?thesis
    unfolding RoomBroadcast broadcast_effect(1) [OF rs] by (auto simp: keep_alive_def split: if_splits)
qed

lemma present_step:
  "present cid (coordinator_step try_send c st) d \<Longrightarrow>
    present cid st d \<or> (\<exists>tx ack. c = RoomJoin d cid tx ack)"
  using member_step [of _ try_send c st d] by (force simp: present_def)

lemma present_run:
  "present cid (rooms_coordinator try_send cmds st) d \<Longrightarrow>
    present cid st d \<or> (\<exists>tx ack. RoomJoin d cid tx ack \<in> set cmds)"
proof (induction cmds arbitrary: st)
  case (Cons c cmds)
  from Cons.IH [of "coordinator_step try_send c st"] Cons.prems show ?case
    using present_step [of cid try_send c st d] by auto
qed simp

text \<open>It goes out of a room by its own leave or at a broadcast there.\<close>

lemma present_stays:
  assumes "present cid st d" "\<And>m. RoomBroadcast d m \<notin> set cmds" "RoomLeave d cid \<notin> set cmds"
  shows "present cid (rooms_coordinator try_send cmds st) d"
  using assms
proof (induction cmds arbitrary: st)
  case (Cons c cmds)
  have "present cid (coordinator_step try_send c st) d"
  proof (cases c)
    case (RoomJoin room i tx ack)
    with Cons.prems(1) show ?thesis by (auto simp: present_def entry_list_def Let_def split: option.splits)
  next
    case (RoomLeave room i)
    with Cons.prems(1,3) show ?thesis unfolding RoomLeave present_def clients_leave by force
  next
    case (RoomBroadcast room m)
    obtain rs w' where rs: "outcomes try_send m (clients_in st room) (co_world st) = (rs, w')"
      by (metis surj_pair)
    from Cons.prems(1,2) show ?thesis
      unfolding RoomBroadcast present_def broadcast_effect(1) [OF rs] by (auto simp: RoomBroadcast)
  qed
  with Cons.IH [OF this] Cons.prems show ?case by simp
qed simp

lemma present_after_join: "present cid (coordinator_step try_send (RoomJoin d cid tx ack) st) d"
  by (auto simp: present_def entry_list_def Let_def split: option.splits)

lemma absent_after_leave: "\<not> present cid (coordinator_step try_send (RoomLeave d cid) st) d"
  unfolding present_def clients_leave by auto

context session_channels
begin

lemma leave_commands:
  "commands_to state (snd (leave_on_close cmd_send state session w)) = commands_to state w @
    (case session_current_room session of
       None \<Rightarrow> []
     | Some d \<Rightarrow> if cmds.accepts w (handle_tx (app_rooms state)) then [RoomLeave d (session_client_id session)] else [])"
proof (cases "session_current_room session")
  case None
  then show ?thesis by (simp add: leave_on_close_def)
next
  case (Some d)
  then show ?thesis
    by (cases rule: cmds.send_cases [of w "handle_tx (app_rooms state)" "RoomLeave d (session_client_id session)"])
      (simp_all add: leave_on_close_def leave_room_def)
qed

text \<open>All the commands of a connection: its own, then possibly one leave of a document it joined.\<close>

lemma handle_socket_commands:
  assumes "handle_socket cmd_send client_send from_json cid tx frames aborted state w = (state', w')"
  shows "\<exists>cs leave. commands_to state w' = commands_to state w @ cs @ leave
    \<and> list_all (own_command cid tx (joined_docs from_json frames \<union> snd ` set_option aborted)) cs
    \<and> (leave = [] \<or> (\<exists>d \<in> joined_docs from_json frames. leave = [RoomLeave d cid]))"
proof -
  let ?docs = "joined_docs from_json frames \<union> snd ` set_option aborted"
  obtain s1 session w1 where run:
    "recv_loop cmd_send client_send from_json frames state (new_session cid tx) w = (s1, session, w1)"
    by (metis prod_cases3)
  from recv_loop_commands [OF run] obtain cs where cs: "app_rooms s1 = app_rooms state"
    "commands_to state w1 = commands_to state w @ cs"
    "list_all (own_command cid tx (joined_docs from_json frames)) cs"
    by (auto simp: new_session_def)
  have like: "session_client_id session = cid" "session_tx session = tx"
    "session_current_room session = None \<or> session_current_room session \<in> Some ` joined_docs from_json frames"
    using recv_loop_session [OF run] by (simp_all add: session_like_def new_session_def)
  obtain s2 w2 cs' where cut: "(case aborted of None \<Rightarrow> (s1, w1)
      | Some (respond_to, d) \<Rightarrow> (case join_send cmd_send respond_to d s1 session w1 of (r, s2, w2) \<Rightarrow> (s2, w2)))
      = (s2, w2)"
    and cs': "app_rooms s2 = app_rooms state" "commands_to state w2 = commands_to state w1 @ cs'"
      "list_all (own_command cid tx ?docs) cs'"
  proof (cases aborted)
    case None
    then show ?thesis using that [of s1 w1 "[]"] cs by simp
  next
    case (Some a)
    obtain r d where a: "a = (r, d)" by (cases a)
    let ?sent = "cmd_send (handle_tx (app_rooms s1)) (RoomJoin d cid tx r) w1"
    show ?thesis
      using that [of "snd (answered (fst ?sent) s1)" "snd ?sent"
          "if cmds.accepts w1 (handle_tx (app_rooms s1)) then [RoomJoin d cid tx r] else []"] Some a cs
      by (simp add: join_send_eq answer_send_def like cmds.send_queue)
  qed
  have final: "w' = snd (leave_on_close cmd_send s2 session w2)"
    using assms run cut by (simp add: handle_socket_def)
  let ?leave = "case session_current_room session of None \<Rightarrow> []
     | Some d \<Rightarrow> if cmds.accepts w2 (handle_tx (app_rooms s2)) then [RoomLeave d cid] else []"
  have "commands_to state w' = commands_to state w @ (cs @ cs') @ ?leave"
    using leave_commands [of s2 session w2, unfolded like(1)] cs cs' final by simp
  moreover have "list_all (own_command cid tx ?docs) (cs @ cs')"
    using own_commands_mono [OF cs(3), of ?docs] cs'(3) by simp
  moreover have "?leave = [] \<or> (\<exists>d \<in> joined_docs from_json frames. ?leave = [RoomLeave d cid])"
    using like(3) by (cases "session_current_room session") auto
  ultimately show ?thesis by blast
qed

end

section \<open>Two rooms\<close>

context session_channels
begin

text \<open>An accepted and acknowledged join.\<close>

lemma acked_join:
  assumes "from_json str = Inr (Join d)" "call_ack env = Acked" "cmds.accepts w (handle_tx (app_rooms state))"
  obtains w' where "handle_text cmd_send client_send from_json env str state session w =
      (state, session\<lparr>session_current_room := Some d\<rparr>, w')"
    and "commands_to state w' = commands_to state w @
      [RoomJoin d (session_client_id session) (session_tx session) (call_responder env)]"
    and "cmd_closed w' = cmd_closed w"
proof -
  let ?h = "handle_tx (app_rooms state)"
  let ?c = "RoomJoin d (session_client_id session) (session_tx session) (call_responder env)"
  obtain w1 where w1: "cmd_send ?h ?c w = (SendOk, w1)" "cmd_queue w1 = (cmd_queue w)(?h := cmd_queue w ?h @ [?c])"
    "cmd_closed w1 = cmd_closed w"
    using assms(3) by (cases rule: cmds.send_cases [of w ?h ?c]) simp_all
  show thesis
    by (rule that [of "snd (client_send (session_tx session) (Joined (session_client_id session) d) w1)"])
      (simp_all add: handle_text_def handle_join assms(1,2) w1 client_frame Let_def)
qed

lemma two_joins_commands:
  assumes "from_json f1 = Inr (Join d1)" "from_json f2 = Inr (Join d2)"
    and "call_ack e1 = Acked" "call_ack e2 = Acked"
    and "\<not> cmd_closed w (handle_tx (app_rooms state))"
    and "length (commands_to state w) + 3 \<le> cmd_capacity (handle_tx (app_rooms state))"
    and "handle_socket cmd_send client_send from_json cid tx [(e1, TextFrame f1), (e2, TextFrame f2)] None state w = (state', w')"
  shows "commands_to state w' = commands_to state w @
    [RoomJoin d1 cid tx (call_responder e1), RoomJoin d2 cid tx (call_responder e2), RoomLeave d2 cid]"
proof -
  let ?s = "new_session cid tx" and ?h = "handle_tx (app_rooms state)"
  have "cmds.accepts w ?h" using assms(5,6) by (simp add: cmds.accepts_def)
  from acked_join [where from_json = from_json and str = f1 and session = ?s, OF assms(1,3) this] obtain w1 where
    w1: "handle_text cmd_send client_send from_json e1 f1 state ?s w = (state, ?s\<lparr>session_current_room := Some d1\<rparr>, w1)"
      "commands_to state w1 = commands_to state w @ [RoomJoin d1 cid tx (call_responder e1)]" "cmd_closed w1 = cmd_closed w"
    by (auto simp: new_session_def)
  have "cmds.accepts w1 ?h" using assms(5,6) by (simp add: cmds.accepts_def w1)
  from acked_join [where from_json = from_json and str = f2 and session = "?s\<lparr>session_current_room := Some d1\<rparr>",
      OF assms(2,4) this] obtain w2 where
    w2: "handle_text cmd_send client_send from_json e2 f2 state (?s\<lparr>session_current_room := Some d1\<rparr>) w1 =
        (state, ?s\<lparr>session_current_room := Some d2\<rparr>, w2)"
      "commands_to state w2 = commands_to state w1 @ [RoomJoin d2 cid tx (call_responder e2)]" "cmd_closed w2 = cmd_closed w1"
    by (auto simp: new_session_def)
  have "cmds.accepts w2 ?h" using assms(5,6) by (simp add: cmds.accepts_def w1 w2)
  then have "commands_to state (snd (leave_on_close cmd_send state (?s\<lparr>session_current_room := Some d2\<rparr>) w2)) =
      commands_to state w2 @ [RoomLeave d2 cid]"
    by (simp add: leave_commands new_session_def)
  moreover have "w' = snd (leave_on_close cmd_send state (?s\<lparr>session_current_room := Some d2\<rparr>) w2)"
    using assms(7) by (simp add: handle_socket_def w1(1) w2(1))
  ultimately show ?thesis by (simp add: w1 w2)
qed

end

section \<open>Reference channels of both kinds\<close>

definition on_fst :: "('a \<Rightarrow> 'm \<Rightarrow> 'w \<Rightarrow> send_result \<times> 'w) \<Rightarrow> 'a \<Rightarrow> 'm \<Rightarrow> 'w \<times> 'v \<Rightarrow> send_result \<times> 'w \<times> 'v" where
  "on_fst send tx m w = (case send tx m (fst w) of (r, w') \<Rightarrow> (r, w', snd w))"

definition on_snd :: "('a \<Rightarrow> 'm \<Rightarrow> 'v \<Rightarrow> send_result \<times> 'v) \<Rightarrow> 'a \<Rightarrow> 'm \<Rightarrow> 'w \<times> 'v \<Rightarrow> send_result \<times> 'w \<times> 'v" where
  "on_snd send tx m w = (case send tx m (snd w) of (r, w') \<Rightarrow> (r, fst w, w'))"

interpretation ref_session: session_channels
  "on_fst (chan_try_send cap)" "\<lambda>w. chan_queue (fst w)" "\<lambda>w. chan_closed (fst w)" cap
  "on_snd (chan_try_send cap')" "\<lambda>w. chan_queue (snd w)" "\<lambda>w. chan_closed (snd w)" cap'
  for cap cap'
  by unfold_locales (auto simp: on_fst_def on_snd_def chan_try_send_def)

end
