(* ===== verification/Session_Cleanup.thy ===== *)
theory Session_Cleanup
  imports Session_Rooms
begin

text \<open>
  What a connection of \<^verbatim>\<open>src/websocket.rs\<close> owes its client and the actor: the answer to every text
  frame, and what is left of it after it ended.
\<close>

section \<open>The answer to a frame\<close>

text \<open>
  The contract: the command a frame asks for, and the reply, given whether the command channel takes a
  command. A message that was taken has no reply, everything else has one.
\<close>

definition frame_command ::
    "(string \<Rightarrow> string + client_message) \<Rightarrow> 'r call_env \<Rightarrow> string \<Rightarrow> 'tx session \<Rightarrow> ('tx, 'r) room_command option" where
  "frame_command from_json env str session =
    (case from_json str of Inl e \<Rightarrow> None | Inr msg \<Rightarrow> command_of env msg session)"

fun frame_reply ::
    "string + client_message \<Rightarrow> 'r call_env \<Rightarrow> bool \<Rightarrow> 'tx session \<Rightarrow> server_message option" where
  "frame_reply (Inl e) env takes session = Some (ErrorMessage (fmt_web_socket_error (InvalidMessage e)))"
| "frame_reply (Inr (Join d)) env takes session =
    Some (if takes \<and> call_ack env = Acked then Joined (session_client_id session) d
      else ErrorMessage (fmt_web_socket_error SendFailed))"
| "frame_reply (Inr (SendMessage str)) env takes session =
    (if session_current_room session = None then Some (ErrorMessage (fmt_web_socket_error NotInRoom))
     else if takes then None else Some (ErrorMessage (fmt_web_socket_error SendFailed)))"
| "frame_reply (Inr (SendMessageTo d str)) env takes session =
    (if takes then None else Some (ErrorMessage (fmt_web_socket_error SendFailed)))"

fun frame_room :: "string + client_message \<Rightarrow> 'r call_env \<Rightarrow> bool \<Rightarrow> 'tx session \<Rightarrow> document_id option" where
  "frame_room (Inr (Join d)) env takes session =
    (if takes \<and> call_ack env = Acked then Some d else session_current_room session)"
| "frame_room msg env takes session = session_current_room session"

definition actor_drops :: "('h, 'c) app_state \<Rightarrow> u64" where
  "actor_drops state = actor_cmd_drops_total (app_metrics state)"

lemma actor_drops_counted [simp]:
  "actor_drops (state\<lparr>app_metrics := inc_actor_cmd_drop (app_metrics state)\<rparr>) = actor_drops state + 1"
  by (simp add: actor_drops_def inc_actor_cmd_drop_def)

context session_channels
begin

lemma cmd_send_result:
  "fst (cmd_send h c w) = (if cmd_closed w h then SendClosed else if cmds.accepts w h then SendOk else SendFull)"
  by (cases rule: cmds.send_cases [of w h c]) simp_all

lemma cmd_send_effect:
  "cmd_queue (snd (cmd_send h c w)) h = cmd_queue w h @ (if cmds.accepts w h then [c] else [])"
  "client_queue (snd (cmd_send h c w)) = client_queue w" "cmd_closed (snd (cmd_send h c w)) = cmd_closed w"
  "clients.accepts (snd (cmd_send h c w)) tx = clients.accepts w tx"
  by (simp_all add: cmds.send_queue cmd_frame cmds.send_keeps_closed clients.accepts_def)

lemma client_send_effect:
  "client_queue (snd (client_send tx m w)) tx = client_queue w tx @ (if clients.accepts w tx then [m] else [])"
  by (simp add: clients.send_queue)

lemmas send_effects = cmd_send_result cmd_send_effect client_send_effect client_frame

lemma accepts_open: "cmds.accepts w h \<Longrightarrow> \<not> cmd_closed w h"
  by (simp add: cmds.accepts_def)

text \<open>The code keeps the contract.\<close>

lemma handle_text_answered:
  assumes "handle_text cmd_send client_send from_json env str state session w = (state', session', w')"
    and "h = handle_tx (app_rooms state)" "tx = session_tx session"
    and "c = frame_command from_json env str session" "takes = cmds.accepts w h"
  shows "cmd_queue w' h = cmd_queue w h @ (case c of Some x \<Rightarrow> if takes then [x] else [] | None \<Rightarrow> [])
    \<and> actor_drops state' = actor_drops state + of_bool (c \<noteq> None \<and> \<not> takes \<and> \<not> cmd_closed w h)
    \<and> client_queue w' tx = client_queue w tx @
        (case frame_reply (from_json str) env takes session of
           Some m \<Rightarrow> if clients.accepts w tx then [m] else [] | None \<Rightarrow> [])
    \<and> session' = session\<lparr>session_current_room := frame_room (from_json str) env takes session\<rparr>
    \<and> cmd_closed w' = cmd_closed w"
proof (cases "from_json str")
  case (Inl e)
  with assms show ?thesis
    by (auto simp: handle_text_def frame_command_def send_effects simp del: fmt_web_socket_error.simps)
next
  case (Inr msg)
  show ?thesis
    using assms Inr accepts_open
    by (cases msg; cases "session_current_room session")
      (auto simp: handle_text_def frame_command_def handle_eqs Let_def send_effects
        simp del: fmt_web_socket_error.simps split: sum.splits if_splits)
qed

end

section \<open>After the end of a connection\<close>

text \<open>Every join of the frames is acknowledged before its timeout; none is.\<close>

definition joins_answered ::
    "(ack \<Rightarrow> bool) \<Rightarrow> (string \<Rightarrow> string + client_message) \<Rightarrow> ('r call_env \<times> ws_frame) list \<Rightarrow> bool" where
  "joins_answered P from_json frames \<longleftrightarrow>
    (\<forall>(env, f) \<in> set frames. \<forall>str d. f = TextFrame str \<and> from_json str = Inr (Join d) \<longrightarrow> P (call_ack env))"

text \<open>The commands that put a client into a room or take it out.\<close>

fun concerns :: "client_id \<Rightarrow> ('tx, 'r) room_command \<Rightarrow> bool" where
  "concerns cid (RoomJoin d c tx r) \<longleftrightarrow> c = cid"
| "concerns cid (RoomLeave d c) \<longleftrightarrow> c = cid"
| "concerns cid (RoomBroadcast d m) \<longleftrightarrow> False"

fun is_join :: "('tx, 'r) room_command \<Rightarrow> bool" where
  "is_join (RoomJoin d c tx r) \<longleftrightarrow> True"
| "is_join (RoomLeave d c) \<longleftrightarrow> False"
| "is_join (RoomBroadcast d m) \<longleftrightarrow> False"

context session_channels
begin

lemma handle_text_room:
  assumes "handle_text cmd_send client_send from_json env str state session w = (state', session', w')"
    and acked: "\<And>d. from_json str = Inr (Join d) \<Longrightarrow> call_ack env = Acked"
  shows "\<exists>cs. commands_to state w' = commands_to state w @ cs \<and> length cs \<le> 1 \<and> cmd_closed w' = cmd_closed w
    \<and> (session_current_room session' \<noteq> None
       \<or> session_current_room session' = session_current_room session \<and> (\<forall>c \<in> set cs. \<not> is_join c))"
proof -
  let ?takes = "cmds.accepts w (handle_tx (app_rooms state))"
  note answered = handle_text_answered [OF assms(1) refl refl refl refl]
  show ?thesis
  proof (cases "\<exists>d. from_json str = Inr (Join d) \<and> ?takes")
    case True
    with answered acked show ?thesis by (auto simp: frame_command_def)
  next
    case False
    then have "session_current_room session' = session_current_room session"
      using answered by (cases "(from_json str, env, ?takes, session)" rule: frame_room.cases) auto
    moreover have "\<not> is_join c" if "?takes" "frame_command from_json env str session = Some c" for c
      using that False
      by (cases "from_json str"; cases "projr (from_json str)") (auto simp: frame_command_def split: option.splits)
    ultimately show ?thesis
      using answered by (cases "frame_command from_json env str session") auto
  qed
qed

lemma recv_loop_room:
  "recv_loop cmd_send client_send from_json frames state session w = (state', session', w') \<Longrightarrow>
    joins_answered (\<lambda>a. a = Acked) from_json frames \<Longrightarrow>
    \<exists>cs. commands_to state w' = commands_to state w @ cs \<and> length cs \<le> length frames \<and> cmd_closed w' = cmd_closed w
    \<and> (session_current_room session' \<noteq> None
       \<or> session_current_room session' = session_current_room session \<and> (\<forall>c \<in> set cs. \<not> is_join c))"
proof (induction frames arbitrary: state session w)
  case (Cons f frames)
  obtain env fr where f: "f = (env, fr)" by (cases f)
  have later: "joins_answered (\<lambda>a. a = Acked) from_json frames"
    using Cons.prems(2) by (simp add: joins_answered_def)
  show ?case
  proof (cases fr)
    case (TextFrame str)
    obtain s1 session1 w1 where h:
      "handle_text cmd_send client_send from_json env str state session w = (s1, session1, w1)"
      by (metis prod_cases3)
    have app: "app_rooms s1 = app_rooms state" by (rule handle_text_commands(1) [OF h])
    have acked: "call_ack env = Acked" if "from_json str = Inr (Join d)" for d
      using Cons.prems(2) that unfolding joins_answered_def f TextFrame by auto
    from handle_text_room [OF h] acked obtain cs where cs: "commands_to state w1 = commands_to state w @ cs"
      "length cs \<le> 1" "cmd_closed w1 = cmd_closed w" "session_current_room session1 \<noteq> None
       \<or> session_current_room session1 = session_current_room session \<and> (\<forall>c \<in> set cs. \<not> is_join c)" by blast
    from Cons.IH [OF _ later, of s1 session1 w1] Cons.prems(1) f TextFrame h app obtain cs' where
      cs': "commands_to state w' = commands_to state w1 @ cs'" "length cs' \<le> length frames"
      "cmd_closed w' = cmd_closed w1" "session_current_room session' \<noteq> None
       \<or> session_current_room session' = session_current_room session1 \<and> (\<forall>c \<in> set cs'. \<not> is_join c)" by auto
    show ?thesis by (rule exI [of _ "cs @ cs'"]) (use cs cs' in auto)
  next
    case OtherFrame
    with Cons.IH [OF _ later, of state session w] Cons.prems(1) f show ?thesis by fastforce
  next
    case FrameError
    with Cons.prems(1) f show ?thesis by (auto intro: exI [of _ "[]"])
  qed
qed (auto intro: exI [of _ "[]"])

text \<open>
  The commands of a connection whose joins were all acknowledged, the leave included: either it never
  got into a room, or its last command is the leave of its room.
\<close>

lemma cleaned_up_commands:
  assumes "handle_socket cmd_send client_send from_json cid tx frames None state w = (state', w')"
    and "joined_docs from_json frames \<subseteq> {d}" "joins_answered (\<lambda>a. a = Acked) from_json frames"
    and "\<not> cmd_closed w (handle_tx (app_rooms state))"
    and "length (commands_to state w) + length frames < cmd_capacity (handle_tx (app_rooms state))"
  obtains cs where "list_all (own_command cid tx {d}) cs"
    "commands_to state w' = commands_to state w @ cs \<and> (\<forall>c \<in> set cs. \<not> is_join c)
      \<or> commands_to state w' = commands_to state w @ cs @ [RoomLeave d cid]"
proof -
  obtain s1 session w1 where run:
    "recv_loop cmd_send client_send from_json frames state (new_session cid tx) w = (s1, session, w1)"
    by (metis prod_cases3)
  from recv_loop_commands [OF run] obtain cs where cs: "app_rooms s1 = app_rooms state"
    "commands_to state w1 = commands_to state w @ cs"
    "list_all (own_command cid tx (joined_docs from_json frames)) cs"
    by (auto simp: new_session_def)
  from recv_loop_room [OF run assms(3)] cs(2) have room: "length cs \<le> length frames" "cmd_closed w1 = cmd_closed w"
    "session_current_room session \<noteq> None \<or> (\<forall>c \<in> set cs. \<not> is_join c)" by auto
  have like: "session_client_id session = cid"
    "session_current_room session = None \<or> session_current_room session \<in> Some ` joined_docs from_json frames"
    using recv_loop_session [OF run] by (simp_all add: session_like_def new_session_def)
  have "cmds.accepts w1 (handle_tx (app_rooms s1))"
    using assms(4,5) room(1,2) cs(1,2) by (simp add: cmds.accepts_def)
  then have final: "commands_to state w' = commands_to state w @ cs @
      (case session_current_room session of None \<Rightarrow> [] | Some d \<Rightarrow> [RoomLeave d cid])"
    using assms(1) run leave_commands [of s1 session w1] cs(1,2) like(1)
    by (simp add: handle_socket_def split: option.splits)
  have "list_all (own_command cid tx {d}) cs" by (rule own_commands_mono [OF cs(3) assms(2)])
  then show thesis
    by (rule that) (use final room(3) like(2) assms(2) in \<open>cases "session_current_room session"; auto\<close>)
qed

end

lemma present_concerned:
  "present cid (rooms_coordinator try_send cmds st) d \<Longrightarrow> \<not> present cid st d \<Longrightarrow>
    \<exists>tx r. RoomJoin d cid tx r \<in> set (filter (concerns cid) cmds)"
  using present_run [of cid try_send cmds st d] by auto

text \<open>A leave as the last command about a client, whatever the actor handles between.\<close>

lemma absent_after_last_leave:
  assumes "filter (concerns cid) cmds = js @ [RoomLeave d cid]"
    and "\<And>d' tx r. RoomJoin d' cid tx r \<in> set js \<Longrightarrow> d' = d" and "\<forall>d. \<not> present cid st d"
  shows "\<not> present cid (rooms_coordinator try_send cmds st) d'"
proof
  assume here: "present cid (rooms_coordinator try_send cmds st) d'"
  with present_concerned assms(3) obtain tx r where "RoomJoin d' cid tx r \<in> set (filter (concerns cid) cmds)" by blast
  with assms(1,2) have d': "d' = d" by auto
  have "RoomLeave d cid \<in> set (filter (concerns cid) cmds)" by (simp add: assms(1))
  then have "RoomLeave d cid \<in> set cmds" by simp
  then obtain pre post where post: "cmds = pre @ RoomLeave d cid # post" "RoomLeave d cid \<notin> set post"
    using split_list_last by metis
  have "filter (concerns cid) post = []"
  proof (rule ccontr)
    assume ne: "filter (concerns cid) post \<noteq> []"
    then have "last (filter (concerns cid) post) = last (filter (concerns cid) cmds)" by (simp add: post(1))
    then have "last (filter (concerns cid) post) = RoomLeave d cid" by (simp add: assms(1))
    with last_in_set [OF ne] post(2) show False by simp
  qed
  with post(1) have split: "cmds = pre @ RoomLeave d cid # post" "filter (concerns cid) post = []" by blast+
  let ?st = "coordinator_step try_send (RoomLeave d cid) (rooms_coordinator try_send pre st)"
  have "present cid (rooms_coordinator try_send post ?st) d" using here by (simp add: split d')
  with present_concerned [OF this absent_after_leave] split(2) show False by simp
qed

context session_channels
begin

text \<open>Such a connection leaves no trace in the membership, however its commands are interleaved.\<close>

lemma no_ghost_member:
  assumes "handle_socket cmd_send client_send from_json cid tx frames None state w = (state', w')"
    and "joined_docs from_json frames \<subseteq> {d}" "joins_answered (\<lambda>a. a = Acked) from_json frames"
    and "\<not> cmd_closed w (handle_tx (app_rooms state))"
    and "length (commands_to state w) + length frames < cmd_capacity (handle_tx (app_rooms state))"
    and "commands_to state w' = commands_to state w @ sent"
    and "filter (concerns cid) cmds = filter (concerns cid) sent" "\<forall>d. \<not> present cid st d"
  shows "\<not> present cid (rooms_coordinator try_send cmds st) d'"
proof -
  from cleaned_up_commands [OF assms(1-5)] assms(6) obtain cs where own: "list_all (own_command cid tx {d}) cs"
    and sent: "sent = cs \<and> (\<forall>c \<in> set cs. \<not> is_join c) \<or> sent = cs @ [RoomLeave d cid]" by auto
  have joins: "d' = d" if "RoomJoin d' cid tx' r \<in> set (filter (concerns cid) cs)" for d' tx' r
    using own that by (auto simp: list_all_iff)
  from sent show ?thesis
  proof
    assume "sent = cs \<and> (\<forall>c \<in> set cs. \<not> is_join c)"
    then have "RoomJoin d' cid tx' r \<notin> set (filter (concerns cid) cmds)" for tx' r
      unfolding assms(7) by auto
    with present_concerned assms(8) show ?thesis by blast
  next
    assume "sent = cs @ [RoomLeave d cid]"
    then have "filter (concerns cid) cmds = filter (concerns cid) cs @ [RoomLeave d cid]" by (simp add: assms(7))
    then show ?thesis by (rule absent_after_last_leave) (use joins assms(8) in blast)+
  qed
qed

text \<open>A connection none of whose joins was acknowledged in time sends no leave.\<close>

lemma unanswered_join:
  assumes "from_json str = Inr (Join d)" "call_ack env \<noteq> Acked"
    and "cmds.accepts w (handle_tx (app_rooms state))"
    and "handle_socket cmd_send client_send from_json cid tx [(env, TextFrame str)] None state w = (state', w')"
  shows "commands_to state w' = commands_to state w @ [RoomJoin d cid tx (call_responder env)]
    \<and> client_queue w' tx = client_queue w tx @
      (if clients.accepts w tx then [ErrorMessage (fmt_web_socket_error SendFailed)] else [])"
proof -
  obtain s1 session w1 where h:
    "handle_text cmd_send client_send from_json env str state (new_session cid tx) w = (s1, session, w1)"
    by (metis prod_cases3)
  note answered = handle_text_answered [OF h refl refl refl refl]
  have session: "session = new_session cid tx"
    using answered assms(1,2) by (simp add: new_session_def)
  have "w' = w1"
    using assms(4) h session by (simp add: handle_socket_def leave_on_close_def new_session_def)
  with answered assms(1-3) show ?thesis
    by (simp add: frame_command_def new_session_def del: fmt_web_socket_error.simps)
qed

end

end
