(* ===== verification/Subscription_Index.thy ===== *)
theory Subscription_Index
  imports Wal_Types
begin

text \<open>
  \<^verbatim>\<open>src/edge/subscription_index.rs\<close>: the two indexes between hints and subscriptions. The
  abstract state is the map from subscriptions to their hints; the locale \<open>hint_index\<close> states what
  a user of the index relies on, and the indexes of the code are shown to provide it for every
  order in which the hash sets are iterated.
\<close>

type_synonym subscription_id = string

datatype subscription_index_error =
    AlreadySubscribed subscription_id
  | UnknownSubscription subscription_id

fun fmt_subscription_index_error :: "subscription_index_error \<Rightarrow> string" where
  "fmt_subscription_index_error (AlreadySubscribed i) = ''subscription already exists: '' @ i"
| "fmt_subscription_index_error (UnknownSubscription i) = ''unknown subscription: '' @ i"

record subscription_index =
  inverted_index :: "(query_hint, subscription_id fset) fmap"
  subscription_hints :: "(subscription_id, query_hint fset) fmap"

definition empty_index :: subscription_index where
  "empty_index = \<lparr>inverted_index = fmempty, subscription_hints = fmempty\<rparr>"

section \<open>Operations\<close>

text \<open>The bodies of the loops over hints that add a subscription and remove it.\<close>

definition register_hint ::
    "subscription_id \<Rightarrow> query_hint \<Rightarrow> (query_hint, subscription_id fset) fmap \<Rightarrow>
      (query_hint, subscription_id fset) fmap" where
  "register_hint subscription_id hint inverted =
    fmupd hint (finsert subscription_id (entry_fset inverted hint)) inverted"

definition unregister_hint ::
    "subscription_id \<Rightarrow> query_hint \<Rightarrow> (query_hint, subscription_id fset) fmap \<Rightarrow>
      (query_hint, subscription_id fset) fmap" where
  "unregister_hint subscription_id hint inverted =
    (case fmlookup inverted hint of
       None \<Rightarrow> inverted
     | Some subs0 \<Rightarrow>
         (let subs = subs0 |-| {|subscription_id|}
          in if subs = {||} then fmdrop hint inverted else fmupd hint subs inverted))"

definition subscribe ::
    "(query_hint fset \<Rightarrow> query_hint list) \<Rightarrow> subscription_id \<Rightarrow> query_hint fset \<Rightarrow> subscription_index \<Rightarrow>
      (subscription_index_error + unit) \<times> subscription_index" where
  "subscribe it subscription_id hints self =
    (if subscription_id |\<in>| fmdom (subscription_hints self)
     then (Inl (AlreadySubscribed subscription_id), self)
     else
       (let inverted = fold (register_hint subscription_id) (it hints) (inverted_index self)
        in (Inr (), self\<lparr>inverted_index := inverted,
              subscription_hints := fmupd subscription_id hints (subscription_hints self)\<rparr>)))"

definition unsubscribe ::
    "(query_hint fset \<Rightarrow> query_hint list) \<Rightarrow> subscription_id \<Rightarrow> subscription_index \<Rightarrow>
      query_hint fset option \<times> subscription_index" where
  "unsubscribe it subscription_id self =
    (case fmlookup (subscription_hints self) subscription_id of
       None \<Rightarrow> (None, self)
     | Some hints \<Rightarrow>
         (let inverted = fold (unregister_hint subscription_id) (it hints) (inverted_index self)
          in (Some hints, self\<lparr>inverted_index := inverted,
                subscription_hints := fmdrop subscription_id (subscription_hints self)\<rparr>)))"

definition update_hints ::
    "(query_hint fset \<Rightarrow> query_hint list) \<Rightarrow> subscription_id \<Rightarrow> query_hint fset \<Rightarrow> subscription_index \<Rightarrow>
      (subscription_index_error + unit) \<times> subscription_index" where
  "update_hints it subscription_id new_hints self =
    (case fmlookup (subscription_hints self) subscription_id of
       None \<Rightarrow> (Inl (UnknownSubscription subscription_id), self)
     | Some old_hints \<Rightarrow>
         (let removed = filter (\<lambda>h. h |\<notin>| new_hints) (it old_hints);
              added = filter (\<lambda>h. h |\<notin>| old_hints) (it new_hints);
              inverted1 = fold (unregister_hint subscription_id) removed (inverted_index self);
              inverted2 = fold (register_hint subscription_id) added inverted1
          in (Inr (), self\<lparr>inverted_index := inverted2,
                subscription_hints := fmupd subscription_id new_hints (subscription_hints self)\<rparr>)))"

definition subscriptions_for_hint :: "query_hint \<Rightarrow> subscription_index \<Rightarrow> subscription_id fset" where
  "subscriptions_for_hint hint self = entry_fset (inverted_index self) hint"

definition hints_for_subscription :: "subscription_id \<Rightarrow> subscription_index \<Rightarrow> query_hint fset option" where
  "hints_for_subscription subscription_id self = fmlookup (subscription_hints self) subscription_id"

definition index_is_empty :: "subscription_index \<Rightarrow> bool" where
  "index_is_empty self \<longleftrightarrow> inverted_index self = fmempty \<and> subscription_hints self = fmempty"

section \<open>Consistency of the two indexes\<close>

text \<open>
  Every entry of the inverted index is nonempty and lists exactly the subscriptions that have the
  hint: nothing leaks and no invalidation is a ghost.
\<close>

definition index_ok :: "subscription_index \<Rightarrow> bool" where
  "index_ok self \<longleftrightarrow>
    (\<forall>h. fmlookup (inverted_index self) h \<noteq> Some {||})
    \<and> (\<forall>h i. i |\<in>| entry_fset (inverted_index self) h \<longleftrightarrow>
        h |\<in>| entry_fset (subscription_hints self) i)"

text \<open>The loops, as one update of the inverted index at every hint.\<close>

definition no_empty_entry :: "(query_hint, subscription_id fset) fmap \<Rightarrow> bool" where
  "no_empty_entry inverted \<longleftrightarrow> (\<forall>h. fmlookup inverted h \<noteq> Some {||})"

lemma register_entry:
  "entry_fset (register_hint i hint inverted) h =
    (if h = hint then finsert i (entry_fset inverted h) else entry_fset inverted h)"
  by (simp add: register_hint_def)

lemma unregister_entry:
  "entry_fset (unregister_hint i hint inverted) h =
    (if h = hint then entry_fset inverted h |-| {|i|} else entry_fset inverted h)"
  by (auto simp: unregister_hint_def entry_fset_def Let_def split: option.split)

lemma register_no_empty: "no_empty_entry inverted \<Longrightarrow> no_empty_entry (register_hint i hint inverted)"
  by (auto simp: no_empty_entry_def register_hint_def)

lemma unregister_no_empty: "no_empty_entry inverted \<Longrightarrow> no_empty_entry (unregister_hint i hint inverted)"
  by (auto simp: no_empty_entry_def unregister_hint_def Let_def split: option.split)

lemma register_loop:
  "entry_fset (fold (register_hint i) hs inverted) h =
    (if h \<in> set hs then finsert i (entry_fset inverted h) else entry_fset inverted h)"
  by (induction hs arbitrary: inverted) (auto simp: register_entry)

lemma unregister_loop:
  "entry_fset (fold (unregister_hint i) hs inverted) h =
    (if h \<in> set hs then entry_fset inverted h |-| {|i|} else entry_fset inverted h)"
  by (induction hs arbitrary: inverted) (auto simp: unregister_entry)

lemma register_loop_no_empty:
  "no_empty_entry inverted \<Longrightarrow> no_empty_entry (fold (register_hint i) hs inverted)"
  by (induction hs arbitrary: inverted) (auto simp: register_no_empty)

lemma unregister_loop_no_empty:
  "no_empty_entry inverted \<Longrightarrow> no_empty_entry (fold (unregister_hint i) hs inverted)"
  by (induction hs arbitrary: inverted) (auto simp: unregister_no_empty)

lemma index_ok_iff:
  "index_ok self \<longleftrightarrow> no_empty_entry (inverted_index self)
    \<and> (\<forall>h i. i |\<in>| entry_fset (inverted_index self) h \<longleftrightarrow> h |\<in>| entry_fset (subscription_hints self) i)"
  by (simp add: index_ok_def no_empty_entry_def)

lemma index_ok_empty [inv_intros]: "index_ok empty_index"
  by (simp add: index_ok_def empty_index_def)

lemma subscribe_hints:
  "subscription_hints (snd (subscribe it i hints self)) =
    (if i |\<in>| fmdom (subscription_hints self) then subscription_hints self
     else fmupd i hints (subscription_hints self))"
  by (simp add: subscribe_def Let_def)

lemma unsubscribe_hints:
  "subscription_hints (snd (unsubscribe it i self)) = fmdrop i (subscription_hints self)"
  by (auto simp: unsubscribe_def Let_def fmdrop_idle fmdom_notI split: option.split)

lemma update_subscription_hints:
  "subscription_hints (snd (update_hints it i hints self)) =
    (if i |\<in>| fmdom (subscription_hints self) then fmupd i hints (subscription_hints self)
     else subscription_hints self)"
  by (auto simp: update_hints_def Let_def fmdom_notI dest: fmdomI split: option.split)

lemma subscribe_ok [inv_intros]:
  assumes "iteration_order it" "index_ok self"
  shows "index_ok (snd (subscribe it i hints self))"
proof (cases "i |\<in>| fmdom (subscription_hints self)")
  case True
  with assms show ?thesis by (simp add: subscribe_def)
next
  case False
  then have "entry_fset (subscription_hints self) i = {||}"
    by (simp add: entry_fset_def fmdom_notD)
  with False assms show ?thesis
    by (auto simp: index_ok_iff subscribe_def register_loop register_loop_no_empty
        iteration_order_set split: if_splits)
qed

lemma unsubscribe_ok [inv_intros]:
  assumes "iteration_order it" "index_ok self"
  shows "index_ok (snd (unsubscribe it i self))"
proof (cases "fmlookup (subscription_hints self) i")
  case None
  with assms show ?thesis by (simp add: unsubscribe_def)
next
  case (Some hints)
  then have "entry_fset (subscription_hints self) i = hints" by (simp add: entry_fset_def)
  with Some assms show ?thesis
    by (auto simp: index_ok_iff unsubscribe_def unregister_loop unregister_loop_no_empty
        iteration_order_set split: if_splits)
qed

lemma update_hints_ok [inv_intros]:
  assumes "iteration_order it" "index_ok self"
  shows "index_ok (snd (update_hints it i hints self))"
proof (cases "fmlookup (subscription_hints self) i")
  case None
  with assms show ?thesis by (simp add: update_hints_def)
next
  case (Some old)
  then have "entry_fset (subscription_hints self) i = old" by (simp add: entry_fset_def)
  with Some assms show ?thesis
    by (auto simp: index_ok_iff update_hints_def Let_def register_loop unregister_loop
        register_loop_no_empty unregister_loop_no_empty iteration_order_set split: if_splits)
qed

text \<open>The inverted index carries no information of its own: equal hints, equal indexes.\<close>

lemma index_determined:
  assumes "index_ok a" "index_ok b" "subscription_hints a = subscription_hints b"
  shows "a = b"
proof -
  have "fmlookup (inverted_index a) h = fmlookup (inverted_index b) h" for h
  proof -
    have "entry_fset (inverted_index a) h = entry_fset (inverted_index b) h"
      using assms by (auto simp: index_ok_def intro!: fset_eqI)
    then show ?thesis
      using assms(1,2)
      by (cases "fmlookup (inverted_index a) h"; cases "fmlookup (inverted_index b) h")
        (force simp: index_ok_def entry_fset_def)+
  qed
  then have "inverted_index a = inverted_index b" by (rule fmap_ext)
  with assms(3) show ?thesis by simp
qed

section \<open>The contract\<close>

datatype index_op =
    OpSubscribe subscription_id "query_hint fset"
  | OpUnsubscribe subscription_id
  | OpUpdate subscription_id "query_hint fset"

text \<open>What an operation does to the abstract map, and a history of operations.\<close>

fun abstract_op ::
    "index_op \<Rightarrow> (subscription_id, query_hint fset) fmap \<Rightarrow> (subscription_id, query_hint fset) fmap" where
  "abstract_op (OpSubscribe i hs) m = (if i |\<in>| fmdom m then m else fmupd i hs m)"
| "abstract_op (OpUnsubscribe i) m = fmdrop i m"
| "abstract_op (OpUpdate i hs) m = (if i |\<in>| fmdom m then fmupd i hs m else m)"

fun index_op_run ::
    "(query_hint fset \<Rightarrow> query_hint list) \<Rightarrow> index_op \<Rightarrow> subscription_index \<Rightarrow> subscription_index" where
  "index_op_run it (OpSubscribe i hs) self = snd (subscribe it i hs self)"
| "index_op_run it (OpUnsubscribe i) self = snd (unsubscribe it i self)"
| "index_op_run it (OpUpdate i hs) self = snd (update_hints it i hs self)"

locale hint_index =
  fixes run_op :: "index_op \<Rightarrow> 'i \<Rightarrow> 'i"
    and affected :: "query_hint \<Rightarrow> 'i \<Rightarrow> subscription_id fset"
    and abstract :: "'i \<Rightarrow> (subscription_id, query_hint fset) fmap"
    and ok :: "'i \<Rightarrow> bool"
  assumes op_ok: "ok self \<Longrightarrow> ok (run_op op self)"
    and op_abstract: "ok self \<Longrightarrow> abstract (run_op op self) = abstract_op op (abstract self)"
    and affected_iff: "ok self \<Longrightarrow> i |\<in>| affected h self \<longleftrightarrow> h |\<in>| entry_fset (abstract self) i"
    and determined: "ok a \<Longrightarrow> ok b \<Longrightarrow> abstract a = abstract b \<Longrightarrow> a = b"
begin

lemma history_ok: "ok self \<Longrightarrow> ok (fold run_op ops self)"
  by (induction ops arbitrary: self) (auto simp: op_ok)

lemma history_abstract:
  "ok self \<Longrightarrow> abstract (fold run_op ops self) = fold abstract_op ops (abstract self)"
  by (induction ops arbitrary: self) (auto simp: op_ok op_abstract)

lemma history_affected:
  "ok self \<Longrightarrow> i |\<in>| affected h (fold run_op ops self) \<longleftrightarrow>
    h |\<in>| entry_fset (fold abstract_op ops (abstract self)) i"
  by (simp add: affected_iff history_ok history_abstract)

text \<open>Histories with the same abstract effect end in the same index.\<close>

lemma history_equal:
  assumes "ok self" "fold abstract_op ops (abstract self) = fold abstract_op ops' (abstract self)"
  shows "fold run_op ops self = fold run_op ops' self"
  using assms by (intro determined history_ok) (simp_all add: history_abstract)

lemma subscribe_unsubscribe:
  assumes "ok self" "i |\<notin>| fmdom (abstract self)"
  shows "run_op (OpUnsubscribe i) (run_op (OpSubscribe i hs) self) = self"
proof -
  have "fmdrop i (fmupd i hs (abstract self)) = abstract self"
    using assms(2) by (simp add: fmdrop_fmupd_same fmdrop_idle)
  with history_equal [of self "[OpSubscribe i hs, OpUnsubscribe i]" "[]"] assms show ?thesis by simp
qed

lemma update_as_resubscribe:
  assumes "ok self" "i |\<in>| fmdom (abstract self)"
  shows "run_op (OpUpdate i hs) self = run_op (OpSubscribe i hs) (run_op (OpUnsubscribe i) self)"
proof -
  have "fmupd i hs (fmdrop i (abstract self)) = fmupd i hs (abstract self)"
    by (rule fmap_ext) simp
  with history_equal [of self "[OpUnsubscribe i, OpSubscribe i hs]" "[OpUpdate i hs]"] assms
  show ?thesis by simp
qed

end

locale hash_order =
  fixes it :: "query_hint fset \<Rightarrow> query_hint list"
  assumes order: "iteration_order it"

lemma index_op_abstract:
  "subscription_hints (index_op_run it op self) = abstract_op op (subscription_hints self)"
  by (cases op) (simp_all add: subscribe_hints unsubscribe_hints update_subscription_hints)

lemma index_op_ok [inv_intros]:
  "iteration_order it \<Longrightarrow> index_ok self \<Longrightarrow> index_ok (index_op_run it op self)"
  by (cases op) (simp_all add: inv_intros)

lemma affected_ok_iff:
  "index_ok self \<Longrightarrow>
    i |\<in>| subscriptions_for_hint h self \<longleftrightarrow> h |\<in>| entry_fset (subscription_hints self) i"
  by (simp add: index_ok_def subscriptions_for_hint_def)

sublocale hash_order \<subseteq> index: hint_index "index_op_run it" subscriptions_for_hint subscription_hints
  index_ok
  by unfold_locales
    (auto simp: index_op_ok order index_op_abstract affected_ok_iff intro: index_determined)

context hash_order
begin

lemmas index_history = index.history_ok index.history_abstract index.history_affected
lemmas index_undo = index.subscribe_unsubscribe
lemmas index_replace = index.update_as_resubscribe

end

interpretation sorted_hints: hash_order sorted_list_of_fset
  by unfold_locales (rule iteration_order_sorted)

end
