(* ===== verification/Room_Properties.thy ===== *)
theory Room_Properties
  imports Session_Cleanup Subscription_Index Wal_Handle
begin

text \<open>
  The properties of the live side: rooms and their broadcasts, sessions and connections, and the subscription index of the edge. Concrete inputs use the reference channels.
\<close>

section \<open>Rooms\<close>

text \<open>
  C7. Membership is the history of joins and leaves: as long as no channel of a client is closed, the
  channels a client has in a room after any commands are those of its joins since its last leave, in
  order, once per join, whatever was broadcast in between.
\<close>

theorem membership_is_history:
  assumes "mpsc try_send queue closed capacity"
    and "\<forall>tx ack. RoomJoin d c tx ack \<in> set cmds \<longrightarrow> \<not> closed w tx"
  shows "senders_of c (clients_in (rooms_coordinator try_send cmds (coordinator_start m w)) d) =
    joins_since_leave d c cmds"
  using client_channels.senders_run [OF client_channels.intro [OF assms(1)], of c "coordinator_start m w" d cmds]
    assms(2)
  by (simp add: coordinator_start_def joins_since_leave_def)

theorem membership_is_history_witness:
  "senders_of ''c'' (clients_in (rooms_coordinator (chan_try_send (\<lambda>_. 2))
      [RoomJoin ''a'' ''c'' (0 :: nat) (0 :: nat), RoomLeave ''a'' ''c'', RoomJoin ''a'' ''c'' 1 1,
        RoomBroadcast ''a'' (ErrorMessage ''x'')] (coordinator_start new_metrics open_channels)) ''a'') = [1]"
  using membership_is_history [OF ref_chan.mpsc_axioms, of "''a''" "''c''" "[RoomJoin ''a'' ''c'' (0 :: nat) (0 :: nat),
      RoomLeave ''a'' ''c'', RoomJoin ''a'' ''c'' 1 1, RoomBroadcast ''a'' (ErrorMessage ''x'')]"
      open_channels "\<lambda>_. 2" new_metrics]
  by (simp add: open_channels_def joins_since_leave_def)

text \<open>
  C8. A broadcast is fair and complete: every member with an open channel that has space gets the
  message once, at the end of its queue, nobody else gets anything; the members that stay are exactly
  those without a closed channel, other rooms keep theirs, and a full channel is counted once.
\<close>

theorem broadcast_delivers:
  assumes "mpsc try_send queue closed capacity" and "distinct (map snd (clients_in st room))"
    and "coordinator_step try_send (RoomBroadcast room message) st = st'"
  shows "(\<forall>tx. queue (co_world st') tx = queue (co_world st) tx @
      (if tx \<in> snd ` set (clients_in st room) \<and> mpsc.accepts queue closed capacity (co_world st) tx
       then [message] else []))
    \<and> (\<forall>d. clients_in st' d =
      (if d = room
       then filter (\<lambda>(cid, _). \<forall>tx. (cid, tx) \<in> set (clients_in st room) \<longrightarrow> \<not> closed (co_world st) tx)
         (clients_in st room)
       else clients_in st d))
    \<and> fanout_drops_total (co_metrics st') = fanout_drops_total (co_metrics st) +
      of_nat (length (filter (\<lambda>(_, tx). \<not> closed (co_world st) tx
        \<and> \<not> mpsc.accepts queue closed capacity (co_world st) tx) (clients_in st room)))"
proof -
  note chans = client_channels.intro [OF assms(1)]
  obtain rs w' where rs: "outcomes try_send message (clients_in st room) (co_world st) = (rs, w')"
    by (metis surj_pair)
  note effect = broadcast_effect [OF rs, unfolded assms(3)]
  show ?thesis
    using client_channels.outcomes_queue [OF chans assms(2), where message = message and w = "co_world st"]
      client_channels.outcomes_drops [OF chans assms(2), where message = message and w = "co_world st"]
      client_channels.broadcast_clients [OF chans, where message = message and room = room and st = st]
      assms(3)
    by (simp add: rs effect(2,3) add_fanout_drops_def)
qed

theorem broadcast_delivers_witness:
  "chan_queue (co_world (coordinator_step (chan_try_send (\<lambda>_. 1)) (RoomBroadcast ''a'' (ErrorMessage ''x''))
      ((coordinator_start new_metrics (open_channels :: (nat, server_message) channels))
        \<lparr>co_rooms := fmap_of_list [(''a'', [(''c'', 0 :: nat), (''d'', 1)])]\<rparr>))) 1 = [ErrorMessage ''x'']"
proof -
  let ?st = "(coordinator_start new_metrics (open_channels :: (nat, server_message) channels))
    \<lparr>co_rooms := fmap_of_list [(''a'', [(''c'', 0 :: nat), (''d'', 1)])]\<rparr>"
  have members: "clients_in ?st ''a'' = [(''c'', 0), (''d'', 1)]" by (simp add: entry_list_def)
  have "distinct (map snd (clients_in ?st ''a''))" unfolding members by simp
  from spec [OF conjunct1 [OF broadcast_delivers [OF ref_chan.mpsc_axioms this refl, of "\<lambda>_. 1" "ErrorMessage ''x''"]], of 1]
  show ?thesis
    unfolding members
    by (simp add: coordinator_start_def open_channels_def ref_chan.accepts_def del: coordinator_step.simps)
qed

text \<open>
  In every state of the rooms actor no room is empty, and the joins are acknowledged one by one in
  the order the actor received them, exactly once each.
\<close>

theorem coordinator_invariant:
  "rooms_ok (rooms_coordinator try_send cmds (coordinator_start m w))
    \<and> co_acks (rooms_coordinator try_send cmds (coordinator_start m w)) = concat (map ack_of cmds)"
  using rooms_ok_run [OF rooms_ok_start] acks_run [of try_send cmds "coordinator_start m w"]
  by (simp add: coordinator_start_def)

text \<open>
  C33. A client that joins a room twice is entered twice, and every broadcast reaches it twice: the
  actor does not look whether the client is already there.
\<close>

theorem double_join_duplicates:
  assumes "mpsc try_send queue closed capacity" and "tx \<notin> snd ` set (clients_in st d)"
    and "\<not> closed (co_world st) tx" "length (queue (co_world st) tx) + 2 \<le> capacity tx"
  shows "queue (co_world (rooms_coordinator try_send
      [RoomJoin d cid tx r, RoomJoin d cid tx r', RoomBroadcast d message] st)) tx =
    queue (co_world st) tx @ [message, message]"
proof -
  let ?st = "coordinator_step try_send (RoomJoin d cid tx r') (coordinator_step try_send (RoomJoin d cid tx r) st)"
  have "filter (\<lambda>c. snd c = tx) (clients_in st d) = []" using assms(2) by (auto simp: filter_empty_conv)
  then have copies: "length (filter (\<lambda>c. snd c = tx) (clients_in ?st d)) = 2" by (simp only: clients_join) simp
  have world: "co_world ?st = co_world st" by (simp only: step_join_leave_world)
  obtain rs w where rs: "outcomes try_send message (clients_in ?st d) (co_world ?st) = (rs, w)" by (metis surj_pair)
  have "queue w tx = queue (co_world st) tx @ [message, message]"
    using client_channels.outcomes_listed [OF client_channels.intro [OF assms(1)], of "co_world ?st" tx "clients_in ?st d" message]
      assms(3,4) unfolding copies world by (simp add: rs [unfolded world] numeral_2_eq_2 del: coordinator_step.simps)
  then show ?thesis by (simp only: rooms_coordinator_simps broadcast_effect(2) [OF rs])
qed

theorem double_join_duplicates_witness:
  "chan_queue (co_world (rooms_coordinator (chan_try_send (\<lambda>_. client_channel_capacity))
      [RoomJoin ''a'' ''me'' 0 1, RoomJoin ''a'' ''me'' 0 2, RoomBroadcast ''a'' (Invalidation [] 9)]
      (coordinator_start new_metrics (open_channels :: (nat, server_message) channels)))) 0 =
    [Invalidation [] 9, Invalidation [] 9]"
proof -
  let ?st = "coordinator_start new_metrics (open_channels :: (nat, server_message) channels)"
  have empty: "chan_queue (co_world ?st) 0 = []" "\<not> chan_closed (co_world ?st) 0" "clients_in ?st ''a'' = []"
    by (simp_all add: coordinator_start_def open_channels_def entry_list_def)
  show ?thesis
    by (subst double_join_duplicates [OF ref_chan.mpsc_axioms])
      (simp_all add: empty client_channel_capacity_def)
qed

section \<open>Sessions\<close>

text \<open>
  The error answers of a client message: \<^verbatim>\<open>NotInRoom\<close> exactly for a message without a
  room before any successful join, otherwise only \<^verbatim>\<open>SendFailed\<close>.
\<close>

theorem message_errors:
  "(fst (handle_client_message cmd_send client_send env msg state session w) = Inl NotInRoom \<longleftrightarrow>
      (\<exists>body. msg = SendMessage body) \<and> session_current_room session = None)
    \<and> fst (handle_client_message cmd_send client_send env msg state session w) \<in>
      {Inr (), Inl NotInRoom, Inl SendFailed}"
proof -
  let ?r = "fst (handle_client_message cmd_send client_send env msg state session w)"
  have "?r = Inl e \<Longrightarrow> e = NotInRoom \<or> e = SendFailed" for e by (rule handle_errors)
  then have "?r \<in> {Inr (), Inl NotInRoom, Inl SendFailed}" by (cases ?r) auto
  then show ?thesis by (intro conjI handle_not_in_room)
qed

text \<open>
  C23. What one connection can put on the command channel, over any frames and however it ends: joins
  of rooms it named, with its own id and its own channel, messages under its own id, and at the end at
  most one leave, of its own id in a room it named. It can neither speak for another client nor remove
  one.
\<close>

theorem connection_commands:
  assumes "session_channels cmd_send cmd_queue cmd_closed cmd_capacity
      client_send client_queue client_closed client_capacity"
    and "handle_socket cmd_send client_send from_json cid tx frames aborted state w = (state', w')"
  shows "\<exists>cs leave. cmd_queue w' (handle_tx (app_rooms state)) =
      cmd_queue w (handle_tx (app_rooms state)) @ cs @ leave
    \<and> list_all (own_command cid tx (joined_docs from_json frames \<union> snd ` set_option aborted)) cs
    \<and> (leave = [] \<or> (\<exists>d \<in> joined_docs from_json frames. leave = [RoomLeave d cid]))"
  by (rule session_channels.handle_socket_commands [OF assms])

text \<open>The decoder of the examples: a frame that starts with \<open>j\<close> joins the rest, others send.\<close>

fun demo_json :: "string \<Rightarrow> string + client_message" where
  "demo_json [] = Inl ''EOF''"
| "demo_json (c # cs) = (if c = CHR ''j'' then Inr (Join cs) else Inr (SendMessage cs))"

definition demo_state :: "(unit, unit) app_state" where
  "demo_state = new_app_state \<lparr>handle_tx = ()\<rparr> \<lparr>reader_tx = ()\<rparr> new_metrics"

definition demo_world :: "(unit, (nat, nat) room_command) channels \<times> (nat, server_message) channels" where
  "demo_world = (open_channels, open_channels)"

definition demo_call :: "nat \<Rightarrow> nat call_env" where
  "demo_call r = \<lparr>call_now = 9, call_responder = r, call_ack = Acked\<rparr>"

abbreviation demo_socket ::
    "(nat call_env \<times> ws_frame) list \<Rightarrow>
      (unit, (nat, nat) room_command) channels \<times> (nat, server_message) channels" where
  "demo_socket frames \<equiv> snd (handle_socket (on_fst (chan_try_send (\<lambda>_. rooms_channel_capacity)))
    (on_snd (chan_try_send (\<lambda>_. client_channel_capacity))) demo_json ''me'' 0 frames None demo_state demo_world)"

lemmas demo_defs = demo_state_def demo_world_def demo_call_def new_app_state_def handle_socket_def
  new_session_def handle_text_def handle_eqs on_fst_def on_snd_def chan_try_send_def open_channels_def
  rooms_channel_capacity_def client_channel_capacity_def leave_on_close_def leave_room_def Let_def

theorem connection_commands_witness:
  "\<exists>cs leave. chan_queue (fst (demo_socket [(demo_call 1, TextFrame ''ja''), (demo_call 2, TextFrame ''hi'')])) () =
      cs @ leave
    \<and> list_all (own_command ''me'' 0 (joined_docs demo_json
        [(demo_call 1, TextFrame ''ja''), (demo_call 2, TextFrame ''hi'')])) cs
    \<and> (leave = [] \<or> (\<exists>d \<in> joined_docs demo_json [(demo_call 1, TextFrame ''ja''), (demo_call 2, TextFrame ''hi'')].
        leave = [RoomLeave d ''me'']))"
proof -
  have start: "handle_tx (app_rooms demo_state) = ()" "chan_queue (fst demo_world) () = []"
    by (simp_all add: demo_world_def open_channels_def)
  show ?thesis
    using connection_commands [OF ref_session.session_channels_axioms
          [where cap = "\<lambda>_. rooms_channel_capacity" and cap' = "\<lambda>_. client_channel_capacity"]
          surjective_pairing,
        where from_json = demo_json and cid = "''me''" and tx = 0 and aborted = None and state = demo_state
        and w = demo_world and frames = "[(demo_call 1, TextFrame ''ja''), (demo_call 2, TextFrame ''hi'')]"]
    unfolding start by simp
qed

text \<open>
  C13. No frame is dropped silently: what one text frame does, on every branch. The command it asks for is
  put on the command channel if it is open and has a place; if it is full, nothing is sent and the drop
  is counted once; if it is closed, nothing is sent or counted. The client is told so in every case but
  a message that was taken: a frame that is not a client message, a message outside a room, a refused
  command and a join that was not acknowledged are errors, an acknowledged join is confirmed, and only
  this puts the session into the room.
\<close>

theorem frame_answered:
  assumes "session_channels cmd_send cmd_queue cmd_closed cmd_capacity
      client_send client_queue client_closed client_capacity"
    and "handle_text cmd_send client_send from_json env str state session w = (state', session', w')"
    and "commands = handle_tx (app_rooms state)" "own = session_tx session"
    and "takes \<longleftrightarrow> \<not> cmd_closed w commands \<and> length (cmd_queue w commands) < cmd_capacity commands"
    and "hears \<longleftrightarrow> \<not> client_closed w own \<and> length (client_queue w own) < client_capacity own"
  shows "cmd_queue w' commands = cmd_queue w commands @
      (case frame_command from_json env str session of Some c \<Rightarrow> if takes then [c] else [] | None \<Rightarrow> [])
    \<and> actor_drops state' = actor_drops state + of_bool
        (frame_command from_json env str session \<noteq> None \<and> \<not> takes \<and> \<not> cmd_closed w commands)
    \<and> client_queue w' own = client_queue w own @
        (case frame_reply (from_json str) env takes session of Some m \<Rightarrow> if hears then [m] else [] | None \<Rightarrow> [])
    \<and> session' = session\<lparr>session_current_room := frame_room (from_json str) env takes session\<rparr>"
proof -
  note chans = session_channels.axioms(1) [OF assms(1)] session_channels.axioms(2) [OF assms(1)]
  have takes: "mpsc.accepts cmd_queue cmd_closed cmd_capacity w commands = takes"
    and hears: "mpsc.accepts client_queue client_closed client_capacity w own = hears"
    by (simp_all only: mpsc.accepts_def [OF chans(1)] mpsc.accepts_def [OF chans(2)] assms(5,6))
  note answered = session_channels.handle_text_answered [OF assms(1-4) refl refl, unfolded takes hears]
  then show ?thesis by blast
qed

text \<open>A message to a room over a command channel without any place.\<close>

theorem frame_answered_witness:
  "\<exists>state' session' w'. handle_text (on_fst (chan_try_send (\<lambda>_. 0))) (on_snd (chan_try_send (\<lambda>_. 1))) demo_json
      (demo_call 1) ''ja'' demo_state (new_session ''me'' 0) demo_world = (state', session', w')
    \<and> actor_drops state' = 1 \<and> chan_queue (snd w') 0 = [ErrorMessage (fmt_web_socket_error SendFailed)]
    \<and> session' = new_session ''me'' 0"
proof -
  obtain state' session' w' where run: "handle_text (on_fst (chan_try_send (\<lambda>_. 0))) (on_snd (chan_try_send (\<lambda>_. 1)))
      demo_json (demo_call 1) ''ja'' demo_state (new_session ''me'' 0) demo_world = (state', session', w')"
    by (metis prod_cases3)
  have "(\<not> chan_closed (fst demo_world) () \<and> length (chan_queue (fst demo_world) ()) < 0) = False"
    "(\<not> chan_closed (snd demo_world) 0 \<and> length (chan_queue (snd demo_world) 0) < 1) = True"
    "handle_tx (app_rooms demo_state) = ()" "session_tx (new_session ''me'' (0 :: nat)) = 0"
    by (simp_all add: demo_world_def open_channels_def new_session_def)
  note takes = this(1) [symmetric] and hears = this(2) [symmetric] and handles = this(3,4) [symmetric]
  have start: "actor_drops demo_state = 0" "chan_queue (snd demo_world) 0 = []" "\<not> chan_closed (fst demo_world) ()"
    by (simp_all add: actor_drops_def demo_state_def new_app_state_def new_metrics_def demo_world_def open_channels_def)
  from frame_answered [OF ref_session.session_channels_axioms
      [where cap = "\<lambda>_. 0" and cap' = "\<lambda>_. 1"] run handles takes hears] start
  show ?thesis
    unfolding run by (simp add: frame_command_def new_session_def del: fmt_web_socket_error.simps)
qed

text \<open>
  C24. A connection whose joins were acknowledged in time and which named one room leaves nothing behind:
  if the command channel is open and has a place for each of its frames and the leave, then the actor,
  having handled its commands, between those of others in any way, has the client in no room. That the
  leave is sent when the socket closes is part of what is shown.
\<close>

theorem one_room_no_ghost:
  assumes "session_channels cmd_send cmd_queue cmd_closed cmd_capacity
      client_send client_queue client_closed client_capacity"
    and "handle_socket cmd_send client_send from_json cid tx frames None state w = (state', w')"
    and "joined_docs from_json frames \<subseteq> {d}" "joins_answered (\<lambda>a. a = Acked) from_json frames"
    and "commands = handle_tx (app_rooms state)" "\<not> cmd_closed w commands"
    and "length (cmd_queue w commands) + length frames < cmd_capacity commands"
    and "cmd_queue w' commands = cmd_queue w commands @ sent"
    and "filter (concerns cid) handled = filter (concerns cid) sent" "\<forall>d. \<not> present cid st d"
  shows "\<not> present cid (rooms_coordinator try_send handled st) d'"
  using session_channels.no_ghost_member [OF assms(1-4)] assms(5-10) by metis

theorem one_room_no_ghost_witness:
  "\<not> present ''me'' (rooms_coordinator (chan_try_send (\<lambda>_. client_channel_capacity))
      [RoomJoin ''a'' ''you'' 1 (3 :: nat), RoomJoin ''a'' ''me'' 0 1, RoomBroadcast ''a'' (Message ''you'' ''hi'' 5), RoomLeave ''a'' ''me'']
      (coordinator_start new_metrics (open_channels :: (nat, server_message) channels))) ''a''"
proof -
  let ?frames = "[(demo_call 1, TextFrame ''ja'')]"
  have sent: "chan_queue (fst (demo_socket ?frames)) () = [RoomJoin ''a'' ''me'' 0 1] @ [RoomLeave ''a'' ''me'']"
    by (simp add: demo_defs)
  have docs: "joined_docs demo_json ?frames \<subseteq> {''a''}" "joins_answered (\<lambda>a. a = Acked) demo_json ?frames"
    by (auto simp: joined_docs_def joins_answered_def demo_call_def)
  have start: "() = handle_tx (app_rooms demo_state)" "\<not> chan_closed (fst demo_world) ()"
    "length (chan_queue (fst demo_world) ()) + length ?frames < rooms_channel_capacity"
    "chan_queue (fst (demo_socket ?frames)) () = chan_queue (fst demo_world) () @ [RoomJoin ''a'' ''me'' 0 1, RoomLeave ''a'' ''me'']"
    unfolding sent by (simp_all add: demo_world_def open_channels_def rooms_channel_capacity_def)
  show ?thesis
    by (rule one_room_no_ghost [OF ref_session.session_channels_axioms
          [where cap = "\<lambda>_. rooms_channel_capacity" and cap' = "\<lambda>_. client_channel_capacity"]
          surjective_pairing docs start])
      (simp_all add: present_def coordinator_start_def entry_list_def)
qed

text \<open>
  C31. A connection that joins two different rooms leaves a ghost in the first: its commands are the two
  joins and one leave, of the second room, since only the current room is left when the socket closes.
  So the actor still lists the client, with its dead channel, in the first room, whatever it handles
  besides, as long as nothing is broadcast there.
\<close>

theorem two_rooms_leave_a_ghost:
  assumes "session_channels cmd_send cmd_queue cmd_closed cmd_capacity
      client_send client_queue client_closed client_capacity"
    and "from_json frame = Inr (Join d)" "from_json frame' = Inr (Join d')" "d \<noteq> d'"
    and "call_ack env = Acked" "call_ack env' = Acked"
    and "\<not> cmd_closed w (handle_tx (app_rooms state))"
    and "length (cmd_queue w (handle_tx (app_rooms state))) + 3 \<le> cmd_capacity (handle_tx (app_rooms state))"
    and "handle_socket cmd_send client_send from_json cid tx [(env, TextFrame frame), (env', TextFrame frame')] None state w = (state', w')"
    and "\<And>m. RoomBroadcast d m \<notin> set later" "RoomLeave d cid \<notin> set later"
  shows "\<exists>cs. cmd_queue w' (handle_tx (app_rooms state)) = cmd_queue w (handle_tx (app_rooms state)) @ cs
    \<and> cs = [RoomJoin d cid tx (call_responder env), RoomJoin d' cid tx (call_responder env'), RoomLeave d' cid]
    \<and> present cid (rooms_coordinator try_send (cs @ later) st) d"
proof -
  note commands = session_channels.two_joins_commands [OF assms(1-3,5-9)]
  have "present cid (rooms_coordinator try_send ([RoomJoin d' cid tx (call_responder env'), RoomLeave d' cid] @ later)
      (coordinator_step try_send (RoomJoin d cid tx (call_responder env)) st)) d"
    by (rule present_stays [OF present_after_join]) (use assms(4,10,11) in auto)
  with commands show ?thesis by simp
qed

theorem two_rooms_leave_a_ghost_witness:
  "present ''me'' (rooms_coordinator (chan_try_send (\<lambda>_. client_channel_capacity))
      [RoomJoin ''a'' ''me'' 0 (1 :: nat), RoomJoin ''b'' ''me'' 0 2, RoomLeave ''b'' ''me'', RoomJoin ''a'' ''you'' 1 3]
      (coordinator_start new_metrics (open_channels :: (nat, server_message) channels))) ''a''"
proof -
  have json: "demo_json ''ja'' = Inr (Join ''a'')" "demo_json ''jb'' = Inr (Join ''b'')" by simp_all
  have start: "call_ack (demo_call r) = Acked" "call_responder (demo_call r) = r"
    "\<not> chan_closed (fst demo_world) (handle_tx (app_rooms demo_state))"
    "length (chan_queue (fst demo_world) (handle_tx (app_rooms demo_state))) + 3 \<le> rooms_channel_capacity" for r
    by (simp_all add: demo_call_def demo_world_def open_channels_def rooms_channel_capacity_def)
  note ghost = two_rooms_leave_a_ghost [OF ref_session.session_channels_axioms
      [where cap = "\<lambda>_. rooms_channel_capacity" and cap' = "\<lambda>_. client_channel_capacity"],
    where from_json = demo_json and frame = "''ja''" and frame' = "''jb''" and env = "demo_call 1" and env' = "demo_call 2"
      and state = demo_state and w = demo_world and cid = "''me''" and tx = 0]
  have "\<exists>cs. cs = [RoomJoin ''a'' ''me'' 0 (call_responder (demo_call 1)),
        RoomJoin ''b'' ''me'' 0 (call_responder (demo_call 2)), RoomLeave ''b'' ''me'']
    \<and> present ''me'' (rooms_coordinator (chan_try_send (\<lambda>_. client_channel_capacity)) (cs @ [RoomJoin ''a'' ''you'' 1 3])
      (coordinator_start new_metrics (open_channels :: (nat, server_message) channels))) ''a''"
    using ghost [OF json _ start(1,1,3,4) surjective_pairing, of "[RoomJoin ''a'' ''you'' 1 3]"
        "chan_try_send (\<lambda>_. client_channel_capacity)" "coordinator_start new_metrics open_channels"] by auto
  then show ?thesis by (simp only: start(2) ex_simps simp_thms append.simps)
qed

text \<open>
  C32. A join that timed out still happens: a connection whose only frame is a join that is not answered
  in time is told \<^verbatim>\<open>SendFailed\<close>, and when its socket closes it sends no leave, because its session is in
  no room. But the join stays on the channel, so the actor makes the client a member, and it remains one
  whatever is handled later, until something is broadcast in the room.
\<close>

theorem timed_out_join_still_joins:
  assumes "session_channels cmd_send cmd_queue cmd_closed cmd_capacity
      client_send client_queue client_closed client_capacity"
    and "from_json frame = Inr (Join d)" "call_ack env = AckTimedOut"
    and "commands = handle_tx (app_rooms state)" "\<not> cmd_closed w commands"
    and "length (cmd_queue w commands) < cmd_capacity commands"
    and "\<not> client_closed w tx" "length (client_queue w tx) < client_capacity tx"
    and "handle_socket cmd_send client_send from_json cid tx [(env, TextFrame frame)] None state w = (state', w')"
    and "\<And>m. RoomBroadcast d m \<notin> set later" "RoomLeave d cid \<notin> set later"
  shows "client_queue w' tx = client_queue w tx @ [ErrorMessage (fmt_web_socket_error SendFailed)]
    \<and> (\<exists>sent. cmd_queue w' commands = cmd_queue w commands @ sent
      \<and> sent = [RoomJoin d cid tx (call_responder env)]
      \<and> present cid (rooms_coordinator try_send (sent @ later) st) d)"
proof -
  note chans = session_channels.axioms(1) [OF assms(1)] session_channels.axioms(2) [OF assms(1)]
  have accepts: "mpsc.accepts cmd_queue cmd_closed cmd_capacity w (handle_tx (app_rooms state))"
    "mpsc.accepts client_queue client_closed client_capacity w tx"
    using assms(4-8) by (simp_all add: mpsc.accepts_def [OF chans(1)] mpsc.accepts_def [OF chans(2)])
  have slow: "call_ack env \<noteq> Acked" using assms(3) by simp
  note sent = session_channels.unanswered_join [OF assms(1,2) slow accepts(1) assms(9)]
  have "present cid (rooms_coordinator try_send later
      (coordinator_step try_send (RoomJoin d cid tx (call_responder env)) st)) d"
    by (rule present_stays [OF present_after_join]) (use assms(10,11) in auto)
  with sent accepts(2) show ?thesis by (simp add: assms(4))
qed

definition slow_call :: "nat call_env" where
  "slow_call = \<lparr>call_now = 9, call_responder = 1, call_ack = AckTimedOut\<rparr>"

theorem timed_out_join_still_joins_witness:
  "present ''me'' (rooms_coordinator (chan_try_send (\<lambda>_. client_channel_capacity))
      [RoomJoin ''a'' ''me'' 0 (1 :: nat), RoomJoin ''a'' ''you'' 1 3]
      (coordinator_start new_metrics (open_channels :: (nat, server_message) channels))) ''a''
    \<and> chan_queue (snd (demo_socket [(slow_call, TextFrame ''ja'')])) 0 = [ErrorMessage (fmt_web_socket_error SendFailed)]"
proof -
  have start: "demo_json ''ja'' = Inr (Join ''a'')" "call_ack slow_call = AckTimedOut" "call_responder slow_call = 1"
    "\<not> chan_closed (fst demo_world) ()" "length (chan_queue (fst demo_world) ()) < rooms_channel_capacity"
    "\<not> chan_closed (snd demo_world) 0" "length (chan_queue (snd demo_world) 0) < client_channel_capacity"
    "() = handle_tx (app_rooms demo_state)" "chan_queue (snd demo_world) 0 = []"
    by (simp_all add: slow_call_def demo_world_def open_channels_def rooms_channel_capacity_def client_channel_capacity_def)
  have later: "RoomBroadcast ''a'' m \<notin> set [RoomJoin ''a'' ''you'' 1 (3 :: nat)]"
    "RoomLeave ''a'' ''me'' \<notin> set [RoomJoin ''a'' ''you'' (1 :: nat) (3 :: nat)]" for m by simp_all
  have "chan_queue (snd (demo_socket [(slow_call, TextFrame ''ja'')])) 0 =
      chan_queue (snd demo_world) 0 @ [ErrorMessage (fmt_web_socket_error SendFailed)]
    \<and> (\<exists>sent. chan_queue (fst (demo_socket [(slow_call, TextFrame ''ja'')])) () = chan_queue (fst demo_world) () @ sent
      \<and> sent = [RoomJoin ''a'' ''me'' 0 (call_responder slow_call)]
      \<and> present ''me'' (rooms_coordinator (chan_try_send (\<lambda>_. client_channel_capacity)) (sent @ [RoomJoin ''a'' ''you'' 1 3])
          (coordinator_start new_metrics (open_channels :: (nat, server_message) channels))) ''a'')"
    by (rule timed_out_join_still_joins [where from_json = demo_json and frame = "''ja''", OF ref_session.session_channels_axioms
          [where cap = "\<lambda>_. rooms_channel_capacity" and cap' = "\<lambda>_. client_channel_capacity"]
          start(1,2,8,4,5,6,7) surjective_pairing later])
  then show ?thesis unfolding start(3,9) append.simps
    by (elim conjE exE) (simp only: append.simps simp_thms)
qed

section \<open>The subscription index\<close>

text \<open>
  C10. The two indexes implement one map from subscriptions to hints: after any history of operations,
  in any iteration orders of the hash sets, both are consistent, and an invalidation of a hint reaches
  exactly the subscriptions whose hints, by the operations alone, contain it. No subscription is missed
  and none is a ghost.
\<close>

theorem index_refines_map:
  assumes "iteration_order it"
  shows "index_ok (fold (index_op_run it) ops empty_index)
    \<and> subscription_hints (fold (index_op_run it) ops empty_index) = fold abstract_op ops fmempty
    \<and> (i |\<in>| subscriptions_for_hint h (fold (index_op_run it) ops empty_index) \<longleftrightarrow>
        h |\<in>| entry_fset (fold abstract_op ops fmempty) i)"
proof -
  have empty: "subscription_hints empty_index = fmempty" by (simp add: empty_index_def)
  note index = hash_order.intro [OF assms]
  show ?thesis
    using hash_order.index_history(1,2) [OF index index_ok_empty, of ops]
      hash_order.index_history(3) [OF index index_ok_empty, of i h ops]
    by (simp add: empty)
qed

theorem index_refines_map_witness:
  "''s1'' |\<in>| subscriptions_for_hint (QueryHint ''documents'' ''id'' ''a'')
      (fold (index_op_run sorted_list_of_fset)
        [OpSubscribe ''s1'' {|QueryHint ''documents'' ''id'' ''a''|}, OpUnsubscribe ''s2''] empty_index)"
  using index_refines_map [OF iteration_order_sorted, of
      "[OpSubscribe ''s1'' {|QueryHint ''documents'' ''id'' ''a''|}, OpUnsubscribe ''s2'']" "''s1''"
      "QueryHint ''documents'' ''id'' ''a''"]
  by (simp add: entry_fset_def)

text \<open>
  Subscribing and unsubscribing again is the identity on the whole state, so entries do not leak:
  the removed entries are dropped, not left empty.
\<close>

theorem subscribe_then_unsubscribe:
  assumes "iteration_order it" "index_ok self" "hints_for_subscription i self = None"
  shows "snd (unsubscribe it i (snd (subscribe it i hs self))) = self"
  using hash_order.index_undo [OF hash_order.intro [OF assms(1)] assms(2), of i hs] assms(3)
  by (simp add: hints_for_subscription_def fmdom_notI)

theorem subscribe_then_unsubscribe_witness:
  "snd (unsubscribe sorted_list_of_fset ''s'' (snd (subscribe sorted_list_of_fset ''s''
    {|QueryHint ''documents'' ''id'' ''a'', QueryHint ''documents'' ''id'' ''b''|} empty_index))) = empty_index"
  using subscribe_then_unsubscribe [OF iteration_order_sorted index_ok_empty, of "''s''"]
  by (simp add: hints_for_subscription_def empty_index_def)

text \<open>
  C38. Updating the hints of a subscription, which touches only the difference of the two sets, is the
  same as dropping the subscription and subscribing anew.
\<close>

theorem update_is_resubscribe:
  assumes "iteration_order it" "index_ok self" "hints_for_subscription i self \<noteq> None"
  shows "update_hints it i hs self = (Inr (), snd (subscribe it i hs (snd (unsubscribe it i self))))"
proof -
  from assms(3) obtain old where old: "fmlookup (subscription_hints self) i = Some old"
    by (auto simp: hints_for_subscription_def)
  then have "fst (update_hints it i hs self) = Inr ()" by (simp add: update_hints_def Let_def)
  moreover have "snd (update_hints it i hs self) = snd (subscribe it i hs (snd (unsubscribe it i self)))"
    using hash_order.index_replace [OF hash_order.intro [OF assms(1)] assms(2), of i hs] fmdomI [OF old]
    by simp
  ultimately show ?thesis by (simp add: prod_eq_iff)
qed

definition one_subscription :: subscription_index where
  "one_subscription = snd (subscribe sorted_list_of_fset ''s'' {|QueryHint ''documents'' ''id'' ''a''|} empty_index)"

theorem update_is_resubscribe_witness:
  "fst (update_hints sorted_list_of_fset ''s'' {|QueryHint ''documents'' ''id'' ''b''|} one_subscription) = Inr ()"
proof -
  have ok: "index_ok one_subscription"
    unfolding one_subscription_def by (intro subscribe_ok iteration_order_sorted index_ok_empty)
  have known: "hints_for_subscription ''s'' one_subscription \<noteq> None"
    by (simp add: one_subscription_def subscribe_def hints_for_subscription_def empty_index_def)
  from update_is_resubscribe [OF iteration_order_sorted ok known] show ?thesis by simp
qed

end
