(* ===== verification/Load_Test.thy ===== *)
theory Load_Test
  imports Session Metrics "HOL-Library.Monad_Syntax"
begin

text \<open>
  \<^verbatim>\<open>src/bin/loadtest.rs\<close>: the subscribers that count what they receive and the gaps in the
  sequence numbers, the paced producer, and the report. JSON, the socket and the histogram
  (\<^verbatim>\<open>hdrhistogram\<close>) are other packages' and therefore arguments; what the socket and the clock
  yield is a list of events. Arithmetic on \<open>u64\<close> is as Rust compiles it: with overflow checks an
  overflow panics, without them it wraps. \<open>chk\<close> selects the build, \<open>None\<close> is a panic.
\<close>

section \<open>Arithmetic of a build\<close>

definition u64_add :: "bool \<Rightarrow> u64 \<Rightarrow> u64 \<Rightarrow> u64 option" where
  "u64_add chk a b = (if chk \<and> 2 ^ 64 \<le> unat a + unat b then None else Some (a + b))"

definition u64_sub :: "bool \<Rightarrow> u64 \<Rightarrow> u64 \<Rightarrow> u64 option" where
  "u64_sub chk a b = (if chk \<and> a < b then None else Some (a - b))"

lemma u64_add_exact:
  "unat a + unat b < 2 ^ 64 \<Longrightarrow> u64_add chk a b = Some (a + b) \<and> unat (a + b) = unat a + unat b"
  by (simp add: u64_add_def unat_word_ariths)

lemma below_max: "a \<noteq> - 1 \<Longrightarrow> unat (a :: u64) + 1 < 2 ^ 64"
  using unat_lt64 [of a] unat_max64 word_unat_eq_iff [of a "- 1"] by simp

lemma u64_sub_exact: "b \<le> a \<Longrightarrow> u64_sub chk a b = Some (a - b) \<and> unat (a - b) = unat a - unat b"
  by (auto simp: u64_sub_def unat_sub word_le_nat_alt word_less_nat_alt)

section \<open>Arguments and messages\<close>

record load_args =
  arg_ws_url :: string
  arg_http_base_url :: string
  arg_document_id :: document_id
  arg_subscribers :: u64
  arg_producer_rate :: u64
  arg_duration_secs :: u64
  arg_drain_ms :: u64

definition default_args :: load_args where
  "default_args =
    \<lparr>arg_ws_url = ''ws://127.0.0.1:3030/ws'', arg_http_base_url = ''http://127.0.0.1:3030'',
     arg_document_id = ''doc'', arg_subscribers = 100, arg_producer_rate = 1000,
     arg_duration_secs = 10, arg_drain_ms = 500\<rparr>"

record payload =
  payload_seq :: u64
  payload_sent_at_us :: u64

section \<open>The latency histogram\<close>

definition latency_hist_max_us :: u64 where
  "latency_hist_max_us = 60000000"

definition new_latency_hist :: "(u64 \<Rightarrow> u64 \<Rightarrow> u8 \<Rightarrow> 'e + 'hist) \<Rightarrow> 'e + 'hist" where
  "new_latency_hist new_with_bounds = new_with_bounds 1 (saturating_add latency_hist_max_us 1) 3"

definition decode_latency_us :: "u64 \<Rightarrow> u64" where
  "decode_latency_us encoded_us_plus_one = saturating_sub encoded_us_plus_one 1"

text \<open>A latency is stored shifted by one and read back shifted; only the largest \<open>u64\<close> is lost.\<close>

lemma decode_encoded: "unat (decode_latency_us (saturating_add l 1)) = min (unat l) (2 ^ 64 - 2)"
  by (simp add: decode_latency_us_def unat_saturating_sub unat_saturating_add)

lemma encoded_positive: "0 < unat (saturating_add l 1)"
  by (simp add: unat_saturating_add)

section \<open>The subscriber\<close>

record 'hist subscriber_result =
  received :: u64
  seq_gaps :: u64
  latency_hist :: 'hist

record 'hist subscriber_state = "'hist subscriber_result" +
  last_seq :: "u64 option"

text \<open>What the \<^verbatim>\<open>select!\<close> yields: the timer, or a frame with the clock read after it.\<close>

datatype stream_event = TimerFired | Arrived u64 ws_frame

record ('e, 'hist) subscriber_env =
  env_connect :: "'e + unit"
  env_encode :: "client_message \<Rightarrow> 'e + string"
  env_send :: "string \<Rightarrow> 'e + unit"
  env_server_message :: "string \<Rightarrow> 'e + server_message"
  env_payload :: "string \<Rightarrow> 'e + payload"
  env_new_hist :: "u64 \<Rightarrow> u64 \<Rightarrow> u8 \<Rightarrow> 'e + 'hist"
  env_record :: "u64 \<Rightarrow> 'hist \<Rightarrow> bool \<times> 'hist"

text \<open>Waiting for \<^verbatim>\<open>Joined\<close>: what is left of the stream after it.\<close>

fun await_joined :: "(string \<Rightarrow> 'e + server_message) \<Rightarrow> stream_event list \<Rightarrow> stream_event list option" where
  "await_joined decode [] = None"
| "await_joined decode (TimerFired # events) = None"
| "await_joined decode (Arrived now FrameError # events) = None"
| "await_joined decode (Arrived now OtherFrame # events) = await_joined decode events"
| "await_joined decode (Arrived now (TextFrame str) # events) =
    (case decode str of
       Inr (Joined cid d) \<Rightarrow> Some events
     | _ \<Rightarrow> await_joined decode events)"

text \<open>The gap between two sequence numbers as the code adds it up.\<close>

definition add_gap :: "bool \<Rightarrow> u64 option \<Rightarrow> u64 \<Rightarrow> u64 \<Rightarrow> u64 option" where
  "add_gap chk prev_seq seq gaps =
    (case prev_seq of
       None \<Rightarrow> Some gaps
     | Some prev \<Rightarrow> do {
         next_seq \<leftarrow> u64_add chk prev 1;
         if next_seq < seq then do {
           d \<leftarrow> u64_sub chk seq prev;
           missing \<leftarrow> u64_sub chk d 1;
           u64_add chk gaps missing
         } else Some gaps
       })"

definition record_latency :: "(u64 \<Rightarrow> 'hist \<Rightarrow> bool \<times> 'hist) \<Rightarrow> u64 \<Rightarrow> u64 \<Rightarrow> 'hist \<Rightarrow> 'hist" where
  "record_latency hist_record now_us sent_at_us hist =
    (if sent_at_us \<le> now_us
     then (let latency_us = now_us - sent_at_us
           in snd (hist_record (saturating_add latency_us 1) hist))
     else hist)"

definition count_payload ::
    "bool \<Rightarrow> (u64 \<Rightarrow> 'hist \<Rightarrow> bool \<times> 'hist) \<Rightarrow> u64 \<Rightarrow> payload \<Rightarrow> 'hist subscriber_state \<Rightarrow>
      'hist subscriber_state option" where
  "count_payload chk hist_record now_us p st = do {
     n \<leftarrow> u64_add chk (received st) 1;
     gaps \<leftarrow> add_gap chk (last_seq st) (payload_seq p) (seq_gaps st);
     Some (st\<lparr>received := n, seq_gaps := gaps,
       latency_hist := record_latency hist_record now_us (payload_sent_at_us p) (latency_hist st),
       last_seq := Some (payload_seq p)\<rparr>)
   }"

fun subscriber_loop ::
    "bool \<Rightarrow> ('e, 'hist) subscriber_env \<Rightarrow> stream_event list \<Rightarrow> 'hist subscriber_state \<Rightarrow>
      'hist subscriber_state option" where
  "subscriber_loop chk env [] st = Some st"
| "subscriber_loop chk env (TimerFired # events) st = Some st"
| "subscriber_loop chk env (Arrived now FrameError # events) st = Some st"
| "subscriber_loop chk env (Arrived now OtherFrame # events) st = subscriber_loop chk env events st"
| "subscriber_loop chk env (Arrived now (TextFrame str) # events) st =
    (case env_server_message env str of
       Inr (Message cid body ts) \<Rightarrow>
         (case env_payload env body of
            Inr p \<Rightarrow> do {
              st' \<leftarrow> count_payload chk (env_record env) now p st;
              subscriber_loop chk env events st'
            }
          | Inl e \<Rightarrow> subscriber_loop chk env events st)
     | _ \<Rightarrow> subscriber_loop chk env events st)"

text \<open>
  The whole task: whether it announced that it joined, and its result. \<open>started\<close> tells whether the
  start instant was published before the main task dropped its sender.
\<close>

definition empty_result :: "('e, 'hist) subscriber_env \<Rightarrow> 'e + 'hist subscriber_result" where
  "empty_result env =
    (case new_latency_hist (env_new_hist env) of
       Inl e \<Rightarrow> Inl e
     | Inr h \<Rightarrow> Inr \<lparr>received = 0, seq_gaps = 0, latency_hist = h\<rparr>)"

definition measure_loop ::
    "bool \<Rightarrow> ('e, 'hist) subscriber_env \<Rightarrow> stream_event list \<Rightarrow> ('e + 'hist subscriber_result) option" where
  "measure_loop chk env events =
    (case new_latency_hist (env_new_hist env) of
       Inl e \<Rightarrow> Some (Inl e)
     | Inr h \<Rightarrow> do {
         st \<leftarrow> subscriber_loop chk env events
           \<lparr>received = 0, seq_gaps = 0, latency_hist = h, last_seq = None\<rparr>;
         Some (Inr (subscriber_result.truncate st))
       })"

definition run_subscriber ::
    "bool \<Rightarrow> ('e, 'hist) subscriber_env \<Rightarrow> document_id \<Rightarrow> bool \<Rightarrow> stream_event list \<Rightarrow>
      bool \<times> ('e + 'hist subscriber_result) option" where
  "run_subscriber chk env document_id started events =
    (case env_connect env of
       Inl e \<Rightarrow> (False, Some (Inl e))
     | Inr _ \<Rightarrow>
         (case env_encode env (Join document_id) of
            Inl e \<Rightarrow> (False, Some (Inl e))
          | Inr join \<Rightarrow>
              (case env_send env join of
                 Inl e \<Rightarrow> (False, Some (Inl e))
               | Inr _ \<Rightarrow>
                   (case await_joined (env_server_message env) events of
                      None \<Rightarrow> (False, Some (empty_result env))
                    | Some rest \<Rightarrow>
                        (True, if started then measure_loop chk env rest
                               else Some (empty_result env))))))"

section \<open>What a subscriber counts\<close>

text \<open>The payloads the loop sees, with the clock readings after them.\<close>

fun payloads_of :: "('e, 'hist) subscriber_env \<Rightarrow> stream_event list \<Rightarrow> (u64 \<times> payload) list" where
  "payloads_of env [] = []"
| "payloads_of env (TimerFired # events) = []"
| "payloads_of env (Arrived now FrameError # events) = []"
| "payloads_of env (Arrived now OtherFrame # events) = payloads_of env events"
| "payloads_of env (Arrived now (TextFrame str) # events) =
    (case env_server_message env str of
       Inr (Message cid body ts) \<Rightarrow>
         (case env_payload env body of
            Inr p \<Rightarrow> (now, p) # payloads_of env events
          | Inl e \<Rightarrow> payloads_of env events)
     | _ \<Rightarrow> payloads_of env events)"

fun count_all ::
    "bool \<Rightarrow> (u64 \<Rightarrow> 'hist \<Rightarrow> bool \<times> 'hist) \<Rightarrow> (u64 \<times> payload) list \<Rightarrow> 'hist subscriber_state \<Rightarrow>
      'hist subscriber_state option" where
  "count_all chk hist_record [] st = Some st"
| "count_all chk hist_record ((now, p) # ps) st =
    Option.bind (count_payload chk hist_record now p st) (count_all chk hist_record ps)"

lemma subscriber_loop_payloads:
  "subscriber_loop chk env events st = count_all chk (env_record env) (payloads_of env events) st"
proof (induction events arbitrary: st)
  case (Cons ev events)
  show ?case
  proof (cases "\<exists>now str cid body ts p. ev = Arrived now (TextFrame str)
      \<and> env_server_message env str = Inr (Message cid body ts) \<and> env_payload env body = Inr p")
    case True
    then obtain now str cid body ts p where "ev = Arrived now (TextFrame str)"
      "env_server_message env str = Inr (Message cid body ts)" "env_payload env body = Inr p" by blast
    with Cons.IH show ?thesis by (cases "count_payload chk (env_record env) now p st") simp_all
  next
    case False
    with Cons.IH show ?thesis
      by (cases "(chk, env, ev # events, st)" rule: subscriber_loop.cases)
        (auto split: sum.split server_message.split)
  qed
qed simp

text \<open>Missing numbers between neighbours; going back or repeating counts nothing.\<close>

fun gap_sum :: "nat list \<Rightarrow> nat" where
  "gap_sum (a # b # xs) = (b - a - 1) + gap_sum (b # xs)"
| "gap_sum _ = 0"

definition with_last :: "u64 option \<Rightarrow> u64 list \<Rightarrow> nat list" where
  "with_last prev seqs = map unat (case prev of None \<Rightarrow> seqs | Some s \<Rightarrow> s # seqs)"

lemma add_gap_exact:
  assumes "prev \<noteq> Some (- 1)" "unat gaps + gap_sum (with_last prev [seq]) < 2 ^ 64"
  shows "\<exists>g. add_gap chk prev seq gaps = Some g \<and> unat g = unat gaps + gap_sum (with_last prev [seq])"
proof (cases prev)
  case None
  then show ?thesis by (simp add: add_gap_def with_last_def)
next
  case (Some s)
  from below_max [of s] assms(1) Some
  have next_seq: "u64_add chk s 1 = Some (s + 1) \<and> unat (s + 1) = unat s + 1"
    using u64_add_exact [of s 1 chk] by simp
  show ?thesis
  proof (cases "s + 1 < seq")
    case False
    then have "unat seq - unat s - 1 = 0" using next_seq by (simp add: word_less_nat_alt)
    with False next_seq Some show ?thesis by (simp add: add_gap_def with_last_def)
  next
    case True
    then have lt: "unat s + 1 < unat seq" using next_seq by (simp add: word_less_nat_alt)
    have d: "u64_sub chk seq s = Some (seq - s) \<and> unat (seq - s) = unat seq - unat s"
      using lt by (intro u64_sub_exact) (simp add: word_le_nat_alt)
    have m: "u64_sub chk (seq - s) 1 = Some (seq - s - 1) \<and> unat (seq - s - 1) = unat seq - unat s - 1"
      using lt d u64_sub_exact [of 1 "seq - s" chk] by (simp add: word_le_nat_alt)
    have "unat gaps + unat (seq - s - 1) < 2 ^ 64"
      using assms(2) m Some by (simp add: with_last_def)
    from u64_add_exact [OF this, of chk] True next_seq d m Some show ?thesis
      by (simp add: add_gap_def with_last_def)
  qed
qed

abbreviation seqs_of :: "(u64 \<times> payload) list \<Rightarrow> u64 list" where
  "seqs_of ps \<equiv> map (\<lambda>(now, p). payload_seq p) ps"

definition record_latencies :: "(u64 \<Rightarrow> 'hist \<Rightarrow> bool \<times> 'hist) \<Rightarrow> (u64 \<times> payload) list \<Rightarrow> 'hist \<Rightarrow> 'hist" where
  "record_latencies hist_record ps = fold (\<lambda>(now, p). record_latency hist_record now (payload_sent_at_us p)) ps"

lemma gap_sum_with_last:
  "gap_sum (with_last prev (s # seqs)) = gap_sum (with_last prev [s]) + gap_sum (with_last (Some s) seqs)"
  by (cases prev) (simp_all add: with_last_def)

lemma count_all_exact:
  assumes "- 1 \<notin> set (seqs_of ps)" "last_seq st \<noteq> Some (- 1)"
    and "unat (received st) + length ps < 2 ^ 64"
    and "unat (seq_gaps st) + gap_sum (with_last (last_seq st) (seqs_of ps)) < 2 ^ 64"
  shows "\<exists>st'. count_all chk hist_record ps st = Some st'
    \<and> unat (received st') = unat (received st) + length ps
    \<and> unat (seq_gaps st') = unat (seq_gaps st) + gap_sum (with_last (last_seq st) (seqs_of ps))
    \<and> latency_hist st' = record_latencies hist_record ps (latency_hist st)"
  using assms
proof (induction ps arbitrary: st)
  case Nil
  have "gap_sum (with_last prev []) = 0" for prev by (cases prev) (simp_all add: with_last_def)
  then show ?case by (simp add: record_latencies_def)
next
  case (Cons q ps)
  obtain now p where q: "q = (now, p)" by (cases q)
  note gaps = gap_sum_with_last [of "last_seq st" "payload_seq p" "seqs_of ps"]
  have n: "u64_add chk (received st) 1 = Some (received st + 1) \<and> unat (received st + 1) = unat (received st) + 1"
    using Cons.prems(3) u64_add_exact [of "received st" 1 chk] by simp
  from Cons.prems(2,4) gaps q have "\<exists>g. add_gap chk (last_seq st) (payload_seq p) (seq_gaps st) = Some g
      \<and> unat g = unat (seq_gaps st) + gap_sum (with_last (last_seq st) [payload_seq p])"
    by (intro add_gap_exact) simp_all
  then obtain g where g: "add_gap chk (last_seq st) (payload_seq p) (seq_gaps st) = Some g"
    "unat g = unat (seq_gaps st) + gap_sum (with_last (last_seq st) [payload_seq p])" by blast
  let ?st = "st\<lparr>received := received st + 1, seq_gaps := g,
    latency_hist := record_latency hist_record now (payload_sent_at_us p) (latency_hist st),
    last_seq := Some (payload_seq p)\<rparr>"
  have "count_payload chk hist_record now p st = Some ?st"
    using n g(1) by (simp add: count_payload_def)
  moreover have "payload_seq p \<noteq> - 1" using Cons.prems(1) q by auto
  with Cons.prems gaps q n g(2) have "\<exists>st'. count_all chk hist_record ps ?st = Some st'
    \<and> unat (received st') = unat (received ?st) + length ps
    \<and> unat (seq_gaps st') = unat (seq_gaps ?st) + gap_sum (with_last (last_seq ?st) (seqs_of ps))
    \<and> latency_hist st' = record_latencies hist_record ps (latency_hist ?st)"
    by (intro Cons.IH) simp_all
  ultimately show ?case using q n g(2) gaps by (simp add: record_latencies_def add.assoc)
qed

lemma gap_sum_increasing:
  "xs \<noteq> [] \<Longrightarrow> sorted_wrt (<) xs \<Longrightarrow> length xs + gap_sum xs = last xs - hd xs + 1"
proof (induction xs rule: gap_sum.induct)
  case (1 a b xs)
  then have le: "b \<le> last (b # xs)" by (cases xs rule: rev_cases) auto
  have "length (b # xs) + gap_sum (b # xs) = last (b # xs) - b + 1" using 1 by simp
  moreover have "a < b" "last (a # b # xs) = last (b # xs)" "hd (a # b # xs) = a" using 1 by simp_all
  moreover have "length (a # b # xs) + gap_sum (a # b # xs) =
      1 + (b - a - 1) + (length (b # xs) + gap_sum (b # xs))" by simp
  ultimately show ?case using le by linarith
qed simp_all

text \<open>
  Messages received in increasing order: what was received and what was missed add up to the range
  of the sequence numbers, and the count neither panics nor wraps.
\<close>

lemma measured_range:
  assumes "new_latency_hist (env_new_hist env) = Inr h"
    and "payloads_of env events \<noteq> []" and "- 1 \<notin> set (seqs_of (payloads_of env events))"
    and "sorted_wrt (<) (seqs_of (payloads_of env events))"
  shows "\<exists>r. measure_loop chk env events = Some (Inr r)
    \<and> unat (received r) = length (payloads_of env events)
    \<and> unat (received r) + unat (seq_gaps r) =
      unat (last (seqs_of (payloads_of env events))) - unat (hd (seqs_of (payloads_of env events))) + 1
    \<and> latency_hist r = record_latencies (env_record env) (payloads_of env events) h"
proof -
  let ?ps = "payloads_of env events" and ?seqs = "map unat (seqs_of (payloads_of env events))"
  let ?st = "\<lparr>received = 0, seq_gaps = 0, latency_hist = h, last_seq = None\<rparr>"
  have "sorted_wrt (<) ?seqs"
    using assms(4) by (simp add: sorted_wrt_map word_less_nat_alt case_prod_beta)
  then have range: "length ?seqs + gap_sum ?seqs = last ?seqs - hd ?seqs + 1"
    using assms(2) by (intro gap_sum_increasing) simp_all
  have "last (seqs_of ?ps) \<in> set (seqs_of ?ps)" using assms(2) by (intro last_in_set) simp
  then have "unat (last (seqs_of ?ps)) + 1 < 2 ^ 64" using assms(3) by (intro below_max) metis
  moreover have ends: "last ?seqs = unat (last (seqs_of ?ps))" "hd ?seqs = unat (hd (seqs_of ?ps))"
    using assms(2) by (simp_all add: last_map hd_map del: map_map)
  ultimately have small: "length ?ps + gap_sum ?seqs < 2 ^ 64" using range by simp
  then have "\<exists>st'. count_all chk (env_record env) ?ps ?st = Some st'
    \<and> unat (received st') = unat (received ?st) + length ?ps
    \<and> unat (seq_gaps st') = unat (seq_gaps ?st) + gap_sum (with_last (last_seq ?st) (seqs_of ?ps))
    \<and> latency_hist st' = record_latencies (env_record env) ?ps (latency_hist ?st)"
    using assms(3) by (intro count_all_exact) (simp_all add: with_last_def)
  then obtain st' where "count_all chk (env_record env) ?ps ?st = Some st'"
    "unat (received st') = length ?ps" "unat (seq_gaps st') = gap_sum ?seqs"
    "latency_hist st' = record_latencies (env_record env) ?ps h"
    by (auto simp: with_last_def)
  with assms(1) range ends show ?thesis
    by (simp add: measure_loop_def subscriber_loop_payloads subscriber_result.defs)
qed

end
