(* ===== verification/Load_Report.thy ===== *)
theory Load_Report
  imports Load_Test
begin

text \<open>
  \<^verbatim>\<open>src/bin/loadtest.rs\<close>, continued: the producer, the accounting of producer and subscriber
  together, the start barrier of the main task, and the report.
\<close>

section \<open>The producer\<close>

record producer_tick =
  tick_instant :: nat
  tick_now_us :: u64
  tick_written :: bool

definition producer_interval_ns :: "u64 \<Rightarrow> u64" where
  "producer_interval_ns rate = max (1000000000 div rate) 1"

text \<open>
  The loop: the texts written to the socket and the result. A tick is one iteration: the instant
  compared with the deadline, the clock put into the payload, and whether the write succeeded. After
  the last tick the deadline has passed.
\<close>

fun producer_loop ::
    "bool \<Rightarrow> (payload \<Rightarrow> 'e + string) \<Rightarrow> (client_message \<Rightarrow> 'e + string) \<Rightarrow> document_id \<Rightarrow> nat \<Rightarrow>
      producer_tick list \<Rightarrow> u64 \<Rightarrow> (string list \<times> ('e + u64)) option" where
  "producer_loop chk payload_json msg_json document_id deadline [] sent = Some ([], Inr sent)"
| "producer_loop chk payload_json msg_json document_id deadline (t # ticks) sent =
    (if deadline \<le> tick_instant t then Some ([], Inr sent)
     else
       (case payload_json \<lparr>payload_seq = sent, payload_sent_at_us = tick_now_us t\<rparr> of
          Inl e \<Rightarrow> Some ([], Inl e)
        | Inr body \<Rightarrow>
            (case msg_json (SendMessageTo document_id body) of
               Inl e \<Rightarrow> Some ([], Inl e)
             | Inr msg \<Rightarrow>
                 if \<not> tick_written t then Some ([], Inr sent)
                 else do {
                   sent' \<leftarrow> u64_add chk sent 1;
                   (written, r) \<leftarrow> producer_loop chk payload_json msg_json document_id deadline ticks sent';
                   Some (msg # written, r)
                 })))"

definition run_producer ::
    "bool \<Rightarrow> ('e + unit) \<Rightarrow> (payload \<Rightarrow> 'e + string) \<Rightarrow> (client_message \<Rightarrow> 'e + string) \<Rightarrow>
      document_id \<Rightarrow> u64 \<Rightarrow> nat \<Rightarrow> producer_tick list \<Rightarrow> (string list \<times> ('e + u64)) option" where
  "run_producer chk connected payload_json msg_json document_id rate deadline ticks =
    (case connected of
       Inl e \<Rightarrow> Some ([], Inl e)
     | Inr _ \<Rightarrow>
         if rate = 0 then Some ([], Inr 0)
         else producer_loop chk payload_json msg_json document_id deadline ticks 0)"

text \<open>The ticks that are sent, and the payloads they carry.\<close>

definition sent_ticks :: "nat \<Rightarrow> producer_tick list \<Rightarrow> producer_tick list" where
  "sent_ticks deadline ticks = takeWhile (\<lambda>t. tick_instant t < deadline \<and> tick_written t) ticks"

fun payloads_from :: "u64 \<Rightarrow> producer_tick list \<Rightarrow> payload list" where
  "payloads_from n [] = []"
| "payloads_from n (t # ticks) =
    \<lparr>payload_seq = n, payload_sent_at_us = tick_now_us t\<rparr> # payloads_from (n + 1) ticks"

lemma length_payloads_from [simp]: "length (payloads_from n ticks) = length ticks"
  by (induction ticks arbitrary: n) simp_all

lemma payloads_from_seqs:
  "unat n + length ticks \<le> 2 ^ 64 \<Longrightarrow>
    map (\<lambda>p. unat (payload_seq p)) (payloads_from n ticks) = [unat n ..< unat n + length ticks]"
proof (induction ticks arbitrary: n)
  case (Cons t ticks)
  show ?case
  proof (cases "ticks = []")
    case False
    then have "unat n + unat (1 :: u64) < 2 ^ 64" using Cons.prems by (cases ticks) auto
    moreover have "[unat n ..< unat n + length (t # ticks)] = unat n # [unat n + 1 ..< unat n + 1 + length ticks]"
      using upt_conv_Cons [of "unat n" "unat n + length (t # ticks)"] by (simp del: upt_Suc)
    ultimately show ?thesis
      using u64_add_exact [of n 1 False] Cons by (simp del: upt_Suc)
  qed simp
qed simp

lemma producer_sends:
  assumes "\<And>p. payload_json p = Inr (body p)" "\<And>d b. msg_json (SendMessageTo d b) = Inr (msg d b)"
    and "unat sent + length ticks < 2 ^ 64"
  shows "producer_loop chk payload_json msg_json document_id deadline ticks sent =
    Some (map (msg document_id \<circ> body) (payloads_from sent (sent_ticks deadline ticks)),
      Inr (sent + of_nat (length (sent_ticks deadline ticks))))"
  using assms(3)
proof (induction ticks arbitrary: sent)
  case (Cons t ticks)
  have "u64_add chk sent 1 = Some (sent + 1) \<and> unat (sent + 1) = unat sent + 1"
    using Cons.prems u64_add_exact [of sent 1 chk] by simp
  with Cons show ?case by (auto simp: assms(1,2) sent_ticks_def ac_simps)
qed (simp add: sent_ticks_def)

text \<open>
  Producer and subscriber together: a subscriber that saw some of the numbers below \<open>n\<close> in
  increasing order accounts for at most \<open>n\<close> messages, and for all of them when it saw the first and
  the last.
\<close>

lemma increasing_ends:
  "sorted_wrt (<) (xs :: nat list) \<Longrightarrow> x \<in> set xs \<Longrightarrow> hd xs \<le> x \<and> x \<le> last xs"
  by (induction xs rule: rev_induct) (auto simp: sorted_wrt_append hd_append intro: less_imp_le)

lemma subscriber_accounts:
  fixes env :: "('e, 'hist) subscriber_env" and events :: "stream_event list"
  defines "seqs \<equiv> map unat (seqs_of (payloads_of env events))"
  assumes "new_latency_hist (env_new_hist env) = Inr h" and "n < 2 ^ 64"
    and "seqs \<noteq> []" "sorted_wrt (<) seqs" "\<forall>s \<in> set seqs. s < n"
  shows "\<exists>r. measure_loop chk env events = Some (Inr r)
    \<and> unat (received r) = length seqs
    \<and> unat (received r) + unat (seq_gaps r) \<le> n
    \<and> ({0, n - 1} \<subseteq> set seqs \<longrightarrow> unat (received r) + unat (seq_gaps r) = n)"
proof -
  let ?seqs = "seqs_of (payloads_of env events)"
  have "- 1 \<notin> set ?seqs" using assms(3,6) unat_max64 by (force simp: seqs_def)
  moreover have "sorted_wrt (<) ?seqs"
    using assms(5) by (simp add: seqs_def sorted_wrt_map word_less_nat_alt case_prod_beta)
  moreover have ne: "payloads_of env events \<noteq> []" using assms(4) by (simp add: seqs_def)
  ultimately obtain r where r: "measure_loop chk env events = Some (Inr r)"
    "unat (received r) = length (payloads_of env events)"
    "unat (received r) + unat (seq_gaps r) = unat (last ?seqs) - unat (hd ?seqs) + 1"
    using measured_range [OF assms(2)] by blast
  have ends: "last seqs = unat (last ?seqs)" "hd seqs = unat (hd ?seqs)"
    using ne by (simp_all add: seqs_def last_map hd_map del: map_map)
  have "last seqs < n" using assms(4,6) by simp
  moreover have "{0, n - 1} \<subseteq> set seqs \<Longrightarrow> hd seqs = 0 \<and> n - 1 \<le> last seqs"
    using increasing_ends [OF assms(5)] by auto
  ultimately have "last seqs - hd seqs + 1 \<le> n
      \<and> ({0, n - 1} \<subseteq> set seqs \<longrightarrow> last seqs - hd seqs + 1 = n)" by auto
  moreover have "unat (received r) = length seqs" using r(2) by (simp add: seqs_def)
  ultimately show ?thesis using r(1,3) unfolding ends by metis
qed

section \<open>The start barrier\<close>

text \<open>
  The main task waits for one \<open>()\<close> per subscriber before it publishes the start instant. A subscriber
  holds its \<^verbatim>\<open>joined_tx\<close> until its task returns, so the channel closes only when all returned.
  The channel has one place per subscriber, and tokio panics when it is asked for a channel without any.
\<close>

datatype subscriber_phase = Joining | Waiting | Running | Returned

record barrier =
  bar_phases :: "subscriber_phase list"
  bar_queued :: nat
  bar_joined :: nat
  bar_started :: bool
  bar_panicked :: bool

datatype barrier_event =
    SubscriberJoined nat
  | JoinFailed nat
  | MainReceived
  | MainClosed
  | MainStarted
  | SubscriberStarted nat
  | SubscriberReleased nat
  | SubscriberReturned nat

definition barrier_init :: "nat \<Rightarrow> barrier" where
  "barrier_init n = \<lparr>bar_phases = replicate n Joining, bar_queued = 0, bar_joined = 0,
    bar_started = False, bar_panicked = (n = 0)\<rparr>"

definition move_phase :: "nat \<Rightarrow> subscriber_phase \<Rightarrow> subscriber_phase \<Rightarrow> barrier \<Rightarrow> barrier option" where
  "move_phase i from to b =
    (if i < length (bar_phases b) \<and> bar_phases b ! i = from
     then Some (b\<lparr>bar_phases := (bar_phases b)[i := to]\<rparr>) else None)"

fun barrier_step :: "barrier_event \<Rightarrow> barrier \<Rightarrow> barrier option" where
  "barrier_step (SubscriberJoined i) b =
    (if bar_queued b < length (bar_phases b)
     then map_option (\<lambda>b'. b'\<lparr>bar_queued := bar_queued b + 1\<rparr>) (move_phase i Joining Waiting b)
     else None)"
| "barrier_step (JoinFailed i) b = move_phase i Joining Returned b"
| "barrier_step MainReceived b =
    (if \<not> bar_panicked b \<and> bar_joined b < length (bar_phases b) \<and> 0 < bar_queued b
     then Some (b\<lparr>bar_joined := bar_joined b + 1, bar_queued := bar_queued b - 1\<rparr>) else None)"
| "barrier_step MainClosed b =
    (if bar_joined b < length (bar_phases b) \<and> bar_queued b = 0
        \<and> list_all (\<lambda>p. p = Returned) (bar_phases b)
     then Some (b\<lparr>bar_panicked := True\<rparr>) else None)"
| "barrier_step MainStarted b =
    (if \<not> bar_panicked b \<and> bar_joined b = length (bar_phases b)
     then Some (b\<lparr>bar_started := True\<rparr>) else None)"
| "barrier_step (SubscriberStarted i) b = (if bar_started b then move_phase i Waiting Running b else None)"
| "barrier_step (SubscriberReleased i) b = (if bar_panicked b then move_phase i Waiting Returned b else None)"
| "barrier_step (SubscriberReturned i) b = move_phase i Running Returned b"

fun barrier_run :: "barrier_event list \<Rightarrow> barrier \<Rightarrow> barrier option" where
  "barrier_run [] b = Some b"
| "barrier_run (e # es) b = Option.bind (barrier_step e b) (barrier_run es)"

definition phase_count :: "subscriber_phase \<Rightarrow> barrier \<Rightarrow> nat" where
  "phase_count p b = length (filter (\<lambda>q. q = p) (bar_phases b))"

text \<open>Before the start every announced join is in the queue or counted, and nobody runs.\<close>

definition barrier_ok :: "nat \<Rightarrow> barrier \<Rightarrow> bool" where
  "barrier_ok n b \<longleftrightarrow> length (bar_phases b) = n
    \<and> (\<not> bar_started b \<and> \<not> bar_panicked b \<longrightarrow>
        bar_joined b + bar_queued b = phase_count Waiting b \<and> phase_count Running b = 0)"

lemma move_phase_count:
  assumes "move_phase i p q b = Some b'" "p \<noteq> q"
  shows "phase_count r b' + of_bool (r = p) = phase_count r b + of_bool (r = q)"
    and "length (bar_phases b') = length (bar_phases b)" "bar_queued b' = bar_queued b"
    "bar_joined b' = bar_joined b" "bar_started b' = bar_started b" "bar_panicked b' = bar_panicked b"
proof -
  from assms(1) have i: "i < length (bar_phases b)" "bar_phases b ! i = p"
    and b': "b' = b\<lparr>bar_phases := (bar_phases b)[i := q]\<rparr>"
    by (auto simp: move_phase_def split: if_splits)
  have "bar_phases b = take i (bar_phases b) @ p # drop (Suc i) (bar_phases b)"
    using i id_take_nth_drop by blast
  then have "phase_count r b = length (filter (\<lambda>s. s = r) (take i (bar_phases b) @ p # drop (Suc i) (bar_phases b)))"
    by (simp add: phase_count_def)
  moreover have "bar_phases b' = take i (bar_phases b) @ q # drop (Suc i) (bar_phases b)"
    using i(1) b' by (simp add: upd_conv_take_nth_drop)
  ultimately show "phase_count r b' + of_bool (r = p) = phase_count r b + of_bool (r = q)"
    using assms(2) by (simp add: phase_count_def)
qed (use assms in \<open>auto simp: move_phase_def split: if_splits\<close>)

lemma barrier_step_ok:
  assumes "barrier_step e b = Some b'" "barrier_ok n b"
  shows "barrier_ok n b'"
proof (cases e)
  case (SubscriberJoined i)
  with assms obtain b1 where b1: "move_phase i Joining Waiting b = Some b1"
    "b' = b1\<lparr>bar_queued := bar_queued b + 1\<rparr>" by (auto split: if_splits)
  note moved = move_phase_count [OF b1(1)]
  from b1(2) moved(2-) moved(1) [of Waiting] moved(1) [of Running] assms(2) show ?thesis
    by (auto simp: barrier_ok_def phase_count_def)
next
  case (JoinFailed i)
  with assms(1) have "move_phase i Joining Returned b = Some b'" by simp
  note moved = move_phase_count [OF this]
  from moved(2-) moved(1) [of Waiting] moved(1) [of Running] assms(2) show ?thesis
    by (auto simp: barrier_ok_def)
next
  case (SubscriberStarted i)
  with assms(1) have "bar_started b" "move_phase i Waiting Running b = Some b'" by (auto split: if_splits)
  with move_phase_count(2-) [OF this(2)] assms(2) show ?thesis by (simp add: barrier_ok_def)
next
  case (SubscriberReleased i)
  with assms(1) have "bar_panicked b" "move_phase i Waiting Returned b = Some b'" by (auto split: if_splits)
  with move_phase_count(2-) [OF this(2)] assms(2) show ?thesis by (simp add: barrier_ok_def)
next
  case (SubscriberReturned i)
  with assms(1) have "move_phase i Running Returned b = Some b'" by simp
  note moved = move_phase_count [OF this]
  from moved(2-) moved(1) [of Waiting] moved(1) [of Running] assms(2) show ?thesis
    by (auto simp: barrier_ok_def)
qed (use assms in \<open>auto simp: barrier_ok_def phase_count_def split: if_splits\<close>)

lemma barrier_init_ok: "barrier_ok n (barrier_init n)"
  by (simp add: barrier_ok_def barrier_init_def phase_count_def)

lemma barrier_run_ok: "barrier_run es b = Some b' \<Longrightarrow> barrier_ok n b \<Longrightarrow> barrier_ok n b'"
  by (induction es arbitrary: b) (auto simp: barrier_step_ok bind_eq_Some_conv)

text \<open>
  One failed join is enough for the main task never to start: while a joined subscriber is waiting
  the channel is not closed either, so it waits forever.
\<close>

definition stuck :: "barrier \<Rightarrow> bool" where
  "stuck b \<longleftrightarrow> \<not> bar_started b \<and> \<not> bar_panicked b \<and> 0 < phase_count Returned b \<and> 0 < phase_count Waiting b"

lemma two_phases: "p \<noteq> q \<Longrightarrow> phase_count p b + phase_count q b \<le> length (bar_phases b)"
proof -
  assume "p \<noteq> q"
  then have "length (filter (\<lambda>s. s = p) xs) + length (filter (\<lambda>s. s = q) xs) \<le> length xs" for xs
    by (induction xs) auto
  then show ?thesis by (simp add: phase_count_def)
qed

lemma stuck_step:
  assumes "barrier_step e b = Some b'" "barrier_ok n b" "stuck b"
  shows "stuck b'"
proof -
  have notall: "\<not> list_all (\<lambda>p. p = Returned) (bar_phases b)"
    using assms(3) by (auto simp: stuck_def phase_count_def list_all_iff filter_empty_conv)
  have "bar_joined b \<noteq> length (bar_phases b)"
    using assms(2,3) two_phases [of Waiting Returned b] by (auto simp: stuck_def barrier_ok_def)
  have "phase_count Running b = 0" using assms(2,3) by (simp add: stuck_def barrier_ok_def)
  show ?thesis
  proof (cases e)
    case (SubscriberJoined i)
    with assms obtain b1 where b1: "move_phase i Joining Waiting b = Some b1"
      "b' = b1\<lparr>bar_queued := bar_queued b + 1\<rparr>" by (auto split: if_splits)
    note moved = move_phase_count [OF b1(1)]
    from b1(2) moved(2-) moved(1) [of Waiting] moved(1) [of Returned] assms(3) show ?thesis
      by (auto simp: stuck_def phase_count_def)
  next
    case (JoinFailed i)
    with assms(1) have "move_phase i Joining Returned b = Some b'" by simp
    note moved = move_phase_count [OF this]
    from moved(2-) moved(1) [of Waiting] moved(1) [of Returned] assms(3) show ?thesis
      by (auto simp: stuck_def)
  next
    case (SubscriberReturned i)
    with assms(1) have "move_phase i Running Returned b = Some b'" by simp
    from move_phase_count(1) [OF this, of Running] \<open>phase_count Running b = 0\<close> show ?thesis by simp
  qed (use assms notall \<open>bar_joined b \<noteq> length (bar_phases b)\<close> in
      \<open>auto simp: stuck_def phase_count_def split: if_splits\<close>)
qed

lemma stuck_forever:
  assumes "barrier_run es b = Some b'" "barrier_ok n b" "stuck b"
  shows "stuck b'"
  using assms by (induction es arbitrary: b) (auto simp: bind_eq_Some_conv dest: barrier_step_ok stuck_step)

text \<open>When all joined, the main task can go on: it receives, or it starts.\<close>

lemma all_joined_progress:
  assumes "barrier_ok n b" "\<not> bar_started b" "\<not> bar_panicked b" "list_all (\<lambda>p. p = Waiting) (bar_phases b)"
  shows "if bar_joined b < n then barrier_step MainReceived b \<noteq> None
    else \<exists>b'. barrier_step MainStarted b = Some b' \<and> bar_started b'"
proof -
  have "phase_count Waiting b = n"
    using assms(1,4) by (simp add: barrier_ok_def phase_count_def filter_id_conv list_all_iff)
  then show ?thesis using assms(1-3) by (auto simp: barrier_ok_def)
qed

section \<open>The report\<close>

record ('e, 'hist) hist_ops =
  ops_new :: "u64 \<Rightarrow> u64 \<Rightarrow> u8 \<Rightarrow> 'e + 'hist"
  ops_add :: "'hist \<Rightarrow> 'hist \<Rightarrow> 'e + 'hist"
  ops_is_empty :: "'hist \<Rightarrow> bool"
  ops_value_at_percentile :: "nat \<Rightarrow> 'hist \<Rightarrow> u64"
  ops_max :: "'hist \<Rightarrow> u64"

text \<open>The sums over the subscribers; a task that panicked or failed ends the program (\<^verbatim>\<open>expect\<close>).\<close>

fun merge_results ::
    "bool \<Rightarrow> ('e, 'hist) hist_ops \<Rightarrow> ('e + 'hist subscriber_result) option list \<Rightarrow>
      'hist subscriber_result \<Rightarrow> 'hist subscriber_result option" where
  "merge_results chk ops [] sums = Some sums"
| "merge_results chk ops (None # handles) sums = None"
| "merge_results chk ops (Some (Inl e) # handles) sums = None"
| "merge_results chk ops (Some (Inr result) # handles) sums = do {
     total_received \<leftarrow> u64_add chk (received sums) (received result);
     total_seq_gaps \<leftarrow> u64_add chk (seq_gaps sums) (seq_gaps result);
     (case ops_add ops (latency_hist sums) (latency_hist result) of
        Inl e \<Rightarrow> None
      | Inr merged \<Rightarrow>
          merge_results chk ops handles
            \<lparr>received = total_received, seq_gaps = total_seq_gaps, latency_hist = merged\<rparr>)
   }"

record load_report =
  producer_sent_expected_total :: u64
  producer_sent_total :: u64
  subscriber_received_total :: u64
  subscriber_seq_gaps_total :: u64
  server_actor_cmd_drops_total :: u64
  server_fanout_drops_total :: u64
  latency_us :: "(u64 \<times> u64 \<times> u64 \<times> u64) option"
  report_samples_total :: u64
  report_cpu_x100 :: "u64 \<times> u64 \<times> u64"
  report_memory_bytes :: "u64 \<times> u64 \<times> u64"

definition load_report_of ::
    "('e, 'hist) hist_ops \<Rightarrow> load_args \<Rightarrow> metrics_snapshot \<Rightarrow> metrics_snapshot \<Rightarrow> u64 \<Rightarrow>
      'hist subscriber_result \<Rightarrow> load_report" where
  "load_report_of ops args start_metrics end_metrics sent sums =
    (let merged_hist = latency_hist sums;
         actor_cmd_drops = saturating_sub (snap_actor_cmd_drops_total end_metrics)
           (snap_actor_cmd_drops_total start_metrics);
         fanout_drops = saturating_sub (snap_fanout_drops_total end_metrics)
           (snap_fanout_drops_total start_metrics)
     in \<lparr>producer_sent_expected_total = saturating_mul (arg_producer_rate args) (arg_duration_secs args),
         producer_sent_total = sent,
         subscriber_received_total = received sums,
         subscriber_seq_gaps_total = seq_gaps sums,
         server_actor_cmd_drops_total = actor_cmd_drops,
         server_fanout_drops_total = fanout_drops,
         latency_us =
           (if ops_is_empty ops merged_hist then None
            else Some (decode_latency_us (ops_value_at_percentile ops 50 merged_hist),
              decode_latency_us (ops_value_at_percentile ops 95 merged_hist),
              decode_latency_us (ops_value_at_percentile ops 99 merged_hist),
              decode_latency_us (ops_max ops merged_hist))),
         report_samples_total = snap_server_samples_total end_metrics,
         report_cpu_x100 = (snap_server_cpu_usage_x100 end_metrics,
           snap_server_cpu_usage_x100_avg end_metrics, snap_server_cpu_usage_x100_max end_metrics),
         report_memory_bytes = (snap_server_memory_bytes end_metrics,
           snap_server_memory_bytes_avg end_metrics, snap_server_memory_bytes_max end_metrics)\<rparr>)"

text \<open>
  From the two metrics fetches, the producer's result and the subscribers' results to the report;
  \<open>None\<close> where the program stops with a panic.
\<close>

definition load_test_main ::
    "bool \<Rightarrow> ('e, 'hist) hist_ops \<Rightarrow> load_args \<Rightarrow> 'e + metrics_snapshot \<Rightarrow> 'e + metrics_snapshot \<Rightarrow>
      ('e + u64) option \<Rightarrow> ('e + 'hist subscriber_result) option list \<Rightarrow> load_report option" where
  "load_test_main chk ops args fetched_first fetched_last produced handles =
    (if arg_subscribers args = 0 then None else
     case (fetched_first, produced, new_latency_hist (ops_new ops), fetched_last) of
       (Inr start_metrics, Some (Inr sent), Inr hist, Inr end_metrics) \<Rightarrow>
         map_option (load_report_of ops args start_metrics end_metrics sent)
           (merge_results chk ops handles \<lparr>received = 0, seq_gaps = 0, latency_hist = hist\<rparr>)
     | _ \<Rightarrow> None)"

lemma merge_totals:
  assumes "\<And>a b. \<exists>c. ops_add ops a b = Inr c"
    and "unat (received sums) + sum_list (map (unat \<circ> received) rs) < 2 ^ 64"
    and "unat (seq_gaps sums) + sum_list (map (unat \<circ> seq_gaps) rs) < 2 ^ 64"
  shows "\<exists>t. merge_results chk ops (map (Some \<circ> Inr) rs) sums = Some t
    \<and> unat (received t) = unat (received sums) + sum_list (map (unat \<circ> received) rs)
    \<and> unat (seq_gaps t) = unat (seq_gaps sums) + sum_list (map (unat \<circ> seq_gaps) rs)"
  using assms(2,3)
proof (induction rs arbitrary: sums)
  case (Cons r rs)
  have n: "u64_add chk (received sums) (received r) = Some (received sums + received r)
      \<and> unat (received sums + received r) = unat (received sums) + unat (received r)"
    using Cons.prems(1) by (intro u64_add_exact) simp
  have g: "u64_add chk (seq_gaps sums) (seq_gaps r) = Some (seq_gaps sums + seq_gaps r)
      \<and> unat (seq_gaps sums + seq_gaps r) = unat (seq_gaps sums) + unat (seq_gaps r)"
    using Cons.prems(2) by (intro u64_add_exact) simp
  from assms(1) obtain c where c: "ops_add ops (latency_hist sums) (latency_hist r) = Inr c" by blast
  let ?sums = "\<lparr>received = received sums + received r, seq_gaps = seq_gaps sums + seq_gaps r,
    latency_hist = c\<rparr>"
  have "\<exists>t. merge_results chk ops (map (Some \<circ> Inr) rs) ?sums = Some t
    \<and> unat (received t) = unat (received ?sums) + sum_list (map (unat \<circ> received) rs)
    \<and> unat (seq_gaps t) = unat (seq_gaps ?sums) + sum_list (map (unat \<circ> seq_gaps) rs)"
    using Cons.prems n g by (intro Cons.IH) simp_all
  with n g c show ?case by (simp add: add.assoc comp_def)
qed simp

text \<open>The drops of the report are the drops counted between the two fetches, up to the counter's end.\<close>

lemma reported_drops:
  "unat (server_fanout_drops_total (load_report_of ops args (snapshot m) (snapshot m') sent sums)) =
      unat (fanout_drops_total m') - unat (fanout_drops_total m)"
  "unat (server_actor_cmd_drops_total (load_report_of ops args (snapshot m) (snapshot m') sent sums)) =
      unat (actor_cmd_drops_total m') - unat (actor_cmd_drops_total m)"
  by (simp_all add: load_report_of_def snapshot_def snapshot_loads_def Let_def unat_saturating_sub)

end
