(* ===== verification/Host_Properties.thy ===== *)
theory Host_Properties
  imports Metrics Pg_Setup Load_Report
begin

text \<open>
  The properties of what surrounds the pipeline: the metrics, the setup of the database, and the load
  test. The concrete inputs are small: two samples, an empty database, three messages.
\<close>

section \<open>Metrics\<close>

text \<open>
  C37. The aggregates describe the samples: after any ticks of the sampler the metrics hold the number
  of samples, their sums (saturated at the largest \<open>u64\<close>) and maxima, and for a number of samples
  below \<open>2 ^ 64\<close> no average in a snapshot exceeds the maximum.
\<close>

theorem sampler_describes:
  assumes "length (recorded ticks) < 2 ^ 64"
  defines "m \<equiv> run_resource_sampler ticks new_metrics"
  shows "describes m (recorded ticks)
    \<and> snap_server_cpu_usage_x100_avg (snapshot m) \<le> snap_server_cpu_usage_x100_max (snapshot m)
    \<and> snap_server_memory_bytes_avg (snapshot m) \<le> snap_server_memory_bytes_max (snapshot m)"
proof -
  have "describes m (recorded ticks)"
    using describes_run [OF describes_new, of ticks] by (simp add: m_def)
  with snapshot_average_bounds [OF this assms(1)] show ?thesis by blast
qed

theorem sampler_describes_witness:
  "describes (run_resource_sampler [Some (250, 10), None, Some (150, 30)] new_metrics)
    [(250, 10240), (150, 30720)]"
  using sampler_describes [of "[Some (250, 10), None, Some (150, 30)]"]
  by (simp add: saturating_mul_def)

text \<open>
  C11. The compare-and-exchange loop of the saturating sum terminates and is atomic: once some value is
  seen twice in a row and the second exchange does not fail spuriously the loop has returned, and
  whenever it returns it has replaced a value the target really had by that value plus the summand, or
  by the largest \<open>u64\<close>.
\<close>

theorem saturating_loop_returns:
  assumes "Suc i < length attempts" "fst (attempts ! i) = a" "attempts ! Suc i = (a, False)"
  shows "\<exists>old new. cas_loop v current attempts = Some (old, new)
    \<and> (\<exists>j < length attempts. attempts ! j = (old, False))
    \<and> unat new = min (unat old + unat v) (2 ^ 64 - 1)"
proof -
  from cas_loop_returns [OF assms, of v current] obtain old new where
    "cas_loop v current attempts = Some (old, new)" by force
  with cas_loop_atomic [OF this] show ?thesis
    by (auto simp: saturating_fetch_add_def unat_saturating_add)
qed

theorem saturating_loop_returns_witness:
  "\<exists>old new. cas_loop 5 0 [(7, False), (9, True), (9, False)] = Some (old, new)
    \<and> unat new = min (unat old + 5) (2 ^ 64 - 1)"
proof -
  have "Suc 1 < length [(7 :: u64, False), (9, True), (9, False)]"
    "fst ([(7 :: u64, False), (9, True), (9, False)] ! 1) = 9"
    "[(7 :: u64, False), (9, True), (9, False)] ! Suc 1 = (9, False)" by simp_all
  from saturating_loop_returns [OF this, of 5 0] show ?thesis by auto
qed

section \<open>Setup\<close>

text \<open>
  C39. The setup is idempotent: over a database that behaves as documented, a run that succeeded has
  added the publication the configuration names and the configured slot and nothing else, and a
  further run, if the connection works, succeeds and changes neither: the refusal of the publication as
  a duplicate is not an error, and the slot is found and not created again.
\<close>

theorem setup_idempotent:
  assumes "setup_database as_db_error execute query_opt query_one named up publications slots"
    and "run_setup_queries as_db_error execute query_opt query_one config db = (Inr (), db')"
    and "up db'"
  shows "\<exists>n db''. named (publication_name config) = Some n
    \<and> publications db' = insert n (publications db) \<and> slots db' = insert (slot_name config) (slots db)
    \<and> run_setup_queries as_db_error execute query_opt query_one config db' = (Inr (), db'')
    \<and> publications db'' = publications db' \<and> slots db'' = slots db'"
proof -
  from setup_database.setup_ok [OF assms(1,2)] obtain n where
    n: "named (publication_name config) = Some n" "publications db' = insert n (publications db)"
      "slots db' = insert (slot_name config) (slots db)" by blast
  with setup_database.setup_again [OF assms(1,3) n(1)] show ?thesis by auto
qed

text \<open>A name in mixed case, on a database without publications and slots.\<close>

definition empty_env :: "string \<Rightarrow> string option" where
  "empty_env name = None"

definition demo_config :: postgres_config where
  "demo_config = (from_env empty_env)\<lparr>publication_name := ''MyPub''\<rparr>"

definition empty_db :: ref_db where
  "empty_db = \<lparr>ref_up = True, ref_publications = [], ref_slots = []\<rparr>"

definition set_up_db :: ref_db where
  "set_up_db = \<lparr>ref_up = True, ref_publications = [''mypub''], ref_slots = [''mini_graph_slot'']\<rparr>"

lemma demo_names: "publication_name demo_config = ''MyPub''" "slot_name demo_config = ''mini_graph_slot''"
    "ref_named ''MyPub'' = Some ''mypub''"
  by (simp_all add: demo_config_def from_env_def env_or_def empty_env_def slot_name_def ref_named_def
      ref_lower_def ref_upper_def char_of_def bit_Suc_0_iff)

theorem setup_idempotent_witness:
  "\<exists>db''. run_setup_queries Some ref_execute ref_query_opt ref_query_one demo_config set_up_db = (Inr (), db'')
    \<and> set (ref_publications db'') = {''mypub''} \<and> set (ref_slots db'') = {''mini_graph_slot''}"
proof -
  have "run_setup_queries Some ref_execute ref_query_opt ref_query_one demo_config empty_db = (Inr (), set_up_db)"
    using ref_execute_table nth_mem [of _ table_queries]
    by (simp add: run_setup_queries_def and_continue_def exec_def ensure_publication_def ref_execute_publication
        demo_names ensure_replication_slot_def ref_query_opt_def ref_query_one_def Let_def table_queries_def
        empty_db_def set_up_db_def)
  from setup_idempotent [OF ref_setup.setup_database_axioms this] show ?thesis
    by (simp add: set_up_db_def)
qed

section \<open>The load test\<close>

text \<open>
  C34. The accounting of the load test is sound: the producer numbers its messages \<open>0, 1, 2, \<dots>\<close>
  without a gap, and a subscriber that receives some of them in increasing order neither panics nor
  wraps, counts each once, and received plus missed is at most what was sent, with equality when it
  saw the first and the last.
\<close>

theorem load_test_accounts:
  fixes env :: "('e, 'hist) subscriber_env" and events :: "stream_event list"
  assumes "\<And>p. payload_json p = Inr (body p)" "\<And>d b. msg_json (SendMessageTo d b) = Inr (msg d b)"
    and "length ticks < 2 ^ 64"
    and "new_latency_hist (env_new_hist env) = Inr h"
    and "seqs = map unat (seqs_of (payloads_of env events))"
    and "seqs \<noteq> []" "sorted_wrt (<) seqs"
    and "set seqs \<subseteq> (\<lambda>p. unat (payload_seq p)) ` set (payloads_from 0 (sent_ticks deadline ticks))"
  shows "\<exists>sent r. producer_loop chk payload_json msg_json d deadline ticks 0 =
      Some (map (msg d \<circ> body) (payloads_from 0 (sent_ticks deadline ticks)), Inr sent)
    \<and> measure_loop chk' env events = Some (Inr r)
    \<and> unat (received r) = length seqs \<and> unat (received r) + unat (seq_gaps r) \<le> unat sent
    \<and> ({0, unat sent - 1} \<subseteq> set seqs \<longrightarrow> unat (received r) + unat (seq_gaps r) = unat sent)"
proof -
  let ?ticks = "sent_ticks deadline ticks"
  have len: "length ?ticks \<le> length ticks" by (simp add: sent_ticks_def length_takeWhile_le)
  then have n: "unat (of_nat (length ?ticks) :: u64) = length ?ticks" using assms(3) by (simp add: unat_of_nat)
  have "map (\<lambda>p. unat (payload_seq p)) (payloads_from 0 ?ticks) = [0 ..< length ?ticks]"
    using payloads_from_seqs [of 0 ?ticks] len assms(3) by simp
  from arg_cong [OF this, of set] assms(8) have below: "\<forall>s \<in> set seqs. s < length ?ticks" by auto
  have "\<exists>r. measure_loop chk' env events = Some (Inr r) \<and> unat (received r) = length seqs
    \<and> unat (received r) + unat (seq_gaps r) \<le> length ?ticks
    \<and> ({0, length ?ticks - 1} \<subseteq> set seqs \<longrightarrow> unat (received r) + unat (seq_gaps r) = length ?ticks)"
    using len assms(3,4,6,7) below unfolding assms(5) by (intro subscriber_accounts) simp_all
  moreover have "producer_loop chk payload_json msg_json d deadline ticks 0 =
      Some (map (msg d \<circ> body) (payloads_from 0 ?ticks), Inr (of_nat (length ?ticks)))"
    using producer_sends [where payload_json = payload_json and msg_json = msg_json, OF assms(1,2), of 0 ticks]
      assms(3) by simp
  ultimately show ?thesis
    by (intro exI [of _ "of_nat (length ?ticks)"]) (simp add: n)
qed

text \<open>Three messages sent, the middle one lost. Bodies are as long as their number.\<close>

definition demo_env :: "(string, u64 list) subscriber_env" where
  "demo_env = \<lparr>env_connect = Inr (), env_encode = (\<lambda>m. Inr []), env_send = (\<lambda>t. Inr ()),
    env_server_message = (\<lambda>t. Inr (Message ''p'' t 0)),
    env_payload = (\<lambda>t. Inr \<lparr>payload_seq = of_nat (length t), payload_sent_at_us = 1\<rparr>),
    env_new_hist = (\<lambda>lo hi digits. Inr []), env_record = (\<lambda>v h. (True, v # h))\<rparr>"

definition demo_body :: "payload \<Rightarrow> string" where
  "demo_body p = replicate (unat (payload_seq p)) CHR ''x''"

fun demo_msg :: "client_message \<Rightarrow> string + string" where
  "demo_msg (SendMessageTo d b) = Inr b"
| "demo_msg m = Inl ''other''"

definition demo_ticks :: "producer_tick list" where
  "demo_ticks = map (\<lambda>t. \<lparr>tick_instant = t, tick_now_us = of_nat t, tick_written = True\<rparr>) [1, 2, 3]"

definition demo_events :: "stream_event list" where
  "demo_events = [Arrived 5 (TextFrame []), Arrived 6 OtherFrame, Arrived 7 (TextFrame ''xx''), TimerFired]"

theorem load_test_accounts_witness:
  "\<exists>r. measure_loop True demo_env demo_events = Some (Inr r)
    \<and> unat (received r) = 2 \<and> unat (received r) + unat (seq_gaps r) = 3"
proof -
  have ticks: "sent_ticks 9 demo_ticks = demo_ticks" "length demo_ticks < 2 ^ 64"
    by (simp_all add: sent_ticks_def demo_ticks_def)
  have hist: "new_latency_hist (env_new_hist demo_env) = Inr []"
    by (simp add: new_latency_hist_def demo_env_def)
  have seqs: "[0, 2] = map unat (seqs_of (payloads_of demo_env demo_events))"
    by (simp add: demo_events_def demo_env_def)
  have among: "set [0, 2] \<subseteq> (\<lambda>p. unat (payload_seq p)) ` set (payloads_from 0 (sent_ticks 9 demo_ticks))"
    unfolding ticks by (simp add: demo_ticks_def)
  have "producer_loop True (\<lambda>p. Inr (demo_body p)) demo_msg ''d'' 9 demo_ticks 0 = Some (w, Inr n) \<Longrightarrow> n = 3" for w n
    by (auto simp: demo_ticks_def u64_add_def bind_eq_Some_conv)
  moreover have "{0, 3 - 1} \<subseteq> set [0, 2 :: nat]" by simp
  moreover note load_test_accounts [where payload_json = "\<lambda>p. Inr (demo_body p)" and msg_json = demo_msg
      and msg = "\<lambda>d b. b" and d = "''d''" and chk = True and chk' = True,
      OF refl demo_msg.simps(1) ticks(2) hist seqs _ _ among]
  ultimately show ?thesis by (auto simp: less_Suc_eq)
qed

text \<open>
  C35. One subscriber that fails to join blocks the load test for good: as long as another one has
  joined and waits, no continuation of the run lets the main task start the test or notice the
  failure, because the waiting subscriber keeps the channel open.
\<close>

theorem failed_join_blocks:
  assumes "barrier_run es (barrier_init n) = Some b" "stuck b"
    and "barrier_run es' b = Some b'"
  shows "\<not> bar_started b' \<and> \<not> bar_panicked b'"
  using stuck_forever [OF assms(3) barrier_run_ok [OF assms(1) barrier_init_ok] assms(2)]
  by (simp add: stuck_def)

theorem failed_join_blocks_witness:
  "\<exists>b. barrier_run [SubscriberJoined 0, JoinFailed 1, MainReceived] (barrier_init 2) = Some b
    \<and> \<not> bar_started b \<and> \<not> bar_panicked b"
proof -
  obtain b where b: "barrier_run [SubscriberJoined 0, JoinFailed 1] (barrier_init 2) = Some b" "stuck b"
    "barrier_run [MainReceived] b \<noteq> None"
    "barrier_run [SubscriberJoined 0, JoinFailed 1, MainReceived] (barrier_init 2) = barrier_run [MainReceived] b"
    by (simp add: barrier_init_def move_phase_def stuck_def phase_count_def numeral_2_eq_2)
  then obtain b' where "barrier_run [MainReceived] b = Some b'" by blast
  with failed_join_blocks [OF b(1,2) this] b(4) show ?thesis by auto
qed

text \<open>
  C36. When every subscriber joins, the main task is never stuck: until it starts it can receive the
  next announcement, or all were received and it can start.
\<close>

theorem all_joined_goes_on:
  assumes "barrier_run es (barrier_init n) = Some b" "\<not> bar_started b" "\<not> bar_panicked b"
    and "list_all (\<lambda>p. p = Waiting) (bar_phases b)"
  shows "if bar_joined b < n then barrier_step MainReceived b \<noteq> None
    else \<exists>b'. barrier_step MainStarted b = Some b' \<and> bar_started b'"
  by (rule all_joined_progress [OF barrier_run_ok [OF assms(1) barrier_init_ok] assms(2-4)])

theorem all_joined_goes_on_witness:
  "\<exists>b. barrier_run [SubscriberJoined 0, MainReceived] (barrier_init 1) = Some b
    \<and> (\<exists>b'. barrier_step MainStarted b = Some b' \<and> bar_started b')"
proof -
  obtain b where b: "barrier_run [SubscriberJoined 0, MainReceived] (barrier_init 1) = Some b"
    "\<not> bar_started b" "\<not> bar_panicked b" "list_all (\<lambda>p. p = Waiting) (bar_phases b)" "bar_joined b = 1"
    by (simp add: barrier_init_def move_phase_def)
  from all_joined_goes_on [OF b(1-4)] b(1,5) show ?thesis by simp
qed

end
