(* ===== verification/Pg_Errors.thy ===== *)
theory Pg_Errors
  imports Byte_Reader
begin

text \<open>
  The texts of the parser's errors (\<^verbatim>\<open>impl Display for PgOutputError\<close> in
  \<^verbatim>\<open>src/wal/pgoutput.rs\<close>). An \<open>u8\<close> is displayed in decimal.
\<close>

definition digit :: "nat \<Rightarrow> char" where
  "digit d = char_of (48 + d)"

fun decimal :: "nat \<Rightarrow> string" where
  "decimal n = (if n < 10 then [digit n] else decimal (n div 10) @ [digit (n mod 10)])"

declare decimal.simps [simp del]

definition read_decimal :: "string \<Rightarrow> nat" where
  "read_decimal s = foldl (\<lambda>n c. n * 10 + (of_char c - 48)) 0 s"

lemma digit_value: "d < 10 \<Longrightarrow> of_char (digit d) - 48 = d"
  by (simp add: digit_def)

lemma read_decimal_decimal: "read_decimal (decimal n) = n"
proof (induction n rule: decimal.induct)
  case (1 n)
  show ?case
  proof (cases "n < 10")
    case True
    then show ?thesis by (simp add: decimal.simps [of n] read_decimal_def digit_value)
  next
    case False
    then show ?thesis
      using "1.IH" by (simp add: decimal.simps [of n] read_decimal_def digit_value)
  qed
qed

fun fmt_pg_output_error :: "pg_output_error \<Rightarrow> string" where
  "fmt_pg_output_error (Truncated ctx) = ''pgoutput truncated while reading '' @ ctx"
| "fmt_pg_output_error (InvalidUtf8 ctx) = ''pgoutput invalid utf8 in '' @ ctx"
| "fmt_pg_output_error (UnsupportedTupleKind k) = ''pgoutput unsupported tuple kind: '' @ decimal (unat k)"
| "fmt_pg_output_error (UnknownMessageTag k) = ''pgoutput unknown message tag: '' @ decimal (unat k)"

text \<open>The text determines the error: kind, context and byte can be read off a log line.\<close>

lemma fmt_pg_output_error_inject: "fmt_pg_output_error e = fmt_pg_output_error e' \<Longrightarrow> e = e'"
proof -
  have tag: "decimal (unat k) = decimal (unat k') \<Longrightarrow> k = k'" for k k' :: u8
    by (metis read_decimal_decimal word_unat_eq_iff)
  show "fmt_pg_output_error e = fmt_pg_output_error e' \<Longrightarrow> e = e'"
    by (cases e; cases e') (auto dest: tag)
qed

end
