(* ===== verification/Server_System.thy ===== *)
theory Server_System
  imports Session_Rooms Wal_Delivery
begin

text \<open>
  The running server: the connections of \<^verbatim>\<open>src/websocket.rs\<close>, the rooms actor of
  \<^verbatim>\<open>src/rooms.rs\<close>, the WAL reader of \<^verbatim>\<open>src/wal/replication.rs\<close> and the resource sampler of
  \<^verbatim>\<open>src/metrics.rs\<close> as one state machine.
  The tasks share the channels and the metrics and nothing else; a step is one task running from one
  of its awaits to the next, and a run interleaves the steps of all tasks in any order.
\<close>

section \<open>The state\<close>

text \<open>The operations of tokio's channels and of serde the tasks use.\<close>

record ('h, 'tx, 'r, 'w) channel_ops =
  op_cmd_send :: "('h, 'tx, 'r, 'w) cmd_send"
  op_cmd_recv :: "'h \<Rightarrow> 'w \<Rightarrow> ('tx, 'r) room_command option \<times> 'w"
  op_client_send :: "('tx, 'w) client_send"
  op_client_recv :: "'tx \<Rightarrow> 'w \<Rightarrow> server_message option \<times> 'w"
  op_client_drop :: "'tx \<Rightarrow> 'w \<Rightarrow> 'w"
  op_from_json :: "string \<Rightarrow> string + client_message"

text \<open>
  A connection is between frames, or awaits the answer to a join. The history of handled commands,
  the clients ever accepted, with their channels, the responders ever created, the messages taken out
  of the clients' channels and the text frames handled are there to choose fresh ones and to state properties.
\<close>

record ('h, 'c, 'tx, 'r, 'w) server =
  srv_app :: "('h, 'c) app_state"
  srv_world :: 'w
  srv_rooms :: "(document_id, 'tx clients) fmap"
  srv_acks :: "'r list"
  srv_sessions :: "client_id \<Rightarrow> ('tx session \<times> ('r \<times> document_id) option) option"
  srv_reader :: "'w wal_reader"
  srv_flow :: flow
  srv_history :: "('tx, 'r) room_command list"
  srv_clients :: "(client_id \<times> 'tx) list"
  srv_responders :: "'r list"
  srv_received :: "('tx \<times> server_message) list"
  srv_frames :: "(client_id \<times> string) list"

text \<open>What the send task of a channel has taken out of it.\<close>

definition received_by :: "('h, 'c, 'tx, 'r, 'w) server \<Rightarrow> 'tx \<Rightarrow> server_message list" where
  "received_by s tx = map snd (filter (\<lambda>(tx', m). tx' = tx) (srv_received s))"

definition server_start ::
    "'h rooms_handle \<Rightarrow> 'c wal_reader_handle \<Rightarrow> bool \<Rightarrow> 'w \<Rightarrow> ('h, 'c, 'tx, 'r, 'w) server" where
  "server_start rooms wal_reader has_sql w =
    \<lparr>srv_app = new_app_state rooms wal_reader new_metrics, srv_world = w, srv_rooms = fmempty,
     srv_acks = [], srv_sessions = (\<lambda>_. None), srv_reader = reader_start has_sql new_metrics w,
     srv_flow = Continue, srv_history = [], srv_clients = [], srv_responders = [], srv_received = [],
     srv_frames = []\<rparr>"

section \<open>The turns of the tasks\<close>

definition set_metrics :: "metrics \<Rightarrow> ('h, 'c, 'tx, 'r, 'w) server \<Rightarrow> ('h, 'c, 'tx, 'r, 'w) server" where
  "set_metrics m s = s\<lparr>srv_app := (srv_app s)\<lparr>app_metrics := m\<rparr>\<rparr>"

text \<open>A connection is accepted under a fresh id with a fresh channel.\<close>

definition accept_turn ::
    "client_id \<Rightarrow> 'tx \<Rightarrow> ('h, 'c, 'tx, 'r, 'w) server \<Rightarrow> ('h, 'c, 'tx, 'r, 'w) server option" where
  "accept_turn cid tx s =
    (if cid \<in> fst ` set (srv_clients s) \<or> tx \<in> snd ` set (srv_clients s) then None
     else Some (s\<lparr>srv_sessions := (srv_sessions s)(cid \<mapsto> (new_session cid tx, None)),
           srv_clients := srv_clients s @ [(cid, tx)]\<rparr>))"

definition reply_error ::
    "('h, 'tx, 'r, 'w) channel_ops \<Rightarrow> 'tx session \<Rightarrow> web_socket_error \<Rightarrow> 'w \<Rightarrow> 'w" where
  "reply_error ops session err w =
    snd (op_client_send ops (session_tx session) (ErrorMessage (fmt_web_socket_error err)) w)"

text \<open>A text frame. A join runs up to the await of its answer, anything else to the end.\<close>

definition frame_turn ::
    "('h, 'tx, 'r, 'w) channel_ops \<Rightarrow> client_id \<Rightarrow> 'r call_env \<Rightarrow> string \<Rightarrow>
      ('h, 'c, 'tx, 'r, 'w) server \<Rightarrow> ('h, 'c, 'tx, 'r, 'w) server option" where
  "frame_turn ops cid env str s =
    (case srv_sessions s cid of
       None \<Rightarrow> None
     | Some (session, Some waiting) \<Rightarrow> None
     | Some (session, None) \<Rightarrow>
        (case op_from_json ops str of
           Inr (Join d) \<Rightarrow>
             if call_responder env \<in> set (srv_responders s) then None
             else
               (case join_send (op_cmd_send ops) (call_responder env) d (srv_app s) session (srv_world s) of
                  (Inl err, app, w) \<Rightarrow>
                    Some (s\<lparr>srv_app := app, srv_world := reply_error ops session err w,
                       srv_responders := srv_responders s @ [call_responder env],
                       srv_frames := srv_frames s @ [(cid, str)]\<rparr>)
                | (Inr u, app, w) \<Rightarrow>
                    Some (s\<lparr>srv_app := app, srv_world := w,
                       srv_sessions := (srv_sessions s)(cid \<mapsto> (session, Some (call_responder env, d))),
                       srv_responders := srv_responders s @ [call_responder env],
                       srv_frames := srv_frames s @ [(cid, str)]\<rparr>))
         | _ \<Rightarrow>
             (case handle_text (op_cmd_send ops) (op_client_send ops) (op_from_json ops) env str
                 (srv_app s) session (srv_world s) of
                (app, session', w) \<Rightarrow>
                  Some (s\<lparr>srv_app := app, srv_world := w,
                     srv_sessions := (srv_sessions s)(cid \<mapsto> (session', None)),
                     srv_frames := srv_frames s @ [(cid, str)]\<rparr>))))"

text \<open>The answer to a join; an acknowledgement comes from the actor.\<close>

definition answer_turn ::
    "('h, 'tx, 'r, 'w) channel_ops \<Rightarrow> client_id \<Rightarrow> ack \<Rightarrow>
      ('h, 'c, 'tx, 'r, 'w) server \<Rightarrow> ('h, 'c, 'tx, 'r, 'w) server option" where
  "answer_turn ops cid answer s =
    (case srv_sessions s cid of
       Some (session, Some (r, d)) \<Rightarrow>
         if answer = Acked \<and> r \<notin> set (srv_acks s) then None
         else
           (case join_finish (op_client_send ops) answer d session (srv_world s) of
              (Inl err, session', w) \<Rightarrow>
                Some (s\<lparr>srv_world := reply_error ops session err w,
                   srv_sessions := (srv_sessions s)(cid \<mapsto> (session', None))\<rparr>)
            | (Inr u, session', w) \<Rightarrow>
                Some (s\<lparr>srv_world := w, srv_sessions := (srv_sessions s)(cid \<mapsto> (session', None))\<rparr>))
     | _ \<Rightarrow> None)"

text \<open>The connection ends, at an await of its receive task.\<close>

definition close_turn ::
    "('h, 'tx, 'r, 'w) channel_ops \<Rightarrow> client_id \<Rightarrow>
      ('h, 'c, 'tx, 'r, 'w) server \<Rightarrow> ('h, 'c, 'tx, 'r, 'w) server option" where
  "close_turn ops cid s =
    (case srv_sessions s cid of
       None \<Rightarrow> None
     | Some (session, waiting) \<Rightarrow>
        (case leave_on_close (op_cmd_send ops) (srv_app s) session (srv_world s) of
           (app, w) \<Rightarrow>
             Some (s\<lparr>srv_app := app, srv_world := w, srv_sessions := (srv_sessions s)(cid := None)\<rparr>)))"

text \<open>The actor receives and handles one command.\<close>

definition rooms_turn ::
    "('h, 'tx, 'r, 'w) channel_ops \<Rightarrow> ('h, 'c, 'tx, 'r, 'w) server \<Rightarrow> ('h, 'c, 'tx, 'r, 'w) server option" where
  "rooms_turn ops s =
    (case op_cmd_recv ops (handle_tx (app_rooms (srv_app s))) (srv_world s) of
       (None, w) \<Rightarrow> None
     | (Some c, w) \<Rightarrow>
        (let st = coordinator_step (op_client_send ops) c
            \<lparr>co_rooms = srv_rooms s, co_acks = srv_acks s,
             co_metrics = app_metrics (srv_app s), co_world = w\<rparr>
         in Some (set_metrics (co_metrics st) (s\<lparr>srv_rooms := co_rooms st, srv_acks := co_acks st,
              srv_world := co_world st, srv_history := srv_history s @ [c]\<rparr>))))"

text \<open>The WAL reader handles one input with the rooms sink on the same command channel.\<close>

definition reader_turn ::
    "('h, 'tx, 'r, 'w) channel_ops \<Rightarrow> reader_input \<Rightarrow>
      ('h, 'c, 'tx, 'r, 'w) server \<Rightarrow> ('h, 'c, 'tx, 'r, 'w) server option" where
  "reader_turn ops i s =
    (if srv_flow s \<noteq> Continue then None
     else
       (case reader_step (rooms_send_invalidation (op_cmd_send ops) (new_rooms_invalidation_sink (app_rooms (srv_app s)))) i
           ((srv_reader s)\<lparr>wal_metrics := app_metrics (srv_app s), wal_world := srv_world s\<rparr>) of
          (f, rd) \<Rightarrow>
            Some (set_metrics (wal_metrics rd)
              (s\<lparr>srv_reader := rd, srv_flow := f, srv_world := wal_world rd\<rparr>))))"

declare new_rooms_invalidation_sink_def [simp]

text \<open>A send task takes a message; a client's receiver is dropped.\<close>

definition client_turn ::
    "('h, 'tx, 'r, 'w) channel_ops \<Rightarrow> 'tx \<Rightarrow> ('h, 'c, 'tx, 'r, 'w) server \<Rightarrow> ('h, 'c, 'tx, 'r, 'w) server option" where
  "client_turn ops tx s =
    (case op_client_recv ops tx (srv_world s) of
       (m, w) \<Rightarrow> Some (s\<lparr>srv_world := w,
         srv_received := srv_received s @ (case m of None \<Rightarrow> [] | Some x \<Rightarrow> [(tx, x)])\<rparr>))"

definition drop_turn ::
    "('h, 'tx, 'r, 'w) channel_ops \<Rightarrow> 'tx \<Rightarrow> ('h, 'c, 'tx, 'r, 'w) server \<Rightarrow> ('h, 'c, 'tx, 'r, 'w) server option" where
  "drop_turn ops tx s = Some (s\<lparr>srv_world := op_client_drop ops tx (srv_world s)\<rparr>)"

text \<open>A tick of the resource sampler; only the metrics change.\<close>

definition sampler_turn ::
    "(u64 \<times> u64) option \<Rightarrow> ('h, 'c, 'tx, 'r, 'w) server \<Rightarrow> ('h, 'c, 'tx, 'r, 'w) server option" where
  "sampler_turn process s = Some (set_metrics (sampler_tick process (app_metrics (srv_app s))) s)"

inductive server_step ::
    "('h, 'tx, 'r, 'w) channel_ops \<Rightarrow> ('h, 'c, 'tx, 'r, 'w) server \<Rightarrow> ('h, 'c, 'tx, 'r, 'w) server \<Rightarrow> bool"
  for ops where
    accepted_client: "accept_turn cid tx s = Some s' \<Longrightarrow> server_step ops s s'"
  | received_frame: "frame_turn ops cid env str s = Some s' \<Longrightarrow> server_step ops s s'"
  | answered_join: "answer_turn ops cid answer s = Some s' \<Longrightarrow> server_step ops s s'"
  | closed_socket: "close_turn ops cid s = Some s' \<Longrightarrow> server_step ops s s'"
  | rooms_actor: "rooms_turn ops s = Some s' \<Longrightarrow> server_step ops s s'"
  | wal_reader_input: "input_orders_ok i \<Longrightarrow> reader_turn ops i s = Some s' \<Longrightarrow> server_step ops s s'"
  | client_reads: "client_turn ops tx s = Some s' \<Longrightarrow> server_step ops s s'"
  | client_gone: "drop_turn ops tx s = Some s' \<Longrightarrow> server_step ops s s'"
  | sampled_resources: "sampler_turn process s = Some s' \<Longrightarrow> server_step ops s s'"

inductive_cases server_stepE: "server_step ops s s'"

inductive reachable ::
    "('h, 'tx, 'r, 'w) channel_ops \<Rightarrow> ('h, 'c, 'tx, 'r, 'w) server \<Rightarrow> ('h, 'c, 'tx, 'r, 'w) server \<Rightarrow> bool"
  for ops s0 where
    reach_start: "reachable ops s0 s0"
  | reach_step: "reachable ops s0 s \<Longrightarrow> server_step ops s s' \<Longrightarrow> reachable ops s0 s'"

end
