(* ===== verification/Server_Safety.thy ===== *)
theory Server_Safety
  imports Server_System
begin

text \<open>
  Invariants of the running server, over channels that keep their contract: every reachable state
  has consistent rooms, relations, acknowledgements and sessions, and a client is sent only what was
  broadcast to a room it joined.
\<close>

section \<open>The channels of the whole server\<close>

locale server_channels = session_channels "op_cmd_send ops" cmd_queue cmd_closed cmd_capacity
    "op_client_send ops" client_queue client_closed client_capacity
  for ops :: "('h, 'tx, 'r, 'w) channel_ops"
    and cmd_queue :: "'w \<Rightarrow> 'h \<Rightarrow> ('tx, 'r) room_command list"
    and cmd_closed :: "'w \<Rightarrow> 'h \<Rightarrow> bool"
    and cmd_capacity :: "'h \<Rightarrow> nat"
    and client_queue :: "'w \<Rightarrow> 'tx \<Rightarrow> server_message list"
    and client_closed :: "'w \<Rightarrow> 'tx \<Rightarrow> bool"
    and client_capacity :: "'tx \<Rightarrow> nat" +
  assumes cmd_recv_none: "op_cmd_recv ops h w = (None, w') \<Longrightarrow> w' = w \<and> cmd_queue w h = []"
    and cmd_recv_some:
      "op_cmd_recv ops h w = (Some c, w') \<Longrightarrow>
        cmd_queue w = (cmd_queue w')(h := c # cmd_queue w' h) \<and> client_queue w' = client_queue w
        \<and> cmd_closed w' = cmd_closed w \<and> client_closed w' = client_closed w"
    and client_recv_none: "op_client_recv ops tx w = (None, w') \<Longrightarrow> w' = w \<and> client_queue w tx = []"
    and client_recv_some:
      "op_client_recv ops tx w = (Some m, w') \<Longrightarrow>
        client_queue w = (client_queue w')(tx := m # client_queue w' tx) \<and> cmd_queue w' = cmd_queue w"
    and client_dropped:
      "client_queue (op_client_drop ops tx w) = (client_queue w)(tx := [])
        \<and> cmd_queue (op_client_drop ops tx w) = cmd_queue w"

sublocale session_channels \<subseteq> fan: client_channels client_send client_queue client_closed client_capacity
  by unfold_locales

section \<open>The invariant\<close>

text \<open>The commands that may be on the channel or in the history.\<close>

fun command_ok :: "(client_id \<times> 'tx) list \<Rightarrow> 'r list \<Rightarrow> ('tx, 'r) room_command \<Rightarrow> bool" where
  "command_ok clients responders (RoomJoin d cid tx r) \<longleftrightarrow>
    (cid, tx) \<in> set clients \<and> r \<in> set responders"
| "command_ok clients responders (RoomLeave d cid) \<longleftrightarrow> cid \<in> fst ` set clients"
| "command_ok clients responders (RoomBroadcast d m) \<longleftrightarrow>
    (\<exists>cid \<in> fst ` set clients. \<exists>str now. m = new_message now cid str)
    \<or> (\<exists>ks t. m = Invalidation ks t \<and> invalidation_ok (d, ks, t))"

text \<open>What justifies a message in a client's queue.\<close>

fun message_ok :: "('tx, 'r) room_command list \<Rightarrow> 'tx \<Rightarrow> server_message \<Rightarrow> bool" where
  "message_ok history tx (ErrorMessage e) \<longleftrightarrow> True"
| "message_ok history tx (Joined cid d) \<longleftrightarrow> (\<exists>r. RoomJoin d cid tx r \<in> set history)"
| "message_ok history tx (Message from str t) \<longleftrightarrow>
    (\<exists>d cid r. RoomBroadcast d (Message from str t) \<in> set history \<and> RoomJoin d cid tx r \<in> set history)"
| "message_ok history tx (Invalidation ks t) \<longleftrightarrow>
    (\<exists>d cid r. RoomBroadcast d (Invalidation ks t) \<in> set history \<and> RoomJoin d cid tx r \<in> set history)"

definition members_ok :: "('h, 'c, 'tx, 'r, 'w) server \<Rightarrow> bool" where
  "members_ok s \<longleftrightarrow>
    (\<forall>room. fmlookup (srv_rooms s) room \<noteq> Some [])
    \<and> srv_acks s = concat (map ack_of (srv_history s))
    \<and> (\<forall>d cid tx. (cid, tx) \<in> set (entry_list (srv_rooms s) d) \<longrightarrow>
        (\<exists>r. RoomJoin d cid tx r \<in> set (srv_history s)))"

text \<open>
  A session carries its own id; its current room is one whose join the actor has handled with the
  session's channel; while it waits for an answer its join is on the channel or was handled, and only
  that join can produce the answer.
\<close>

definition session_ok ::
    "('tx, 'r) room_command list \<Rightarrow> ('tx, 'r) room_command list \<Rightarrow> (client_id \<times> 'tx) list \<Rightarrow> 'r list \<Rightarrow>
      client_id \<Rightarrow> 'tx session \<Rightarrow> ('r \<times> document_id) option \<Rightarrow> bool" where
  "session_ok history commands clients responders cid session waiting \<longleftrightarrow>
    session_client_id session = cid \<and> (cid, session_tx session) \<in> set clients
    \<and> (\<forall>d. session_current_room session = Some d \<longrightarrow>
        (\<exists>r. RoomJoin d cid (session_tx session) r \<in> set history))
    \<and> (\<forall>r d. waiting = Some (r, d) \<longrightarrow> r \<in> set responders
        \<and> RoomJoin d cid (session_tx session) r \<in> set commands \<and> (\<forall>c \<in> set commands. ack_of c = [r] \<longrightarrow> c = RoomJoin d cid (session_tx session) r))"

text \<open>No two clients share an id or a channel.\<close>

definition clients_ok :: "(client_id \<times> 'tx) list \<Rightarrow> bool" where
  "clients_ok clients \<longleftrightarrow> distinct (map fst clients) \<and> distinct (map snd clients)"

lemma clients_ok_channel:
  "clients_ok clients \<Longrightarrow> (cid, tx) \<in> set clients \<Longrightarrow> (cid', tx) \<in> set clients \<Longrightarrow> cid = cid'"
  unfolding clients_ok_def by (metis (no_types, lifting) distinct_map fst_conv inj_onD snd_conv)

text \<open>What was put into a channel and not lost with it: taken out already, or waiting.\<close>

definition inbox ::
    "('w \<Rightarrow> 'tx \<Rightarrow> server_message list) \<Rightarrow> ('h, 'c, 'tx, 'r, 'w) server \<Rightarrow> 'tx \<Rightarrow> server_message list" where
  "inbox client_queue s tx = received_by s tx @ client_queue (srv_world s) tx"

lemma inbox_same: "srv_received s' = srv_received s \<Longrightarrow> received_by s' tx = received_by s tx"
  by (simp add: received_by_def)

definition server_ok ::
    "('w \<Rightarrow> 'h \<Rightarrow> ('tx, 'r) room_command list) \<Rightarrow> ('w \<Rightarrow> 'tx \<Rightarrow> server_message list) \<Rightarrow>
      ('h, 'c, 'tx, 'r, 'w) server \<Rightarrow> bool" where
  "server_ok cmd_queue client_queue s \<longleftrightarrow>
    (let commands = srv_history s @ cmd_queue (srv_world s) (handle_tx (app_rooms (srv_app s))) in
     members_ok s \<and> reader_inv (srv_reader s) \<and> clients_ok (srv_clients s)
     \<and> list_all (command_ok (srv_clients s) (srv_responders s)) commands
     \<and> (\<forall>cid session waiting. srv_sessions s cid = Some (session, waiting) \<longrightarrow>
          session_ok (srv_history s) commands (srv_clients s) (srv_responders s) cid session waiting)
     \<and> (\<forall>tx. list_all (message_ok (srv_history s) tx) (inbox client_queue s tx)))"

lemma command_ok_mono:
  "command_ok clients rs c \<Longrightarrow> set clients \<subseteq> set clients' \<Longrightarrow> set rs \<subseteq> set rs' \<Longrightarrow> command_ok clients' rs' c"
  by (cases c) auto

lemma message_ok_mono: "message_ok history tx m \<Longrightarrow> set history \<subseteq> set history' \<Longrightarrow> message_ok history' tx m"
  by (cases m) auto

lemma session_ok_client: "session_ok history commands clients rs cid session waiting \<Longrightarrow> cid \<in> fst ` set clients"
  unfolding session_ok_def by (rule image_eqI [of _ _ "(cid, session_tx session)"]) simp_all

lemma session_ok_answered:
  assumes "session_ok history commands clients rs cid session waiting"
  shows "session_ok history commands' clients rs cid session None"
    and "RoomJoin d cid (session_tx session) r \<in> set history \<Longrightarrow>
      session_ok history commands' clients rs cid (session\<lparr>session_current_room := Some d\<rparr>) None"
  using assms by (auto simp: session_ok_def)

lemma session_ok_mono:
  assumes "session_ok history commands clients rs cid session waiting"
    and "set history \<subseteq> set history'" "set clients \<subseteq> set clients'" "set rs \<subseteq> set rs'"
    and "set commands \<subseteq> set commands'"
    and "\<forall>c \<in> set commands'. c \<in> set commands \<or> (\<forall>r \<in> set rs. ack_of c \<noteq> [r])"
  shows "session_ok history' commands' clients' rs' cid session waiting"
proof -
  have own: "session_client_id session = cid" "(cid, session_tx session) \<in> set clients"
    "\<And>d. session_current_room session = Some d \<Longrightarrow>
      \<exists>r. RoomJoin d cid (session_tx session) r \<in> set history"
    "\<And>r d. waiting = Some (r, d) \<Longrightarrow> r \<in> set rs"
    "\<And>r d. waiting = Some (r, d) \<Longrightarrow> RoomJoin d cid (session_tx session) r \<in> set commands"
    "\<And>r d c. waiting = Some (r, d) \<Longrightarrow> c \<in> set commands \<Longrightarrow> ack_of c = [r] \<Longrightarrow>
      c = RoomJoin d cid (session_tx session) r"
    using assms(1) by (simp_all add: session_ok_def)
  show ?thesis
    unfolding session_ok_def
  proof (intro conjI allI impI ballI)
    show "session_client_id session = cid" by (rule own(1))
    show "(cid, session_tx session) \<in> set clients'" using own(2) assms(3) by blast
    show "\<exists>r. RoomJoin d cid (session_tx session) r \<in> set history'"
      if "session_current_room session = Some d" for d
      using own(3) [OF that] assms(2) by blast
    show "r \<in> set rs'" if "waiting = Some (r, d)" for r d
      using own(4) [OF that] assms(4) by blast
    show "RoomJoin d cid (session_tx session) r \<in> set commands'" if "waiting = Some (r, d)" for r d
      using own(5) [OF that] assms(5) by blast
    show "c = RoomJoin d cid (session_tx session) r"
      if "waiting = Some (r, d)" "c \<in> set commands'" "ack_of c = [r]" for r d c
      using own(4) [OF that(1)] own(6) [OF that(1) _ that(3)] that(2,3) assms(6) by blast
  qed
qed

lemma server_ok_start:
  assumes "\<And>h. cmd_queue w h = []" "\<And>tx. client_queue w tx = []"
  shows "server_ok cmd_queue client_queue (server_start rooms wal_reader has_sql w)"
  using assms
  by (simp add: server_ok_def server_start_def members_ok_def reader_inv_start clients_ok_def inbox_def
      received_by_def)

text \<open>
  A turn that is not the actor's appends commands and sends errors; this is what has to be checked.
\<close>

lemma server_ok_inbox:
  assumes ok: "server_ok cmd_queue client_queue s"
    and "srv_rooms s' = srv_rooms s" "srv_acks s' = srv_acks s" "srv_history s' = srv_history s"
    and "app_rooms (srv_app s') = app_rooms (srv_app s)"
    and "set (srv_clients s) \<subseteq> set (srv_clients s')" "set (srv_responders s) \<subseteq> set (srv_responders s')"
    and "reader_inv (srv_reader s')" and "clients_ok (srv_clients s')"
    and pending: "cmd_queue (srv_world s') (handle_tx (app_rooms (srv_app s))) =
        cmd_queue (srv_world s) (handle_tx (app_rooms (srv_app s))) @ cs"
    and cs: "list_all (command_ok (srv_clients s') (srv_responders s')) cs"
    and fresh: "\<forall>c \<in> set cs. \<forall>r \<in> set (srv_responders s). ack_of c \<noteq> [r]"
    and sessions: "\<And>cid session waiting. srv_sessions s' cid = Some (session, waiting) \<Longrightarrow>
        srv_sessions s cid = Some (session, waiting) \<or>
        session_ok (srv_history s) (srv_history s @
          cmd_queue (srv_world s) (handle_tx (app_rooms (srv_app s))) @ cs)
          (srv_clients s') (srv_responders s') cid session waiting"
    and messages: "\<And>tx m. m \<in> set (inbox client_queue s' tx) \<Longrightarrow>
        m \<in> set (inbox client_queue s tx) \<or> message_ok (srv_history s) tx m"
  shows "server_ok cmd_queue client_queue s'"
proof -
  let ?commands = "srv_history s @ cmd_queue (srv_world s) (handle_tx (app_rooms (srv_app s)))"
  have commands': "srv_history s' @ cmd_queue (srv_world s') (handle_tx (app_rooms (srv_app s'))) =
      ?commands @ cs" using assms(4,5) pending by simp
  have "members_ok s'" using ok assms(2-4) by (simp add: server_ok_def members_ok_def)
  moreover have "list_all (command_ok (srv_clients s') (srv_responders s')) (?commands @ cs)"
    using ok cs command_ok_mono [OF _ assms(6,7)] by (auto simp: server_ok_def Let_def list_all_iff)
  moreover have "session_ok (srv_history s') (?commands @ cs) (srv_clients s') (srv_responders s')
      cid session waiting" if "srv_sessions s' cid = Some (session, waiting)" for cid session waiting
    using sessions [OF that]
  proof
    assume "srv_sessions s cid = Some (session, waiting)"
    then have "session_ok (srv_history s) ?commands (srv_clients s) (srv_responders s) cid session waiting"
      using ok by (simp add: server_ok_def Let_def)
    then show ?thesis
      by (rule session_ok_mono) (use assms(4,6,7) fresh in auto)
  qed (simp add: assms(4))
  moreover have "list_all (message_ok (srv_history s') tx) (inbox client_queue s' tx)" for tx
  proof -
    have "\<forall>m \<in> set (inbox client_queue s tx). message_ok (srv_history s) tx m"
      using ok by (simp add: server_ok_def Let_def list_all_iff)
    with messages show ?thesis by (auto simp: list_all_iff assms(4))
  qed
  ultimately show ?thesis
    unfolding server_ok_def Let_def commands' using assms(8,9) by blast
qed

text \<open>The same for a turn that takes nothing out of a client's channel.\<close>

lemma server_ok_grows:
  assumes ok: "server_ok cmd_queue client_queue s"
    and "srv_rooms s' = srv_rooms s" "srv_acks s' = srv_acks s" "srv_history s' = srv_history s"
    and "app_rooms (srv_app s') = app_rooms (srv_app s)" and received: "srv_received s' = srv_received s"
    and "set (srv_clients s) \<subseteq> set (srv_clients s')" "set (srv_responders s) \<subseteq> set (srv_responders s')"
    and "reader_inv (srv_reader s')" and "clients_ok (srv_clients s')"
    and pending: "cmd_queue (srv_world s') (handle_tx (app_rooms (srv_app s))) =
        cmd_queue (srv_world s) (handle_tx (app_rooms (srv_app s))) @ cs"
    and cs: "list_all (command_ok (srv_clients s') (srv_responders s')) cs"
    and fresh: "\<forall>c \<in> set cs. \<forall>r \<in> set (srv_responders s). ack_of c \<noteq> [r]"
    and sessions: "\<And>cid session waiting. srv_sessions s' cid = Some (session, waiting) \<Longrightarrow>
        srv_sessions s cid = Some (session, waiting) \<or>
        session_ok (srv_history s) (srv_history s @
          cmd_queue (srv_world s) (handle_tx (app_rooms (srv_app s))) @ cs)
          (srv_clients s') (srv_responders s') cid session waiting"
    and messages: "\<And>tx m. m \<in> set (client_queue (srv_world s') tx) \<Longrightarrow>
        m \<in> set (client_queue (srv_world s) tx) \<or> message_ok (srv_history s) tx m"
  shows "server_ok cmd_queue client_queue s'"
proof (rule server_ok_inbox [OF ok assms(2-5) assms(7-10) pending cs fresh sessions])
  fix tx m
  assume "m \<in> set (inbox client_queue s' tx)"
  then show "m \<in> set (inbox client_queue s tx) \<or> message_ok (srv_history s) tx m"
    using messages [of m tx] inbox_same [OF received, of tx] by (auto simp: inbox_def)
qed

section \<open>Connections\<close>

context session_channels
begin

lemma reply_queue:
  "m \<in> set (client_queue (snd (client_send tx msg w)) tx') \<Longrightarrow>
    m \<in> set (client_queue w tx') \<or> (m = msg \<and> tx' = tx)"
  by (auto simp: clients.send_queue split: if_splits)

lemma handle_text_other:
  assumes "handle_text cmd_send client_send from_json env str state session w = (state', session', w')"
    and "\<And>d. from_json str \<noteq> Inr (Join d)"
  shows "session' = session"
    and "m \<in> set (client_queue w' tx) \<Longrightarrow> m \<in> set (client_queue w tx) \<or> (\<exists>e. m = ErrorMessage e)"
proof -
  have "session' = session \<and> (m \<in> set (client_queue w' tx) \<longrightarrow>
      m \<in> set (client_queue w tx) \<or> (\<exists>e. m = ErrorMessage e))"
  proof (cases "from_json str")
    case (Inl e)
    with assms show ?thesis by (auto simp: handle_text_def dest!: reply_queue)
  next
    case (Inr msg)
    obtain res s1 session1 w1 where h:
      "handle_client_message cmd_send client_send env msg state session w = (res, s1, session1, w1)"
      by (metis prod_cases4)
    have nojoin: "msg \<noteq> Join d" for d using assms(2) Inr by auto
    have session: "session1 = session" using handle_session [OF h] nojoin by blast
    have queue: "client_queue w1 = client_queue w"
      using h nojoin
      by (cases msg; cases "session_current_room session") (auto simp: handle_eqs Let_def cmd_frame)
    show ?thesis
      using assms(1) Inr h session queue
      by (cases res) (auto simp: handle_text_def dest!: reply_queue)
  qed
  then show "session' = session"
    and "m \<in> set (client_queue w' tx) \<Longrightarrow> m \<in> set (client_queue w tx) \<or> (\<exists>e. m = ErrorMessage e)"
    by blast+
qed

lemma join_send_effect:
  assumes "join_send cmd_send r d state session w = (res, state', w')"
  shows "app_rooms state' = app_rooms state" "client_queue w' = client_queue w"
    and "\<exists>cs. commands_to state w' = commands_to state w @ cs \<and>
      set cs \<subseteq> {RoomJoin d (session_client_id session) (session_tx session) r} \<and>
      (res = Inr () \<longrightarrow> cs \<noteq> [])"
proof -
  let ?h = "handle_tx (app_rooms state)"
    and ?c = "RoomJoin d (session_client_id session) (session_tx session) r"
  obtain sent w1 where send: "cmd_send ?h ?c w = (sent, w1)" by (metis surj_pair)
  then have sent: "res = fst (answered sent state)" "state' = snd (answered sent state)" "w' = w1"
    using assms by (simp_all add: join_send_eq answer_send_def)
  show "app_rooms state' = app_rooms state" "client_queue w' = client_queue w"
    using sent cmd_frame [of ?h ?c w] send by simp_all
  have ok: "sent = SendOk \<longleftrightarrow> cmds.accepts w ?h"
    using send by (cases rule: cmds.send_cases [of w ?h ?c]) simp_all
  have "commands_to state w' = commands_to state w @ (if cmds.accepts w ?h then [?c] else [])"
    using cmds.send_queue [of ?h ?c w] send sent by simp
  moreover have "res = Inr () \<longrightarrow> sent = SendOk" using sent by (cases rule: answered_cases [of sent state]) auto
  ultimately show "\<exists>cs. commands_to state w' = commands_to state w @ cs \<and> set cs \<subseteq> {?c} \<and>
      (res = Inr () \<longrightarrow> cs \<noteq> [])"
    using ok by auto
qed

lemma leave_effect:
  assumes "leave_on_close cmd_send state session w = (state', w')"
  shows "app_rooms state' = app_rooms state" "client_queue w' = client_queue w"
    and "\<exists>cs. commands_to state w' = commands_to state w @ cs \<and>
      set cs \<subseteq> {RoomLeave d (session_client_id session) | d. True}"
proof -
  have "app_rooms state' = app_rooms state \<and> client_queue w' = client_queue w"
  proof (cases "session_current_room session")
    case None
    with assms show ?thesis by (simp add: leave_on_close_def)
  next
    case (Some d)
    let ?c = "RoomLeave d (session_client_id session)"
    show ?thesis
      using assms Some cmd_frame [of "handle_tx (app_rooms state)" ?c w]
      by (cases rule: cmds.send_cases [of w "handle_tx (app_rooms state)" ?c])
        (auto simp: leave_on_close_def leave_room_def)
  qed
  then show "app_rooms state' = app_rooms state" "client_queue w' = client_queue w" by blast+
  show "\<exists>cs. commands_to state w' = commands_to state w @ cs \<and>
      set cs \<subseteq> {RoomLeave d (session_client_id session) | d. True}"
    using leave_commands [of state session w] assms
    by (cases "session_current_room session") (auto split: if_splits)
qed

end

context server_channels
begin

abbreviation pending :: "('h, 'c, 'tx, 'r, 'w) server \<Rightarrow> ('tx, 'r) room_command list" where
  "pending s \<equiv> cmd_queue (srv_world s) (handle_tx (app_rooms (srv_app s)))"

abbreviation ok :: "('h, 'c, 'tx, 'r, 'w) server \<Rightarrow> bool" where
  "ok s \<equiv> server_ok cmd_queue client_queue s"

lemma ok_session:
  "ok s \<Longrightarrow> srv_sessions s cid = Some (session, waiting) \<Longrightarrow>
    session_ok (srv_history s) (srv_history s @ pending s) (srv_clients s) (srv_responders s)
      cid session waiting"
  by (simp add: server_ok_def Let_def)

lemma ok_reader: "ok s \<Longrightarrow> reader_inv (srv_reader s)"
  by (simp add: server_ok_def Let_def)

lemma ok_clients: "ok s \<Longrightarrow> clients_ok (srv_clients s)"
  by (simp add: server_ok_def Let_def)

lemma ok_commands:
  "ok s \<Longrightarrow> list_all (command_ok (srv_clients s) (srv_responders s)) (srv_history s @ pending s)"
  by (simp add: server_ok_def Let_def)

lemma accept_ok:
  assumes "ok s" "accept_turn cid tx s = Some s'"
  shows "ok s'"
proof (rule server_ok_grows [OF assms(1), where cs = "[]"])
  have s': "s' = s\<lparr>srv_sessions := (srv_sessions s)(cid \<mapsto> (new_session cid tx, None)),
      srv_clients := srv_clients s @ [(cid, tx)]\<rparr>"
    and fresh: "cid \<notin> fst ` set (srv_clients s)" "tx \<notin> snd ` set (srv_clients s)"
    using assms(2) by (auto simp: accept_turn_def split: if_splits)
  show "clients_ok (srv_clients s')" using ok_clients [OF assms(1)] fresh by (simp add: s' clients_ok_def)
  show "reader_inv (srv_reader s')" using s' ok_reader [OF assms(1)] by simp
  show "srv_sessions s c = Some (session, waiting) \<or>
      session_ok (srv_history s) (srv_history s @ pending s @ []) (srv_clients s') (srv_responders s')
        c session waiting" if "srv_sessions s' c = Some (session, waiting)" for c session waiting
    using that s' by (auto simp: session_ok_def new_session_def split: if_splits)
qed (use assms(2) in \<open>auto simp: accept_turn_def split: if_splits\<close>)

lemma frame_ok_join:
  assumes inv: "ok s" and turn: "frame_turn ops cid env str s = Some s'"
    and join: "op_from_json ops str = Inr (Join d)"
  shows "ok s'"
proof -
  let ?r = "call_responder env"
  obtain session where sess: "srv_sessions s cid = Some (session, None)" and new: "?r \<notin> set (srv_responders s)"
    using turn join by (auto simp: frame_turn_def split: option.splits if_splits)
  note own = ok_session [OF inv sess]
  obtain res app w where send: "join_send (op_cmd_send ops) ?r d (srv_app s) session (srv_world s) = (res, app, w)"
    by (metis prod_cases3)
  from join_send_effect [OF send] obtain cs where eff: "app_rooms app = app_rooms (srv_app s)"
    "client_queue w = client_queue (srv_world s)"
    "cmd_queue w (handle_tx (app_rooms (srv_app s))) = pending s @ cs"
    "set cs \<subseteq> {RoomJoin d cid (session_tx session) ?r}" "res = Inr () \<longrightarrow> cs \<noteq> []"
    using own by (auto simp: session_ok_def)
  have s': "srv_rooms s' = srv_rooms s" "srv_acks s' = srv_acks s" "srv_history s' = srv_history s"
    "srv_reader s' = srv_reader s" "srv_app s' = app" "srv_clients s' = srv_clients s"
    "srv_received s' = srv_received s"
    "srv_responders s' = srv_responders s @ [?r]"
    "srv_sessions s' = srv_sessions s \<or>
      res = Inr () \<and> srv_sessions s' = (srv_sessions s)(cid \<mapsto> (session, Some (?r, d)))"
    "srv_world s' = w \<or> (\<exists>e. srv_world s' = reply_error ops session e w)"
    using turn join sess send new by (cases res; auto simp: frame_turn_def)+
  have queues: "cmd_queue (srv_world s') h = cmd_queue w h" for h
    using s'(10) client_frame by (auto simp: reply_error_def)
  have cmds_ok: "list_all (command_ok (srv_clients s') (srv_responders s')) cs"
    using eff(4) own by (auto simp: s' list_all_iff session_ok_def)
  have old: "ack_of c \<noteq> [?r]" if "c \<in> set (srv_history s @ pending s)" for c
  proof -
    have "command_ok (srv_clients s) (srv_responders s) c"
      using ok_commands [OF inv] that by (simp add: list_all_iff)
    with new show ?thesis by (cases c) auto
  qed
  show ?thesis
  proof (rule server_ok_grows [OF inv, where cs = cs])
    show "cmd_queue (srv_world s') (handle_tx (app_rooms (srv_app s))) = pending s @ cs"
      using eff queues by simp
    show "list_all (command_ok (srv_clients s') (srv_responders s')) cs" by (rule cmds_ok)
    show "\<forall>c \<in> set cs. \<forall>r \<in> set (srv_responders s). ack_of c \<noteq> [r]" using eff(4) new by auto
    show "srv_sessions s c = Some (session', waiting) \<or>
        session_ok (srv_history s) (srv_history s @ pending s @ cs) (srv_clients s') (srv_responders s')
          c session' waiting" if "srv_sessions s' c = Some (session', waiting)" for c session' waiting
    proof (cases "srv_sessions s' c = srv_sessions s c")
      case True
      with that show ?thesis by simp
    next
      case False
      with s'(9) that have c: "c = cid" "session' = session" "waiting = Some (?r, d)" "res = Inr ()"
        by (auto split: if_splits)
      with eff(4,5) have "RoomJoin d cid (session_tx session) ?r \<in> set cs" by (cases cs) auto
      then show ?thesis
        using own old eff(4) unfolding c session_ok_def by (auto simp: s')
    qed
    show "m \<in> set (client_queue (srv_world s) tx) \<or> message_ok (srv_history s) tx m"
      if "m \<in> set (client_queue (srv_world s') tx)" for tx m
      using that s'(10) eff(2) by (auto simp: reply_error_def dest!: reply_queue)
  qed (use s' ok_reader [OF inv] ok_clients [OF inv] eff in auto)
qed

lemma frame_ok_other:
  assumes inv: "ok s" and turn: "frame_turn ops cid env str s = Some s'"
    and other: "\<And>d. op_from_json ops str \<noteq> Inr (Join d)"
  shows "ok s'"
proof -
  obtain session where sess: "srv_sessions s cid = Some (session, None)"
    using turn by (auto simp: frame_turn_def split: option.splits)
  note own = ok_session [OF inv sess]
  obtain app session' w where h: "handle_text (op_cmd_send ops) (op_client_send ops) (op_from_json ops) env str
      (srv_app s) session (srv_world s) = (app, session', w)" by (metis prod_cases3)
  have s': "s' = s\<lparr>srv_app := app, srv_world := w,
      srv_sessions := (srv_sessions s)(cid \<mapsto> (session', None)), srv_frames := srv_frames s @ [(cid, str)]\<rparr>"
    using turn sess h other
    by (auto simp: frame_turn_def split: sum.splits client_message.splits)
  from handle_text_commands [OF h] obtain cs where eff: "app_rooms app = app_rooms (srv_app s)"
    "cmd_queue w (handle_tx (app_rooms (srv_app s))) = pending s @ cs"
    "list_all (own_command cid (session_tx session) {}) cs"
    using own other by (auto simp: session_ok_def joined_docs_def)
  have same: "session' = session" by (rule handle_text_other(1) [OF h other])
  show ?thesis
  proof (rule server_ok_grows [OF inv, where cs = cs])
    have "command_ok (srv_clients s') (srv_responders s') c \<and> (\<forall>r. ack_of c \<noteq> [r])" if "c \<in> set cs" for c
    proof -
      have "own_command cid (session_tx session) {} c" using eff(3) that by (simp add: list_all_iff)
      moreover have "cid \<in> fst ` set (srv_clients s')" using session_ok_client [OF own] s' by simp
      ultimately show ?thesis by (cases c) auto
    qed
    then show "list_all (command_ok (srv_clients s') (srv_responders s')) cs"
      and "\<forall>c \<in> set cs. \<forall>r \<in> set (srv_responders s). ack_of c \<noteq> [r]"
      by (auto simp: list_all_iff)
    show "m \<in> set (client_queue (srv_world s) tx) \<or> message_ok (srv_history s) tx m"
      if "m \<in> set (client_queue (srv_world s') tx)" for tx m
      using that handle_text_other(2) [OF h other, of m tx] s' by auto
    show "srv_sessions s c = Some (session'', waiting) \<or>
        session_ok (srv_history s) (srv_history s @ pending s @ cs) (srv_clients s') (srv_responders s')
          c session'' waiting" if "srv_sessions s' c = Some (session'', waiting)" for c session'' waiting
      using that sess same by (auto simp: s' split: if_splits)
  qed (use s' ok_reader [OF inv] ok_clients [OF inv] eff in auto)
qed

lemma ok_acked:
  assumes "ok s" "srv_sessions s cid = Some (session, Some (r, d))" "r \<in> set (srv_acks s)"
  shows "RoomJoin d cid (session_tx session) r \<in> set (srv_history s)"
proof -
  have "srv_acks s = concat (map ack_of (srv_history s))"
    using assms(1) by (simp add: server_ok_def members_ok_def Let_def)
  then obtain c where c: "c \<in> set (srv_history s)" "r \<in> set (ack_of c)" using assms(3) by auto
  from c(2) have "ack_of c = [r]" by (cases c) auto
  then have "c = RoomJoin d cid (session_tx session) r"
    using ok_session [OF assms(1,2)] c(1) by (simp add: session_ok_def)
  with c(1) show ?thesis by simp
qed

lemma answer_ok:
  assumes inv: "ok s" and turn: "answer_turn ops cid answer s = Some s'"
  shows "ok s'"
proof -
  obtain session r d where sess: "srv_sessions s cid = Some (session, Some (r, d))"
    using turn by (auto simp: answer_turn_def split: option.splits)
  note own = ok_session [OF inv sess]
  then have cid: "session_client_id session = cid" by (simp add: session_ok_def)
  have eff: "srv_rooms s' = srv_rooms s \<and> srv_acks s' = srv_acks s \<and> srv_history s' = srv_history s
    \<and> srv_reader s' = srv_reader s \<and> srv_app s' = srv_app s \<and> srv_clients s' = srv_clients s
    \<and> srv_responders s' = srv_responders s \<and> srv_received s' = srv_received s
    \<and> cmd_queue (srv_world s') = cmd_queue (srv_world s)
    \<and> ((\<exists>e. srv_sessions s' = (srv_sessions s)(cid \<mapsto> (session, None))
          \<and> srv_world s' = snd (op_client_send ops (session_tx session) (ErrorMessage e) (srv_world s)))
      \<or> (srv_sessions s' = (srv_sessions s)(cid \<mapsto> (session\<lparr>session_current_room := Some d\<rparr>, None))
          \<and> srv_world s' = snd (op_client_send ops (session_tx session) (Joined cid d) (srv_world s))
          \<and> RoomJoin d cid (session_tx session) r \<in> set (srv_history s)))"
  proof (cases answer)
    case Acked
    obtain x w where "op_client_send ops (session_tx session) (Joined cid d) (srv_world s) = (x, w)"
      by (metis surj_pair)
    then show ?thesis
      using turn sess Acked ok_acked [OF inv sess] client_frame(1) [of "session_tx session" "Joined cid d" "srv_world s"]
      by (auto simp: answer_turn_def join_finish_def cid split: if_splits)
  qed (use turn sess client_frame in \<open>auto simp: answer_turn_def join_finish_def reply_error_def
      simp del: fmt_web_socket_error.simps\<close>)
  show ?thesis
  proof (rule server_ok_grows [OF inv, where cs = "[]"])
    show "srv_sessions s c = Some (session', waiting) \<or>
        session_ok (srv_history s) (srv_history s @ pending s @ []) (srv_clients s') (srv_responders s')
          c session' waiting" if "srv_sessions s' c = Some (session', waiting)" for c session' waiting
      using that eff session_ok_answered [OF own] by (auto split: if_splits)
    show "m \<in> set (client_queue (srv_world s) tx) \<or> message_ok (srv_history s) tx m"
      if "m \<in> set (client_queue (srv_world s') tx)" for tx m
      using that eff by (auto dest!: reply_queue)
  qed (use eff ok_reader [OF inv] ok_clients [OF inv] in auto)
qed

lemma close_ok:
  assumes inv: "ok s" and turn: "close_turn ops cid s = Some s'"
  shows "ok s'"
proof -
  obtain session waiting where sess: "srv_sessions s cid = Some (session, waiting)"
    using turn by (auto simp: close_turn_def split: option.splits)
  note own = ok_session [OF inv sess]
  obtain app w where leave: "leave_on_close (op_cmd_send ops) (srv_app s) session (srv_world s) = (app, w)"
    by (metis surj_pair)
  from leave_effect [OF leave] obtain cs where eff: "app_rooms app = app_rooms (srv_app s)"
    "client_queue w = client_queue (srv_world s)"
    "cmd_queue w (handle_tx (app_rooms (srv_app s))) = pending s @ cs"
    "set cs \<subseteq> {RoomLeave d cid | d. True}"
    using own by (auto simp: session_ok_def)
  have s': "s' = s\<lparr>srv_app := app, srv_world := w, srv_sessions := (srv_sessions s)(cid := None)\<rparr>"
    using turn sess leave by (simp add: close_turn_def)
  show ?thesis
  proof (rule server_ok_grows [OF inv, where cs = cs])
    have "command_ok (srv_clients s') (srv_responders s') c \<and> ack_of c = []" if c: "c \<in> set cs" for c
    proof -
      obtain d where "c = RoomLeave d cid" using eff(4) c by blast
      with session_ok_client [OF own] s' show ?thesis by simp
    qed
    then show "list_all (command_ok (srv_clients s') (srv_responders s')) cs"
      and "\<forall>c \<in> set cs. \<forall>r \<in> set (srv_responders s). ack_of c \<noteq> [r]"
      by (auto simp: list_all_iff)
  qed (use s' eff ok_reader [OF inv] ok_clients [OF inv] in \<open>auto split: if_splits\<close>)
qed

lemma client_ok: "ok s \<Longrightarrow> client_turn ops tx s = Some s' \<Longrightarrow> ok s'"
proof (rule server_ok_inbox [where s = s and cs = "[]"])
  assume inv: "ok s" and turn: "client_turn ops tx s = Some s'"
  obtain x w where recv: "op_client_recv ops tx (srv_world s) = (x, w)" by (metis surj_pair)
  have s': "s' = s\<lparr>srv_world := w, srv_received := srv_received s @ (case x of None \<Rightarrow> [] | Some m \<Rightarrow> [(tx, m)])\<rparr>"
    using turn recv by (simp add: client_turn_def)
  have eff: "cmd_queue w = cmd_queue (srv_world s) \<and> inbox client_queue s' tx' = inbox client_queue s tx'" for tx'
    using recv client_recv_none [of tx "srv_world s" w] client_recv_some [of tx "srv_world s" _ w]
    by (cases x) (auto simp: inbox_def received_by_def s')
  show "cmd_queue (srv_world s') (handle_tx (app_rooms (srv_app s))) = pending s @ []"
    using s' eff by simp
  show "m \<in> set (inbox client_queue s tx') \<or> message_ok (srv_history s) tx' m"
    if "m \<in> set (inbox client_queue s' tx')" for tx' m
    using that eff by simp
qed (auto simp: client_turn_def ok_reader ok_clients split: prod.splits)

lemma drop_ok: "ok s \<Longrightarrow> drop_turn ops tx s = Some s' \<Longrightarrow> ok s'"
proof (rule server_ok_grows [where s = s and cs = "[]"])
  assume inv: "ok s" and turn: "drop_turn ops tx s = Some s'"
  have s': "s' = s\<lparr>srv_world := op_client_drop ops tx (srv_world s)\<rparr>"
    using turn by (simp add: drop_turn_def)
  show "cmd_queue (srv_world s') (handle_tx (app_rooms (srv_app s))) = pending s @ []"
    using s' client_dropped by simp
  show "m \<in> set (client_queue (srv_world s) tx') \<or> message_ok (srv_history s) tx' m"
    if "m \<in> set (client_queue (srv_world s') tx')" for tx' m
    using that s' client_dropped [of tx "srv_world s"] by (auto split: if_splits)
qed (auto simp: drop_turn_def ok_reader ok_clients)

end

section \<open>The rooms actor\<close>

context session_channels
begin

lemma outcomes_frame:
  "cmd_queue (snd (outcomes client_send m clients w)) = cmd_queue w"
  by (induction clients arbitrary: w) (simp_all add: fan.outcomes_Cons Let_def client_frame)

lemma outcomes_messages:
  "x \<in> set (client_queue (snd (outcomes client_send m clients w)) tx) \<Longrightarrow>
    x \<in> set (client_queue w tx) \<or> (x = m \<and> tx \<in> snd ` set clients)"
proof (induction clients arbitrary: w)
  case (Cons c clients)
  show ?case
    using Cons.IH [of "snd (client_send (snd c) m w)"] Cons.prems reply_queue [of x "snd c" m w tx]
    by (auto simp: fan.outcomes_Cons Let_def)
qed simp

lemma step_frame:
  "cmd_queue (co_world (coordinator_step client_send c st)) = cmd_queue (co_world st)"
proof (cases c)
  case (RoomBroadcast room m)
  obtain rs w' where "outcomes client_send m (clients_in st room) (co_world st) = (rs, w')"
    by (metis surj_pair)
  then show ?thesis
    using broadcast_effect(2) [of client_send m st room rs w']
      outcomes_frame [of m "clients_in st room" "co_world st"]
    by (simp only: RoomBroadcast) simp
qed (simp_all only: step_join_leave_world)

lemma step_messages:
  assumes "x \<in> set (client_queue (co_world (coordinator_step client_send c st)) tx)"
  shows "x \<in> set (client_queue (co_world st) tx) \<or>
    (\<exists>d cid. c = RoomBroadcast d x \<and> (cid, tx) \<in> set (clients_in st d))"
proof (cases c)
  case (RoomBroadcast room m)
  obtain rs w' where rs: "outcomes client_send m (clients_in st room) (co_world st) = (rs, w')"
    by (metis surj_pair)
  have "x \<in> set (client_queue w' tx)"
    using assms by (simp only: RoomBroadcast broadcast_effect(2) [OF rs])
  with outcomes_messages [of x m "clients_in st room" "co_world st" tx] show ?thesis
    using rs RoomBroadcast by force
qed (use assms in \<open>simp_all only: step_join_leave_world simp_thms\<close>)

end

context server_channels
begin

lemma rooms_ok_turn:
  assumes inv: "ok s" and turn: "rooms_turn ops s = Some s'"
  shows "ok s'"
proof -
  obtain c w where recv: "op_cmd_recv ops (handle_tx (app_rooms (srv_app s))) (srv_world s) = (Some c, w)"
    using turn by (auto simp: rooms_turn_def split: prod.splits option.splits)
  note got = cmd_recv_some [OF recv]
  let ?st = "\<lparr>co_rooms = srv_rooms s, co_acks = srv_acks s, co_metrics = app_metrics (srv_app s), co_world = w\<rparr>"
  let ?st' = "coordinator_step (op_client_send ops) c ?st"
  have s': "s' = set_metrics (co_metrics ?st') (s\<lparr>srv_rooms := co_rooms ?st', srv_acks := co_acks ?st',
      srv_world := co_world ?st', srv_history := srv_history s @ [c]\<rparr>)"
    using turn recv by (simp add: rooms_turn_def Let_def)
  have mem: "members_ok s" using inv by (simp add: server_ok_def Let_def)
  have pend: "pending s = c # pending s'"
    using got step_frame [of c ?st] by (simp add: s' set_metrics_def)
  then have commands: "srv_history s' @ pending s' = srv_history s @ pending s"
    by (simp add: s' set_metrics_def)
  have "members_ok s'"
    unfolding members_ok_def
  proof (intro conjI allI impI)
    have "rooms_ok ?st'"
      using mem by (intro rooms_ok_step) (simp add: rooms_ok_def members_ok_def)
    then show "fmlookup (srv_rooms s') room \<noteq> Some []" for room
      by (simp add: rooms_ok_def s' set_metrics_def)
    show "srv_acks s' = concat (map ack_of (srv_history s'))"
      using mem acks_step [of "op_client_send ops" c ?st] by (simp add: members_ok_def s' set_metrics_def)
    fix d cid tx
    assume "(cid, tx) \<in> set (entry_list (srv_rooms s') d)"
    then have "(cid, tx) \<in> set (clients_in ?st' d)" by (simp add: s' set_metrics_def)
    from member_step [OF this] show "\<exists>r. RoomJoin d cid tx r \<in> set (srv_history s')"
      using mem by (auto simp: members_ok_def s' set_metrics_def, blast)
  qed
  moreover have "session_ok (srv_history s') (srv_history s' @ pending s') (srv_clients s') (srv_responders s')
      cid session waiting" if "srv_sessions s' cid = Some (session, waiting)" for cid session waiting
  proof -
    have "session_ok (srv_history s) (srv_history s @ pending s) (srv_clients s) (srv_responders s) cid session waiting"
      using that ok_session [OF inv] by (simp add: s' set_metrics_def)
    then show ?thesis
      unfolding commands by (rule session_ok_mono) (auto simp: s' set_metrics_def)
  qed
  moreover have "message_ok (srv_history s') tx m" if m: "m \<in> set (inbox client_queue s' tx)" for tx m
  proof -
    have "m \<in> set (received_by s tx) \<or> m \<in> set (client_queue (co_world ?st') tx)"
      using m by (simp add: s' set_metrics_def inbox_def received_by_def)
    then consider "m \<in> set (inbox client_queue s tx)"
      | d cid where "c = RoomBroadcast d m" "(cid, tx) \<in> set (entry_list (srv_rooms s) d)"
      using got step_messages [of m c ?st tx] by (auto simp: inbox_def)
    then show ?thesis
    proof cases
      case 1
      then have "message_ok (srv_history s) tx m"
        using inv by (simp add: server_ok_def Let_def list_all_iff)
      then show ?thesis by (rule message_ok_mono) (auto simp: s' set_metrics_def)
    next
      case 2
      then obtain r where "RoomJoin d cid tx r \<in> set (srv_history s)" "c = RoomBroadcast d m"
        using mem unfolding members_ok_def by blast
      moreover from this ok_commands [OF inv] pend have "command_ok (srv_clients s) (srv_responders s) (RoomBroadcast d m)"
        by simp
      ultimately show ?thesis by (cases m) (auto simp: s' set_metrics_def new_message_def)
    qed
  qed
  moreover have "list_all (command_ok (srv_clients s') (srv_responders s')) (srv_history s' @ pending s')"
    using ok_commands [OF inv] unfolding commands by (simp add: s' set_metrics_def)
  moreover have "reader_inv (srv_reader s')" "clients_ok (srv_clients s')"
    using ok_reader [OF inv] ok_clients [OF inv] by (simp_all add: s' set_metrics_def)
  ultimately show ?thesis unfolding server_ok_def Let_def by (auto simp: list_all_iff)
qed

section \<open>The WAL reader\<close>

lemma sink_commands:
  assumes "deliveries (rooms_send_invalidation (op_cmd_send ops) sink) t routed w = (rs, w')"
  shows "client_queue w' = client_queue w \<and>
    (\<exists>es. set es \<subseteq> set routed \<and>
      cmd_queue w' (handle_tx (sink_rooms sink)) =
        cmd_queue w (handle_tx (sink_rooms sink)) @ broadcasts t es)"
  using assms
proof (induction routed arbitrary: w rs)
  case Nil
  then show ?case by (auto simp: broadcasts_def intro!: exI [of _ "[]"])
next
  case (Cons x routed)
  obtain d hs where x: "x = (d, hs)" by (cases x)
  let ?h = "handle_tx (sink_rooms sink)"
  let ?c = "RoomBroadcast d (Invalidation (map to_key hs) t)"
  let ?w = "snd (op_cmd_send ops ?h ?c w)"
  have send: "snd (rooms_send_invalidation (op_cmd_send ops) sink d hs t w) = ?w"
    by (cases "op_cmd_send ops ?h ?c w")
      (simp add: rooms_send_invalidation_def broadcast_to_room_def room_result_cases)
  obtain rs' where rest: "deliveries (rooms_send_invalidation (op_cmd_send ops) sink) t routed ?w = (rs', w')"
    using Cons.prems send by (auto simp: x split: prod.splits)
  from Cons.IH [OF rest] obtain es where es: "client_queue w' = client_queue ?w" "set es \<subseteq> set routed"
    "cmd_queue w' ?h = cmd_queue ?w ?h @ broadcasts t es" by blast
  show ?case
  proof (intro conjI exI [of _ "if cmds.accepts w ?h then x # es else es"])
    show "client_queue w' = client_queue w" using es(1) cmd_frame by simp
    show "cmd_queue w' ?h = cmd_queue w ?h @ broadcasts t (if cmds.accepts w ?h then x # es else es)"
      using es(3) by (simp add: cmds.send_queue x broadcasts_def)
  qed (use es(2) in auto)
qed

text \<open>A turn of the reader appends invalidations to the command channel.\<close>

lemma reader_commands:
  assumes orders: "input_orders_ok i" and turn: "reader_turn ops i s = Some s'"
  obtains cs f rd where "s' = set_metrics (wal_metrics rd) (s\<lparr>srv_reader := rd, srv_flow := f, srv_world := wal_world rd\<rparr>)"
    "reader_inv (srv_reader s) \<Longrightarrow> reader_inv rd" "client_queue (wal_world rd) = client_queue (srv_world s)"
    "cmd_queue (wal_world rd) (handle_tx (app_rooms (srv_app s))) = pending s @ cs"
    "\<forall>c \<in> set cs. \<exists>d ks t. c = RoomBroadcast d (Invalidation ks t) \<and> invalidation_ok (d, ks, t)"
proof -
  let ?sink = "\<lparr>sink_rooms = app_rooms (srv_app s)\<rparr>"
  let ?send = "rooms_send_invalidation (op_cmd_send ops) ?sink"
  let ?rd = "(srv_reader s)\<lparr>wal_metrics := app_metrics (srv_app s), wal_world := srv_world s\<rparr>"
  obtain f rd where step: "reader_step ?send i ?rd = (f, rd)" by (metis surj_pair)
  have s': "s' = set_metrics (wal_metrics rd) (s\<lparr>srv_reader := rd, srv_flow := f, srv_world := wal_world rd\<rparr>)"
    using turn step by (auto simp: reader_turn_def split: if_splits)
  have inv: "reader_inv rd" if "reader_inv (srv_reader s)"
  proof -
    from that have "reader_inv ?rd" by (simp add: reader_inv_def)
    from reader_step_inv [OF this, of ?send i] show ?thesis by (simp only: step snd_conv)
  qed
  obtain cs where "client_queue (wal_world rd) = client_queue (srv_world s)"
    "cmd_queue (wal_world rd) (handle_tx (app_rooms (srv_app s))) = pending s @ cs"
    "\<forall>c \<in> set cs. \<exists>d ks t. c = RoomBroadcast d (Invalidation ks t) \<and> invalidation_ok (d, ks, t)"
  proof (cases rule: reader_step_cases [of i ?send ?rd])
    case (commit env end_lsn)
    let ?es = "commit_entries env (wal_transaction ?rd)"
    obtain rs w' where del: "deliveries ?send (ce_now env) ?es (srv_world s) = (rs, w')" by (metis surj_pair)
    have w': "wal_world rd = w'"
      using step commit del by (auto simp: handle_commit_deliveries)
    from sink_commands [OF del] obtain es where es: "client_queue w' = client_queue (srv_world s)"
      "set es \<subseteq> set ?es" "cmd_queue w' (handle_tx (app_rooms (srv_app s))) = pending s @ broadcasts (ce_now env) es"
      by auto
    have "orders_ok env" using orders commit by simp
    then have "invalidation_ok (d, map to_key hs, ce_now env)" if "(d, hs) \<in> set es" for d hs
      using that es(2) commit_entries_ok by blast
    then have "\<forall>c \<in> set (broadcasts (ce_now env) es).
        \<exists>d ks t. c = RoomBroadcast d (Invalidation ks t) \<and> invalidation_ok (d, ks, t)"
      by (auto simp: broadcasts_def)
    with es w' show ?thesis by (intro that [of "broadcasts (ce_now env) es"]) simp_all
  next
    case stop
    then show ?thesis using step by (intro that [of "[]"]) auto
  next
    case other
    then show ?thesis using step by (intro that [of "[]"]) auto
  qed
  with s' inv show thesis by (rule that)
qed

lemma reader_turn_ok:
  assumes inv: "ok s" and "input_orders_ok i" "reader_turn ops i s = Some s'"
  shows "ok s'"
proof -
  from reader_commands [OF assms(2,3)] ok_reader [OF inv] obtain cs f rd where
    s': "s' = set_metrics (wal_metrics rd) (s\<lparr>srv_reader := rd, srv_flow := f, srv_world := wal_world rd\<rparr>)"
    and rd: "reader_inv rd" and eff: "client_queue (wal_world rd) = client_queue (srv_world s)"
      "cmd_queue (wal_world rd) (handle_tx (app_rooms (srv_app s))) = pending s @ cs"
      "\<forall>c \<in> set cs. \<exists>d ks t. c = RoomBroadcast d (Invalidation ks t) \<and> invalidation_ok (d, ks, t)"
    by metis
  have "\<forall>c \<in> set cs. command_ok (srv_clients s) (srv_responders s) c \<and> ack_of c = []"
    using eff(3) by fastforce
  then show ?thesis
    by (intro server_ok_grows [OF inv, where cs = cs])
      (use s' eff rd ok_clients [OF inv] in \<open>auto simp: set_metrics_def list_all_iff\<close>)
qed

section \<open>Every reachable state\<close>

lemma sampler_ok: "ok s \<Longrightarrow> sampler_turn process s = Some s' \<Longrightarrow> ok s'"
  by (auto simp: sampler_turn_def set_metrics_def server_ok_def members_ok_def Let_def inbox_def received_by_def)

lemma server_step_ok: "ok s \<Longrightarrow> server_step ops s s' \<Longrightarrow> ok s'"
proof (erule server_stepE)
  fix cid env str
  assume inv: "ok s" and turn: "frame_turn ops cid env str s = Some s'"
  show "ok s'"
  proof (cases "\<exists>d. op_from_json ops str = Inr (Join d)")
    case True
    then show ?thesis using frame_ok_join [OF inv turn] by blast
  next
    case False
    then show ?thesis using frame_ok_other [OF inv turn] by blast
  qed
qed (auto intro: accept_ok answer_ok close_ok rooms_ok_turn reader_turn_ok client_ok drop_ok sampler_ok)

lemma reachable_ok: "reachable ops s0 s \<Longrightarrow> ok s0 \<Longrightarrow> ok s"
  by (induction rule: reachable.induct) (auto intro: server_step_ok)

end

end
