(* ===== verification/Server_Bounds.thy ===== *)
theory Server_Bounds
  imports Server_Safety
begin

text \<open>
  Backpressure in the running server: every queue stays within its channel's capacity in every
  reachable state, because all the tasks do with a channel is send, receive and drop. The contract
  of the whole server's channels is inhabited by the reference channels.
\<close>

section \<open>Worlds reached by sending\<close>

text \<open>Any sends on the command channel, and of the messages in \<open>M\<close> on the clients' channels.\<close>

inductive sends ::
    "('h, 'tx, 'r, 'w) cmd_send \<Rightarrow> ('tx, 'w) client_send \<Rightarrow> server_message set \<Rightarrow> 'w \<Rightarrow> 'w \<Rightarrow> bool"
  for cmd_send client_send M w0 where
    sends_none: "sends cmd_send client_send M w0 w0"
  | sends_command: "sends cmd_send client_send M w0 w \<Longrightarrow> sends cmd_send client_send M w0 (snd (cmd_send h c w))"
  | sends_message: "sends cmd_send client_send M w0 w \<Longrightarrow> m \<in> M \<Longrightarrow>
      sends cmd_send client_send M w0 (snd (client_send tx m w))"

lemmas sends_intros = sends_none sends_command sends_message

text \<open>The messages a connection is sent by itself, in answer to its frames.\<close>

fun is_reply :: "server_message \<Rightarrow> bool" where
  "is_reply (Joined cid d) \<longleftrightarrow> True"
| "is_reply (ErrorMessage e) \<longleftrightarrow> True"
| "is_reply (Message cid str t) \<longleftrightarrow> False"
| "is_reply (Invalidation ks t) \<longleftrightarrow> False"

abbreviation replies :: "server_message set" where
  "replies \<equiv> Collect is_reply"

lemma sends_commandD: "cmd_send h c w = (r, w') \<Longrightarrow> sends cmd_send client_send M w0 w \<Longrightarrow> sends cmd_send client_send M w0 w'"
  using sends_command [of cmd_send client_send M w0 w h c] by simp

lemma sends_messageD:
  "client_send tx m w = (r, w') \<Longrightarrow> m \<in> M \<Longrightarrow> sends cmd_send client_send M w0 w \<Longrightarrow> sends cmd_send client_send M w0 w'"
  using sends_message [of cmd_send client_send M w0 w m tx] by simp

lemma sends_handle:
  assumes "handle_client_message cmd_send client_send env msg state session w = (res, state', session', w')"
    and "sends cmd_send client_send replies w0 w"
  shows "sends cmd_send client_send replies w0 w'"
  using assms
  by (cases msg; cases "session_current_room session")
    (auto simp: handle_eqs Let_def split: if_splits intro!: sends_intros)

lemma sends_text:
  assumes "handle_text cmd_send client_send from_json env str state session w = (state', session', w')"
    and "sends cmd_send client_send replies w0 w"
  shows "sends cmd_send client_send replies w0 w'"
proof (cases "from_json str")
  case (Inl e)
  with assms show ?thesis by (auto simp: handle_text_def intro: sends_intros)
next
  case (Inr msg)
  obtain res s1 session1 w1 where h:
    "handle_client_message cmd_send client_send env msg state session w = (res, s1, session1, w1)"
    by (metis prod_cases4)
  from sends_handle [OF h assms(2)] assms(1) Inr h show ?thesis
    by (cases res) (auto simp: handle_text_def intro: sends_intros)
qed

lemma sends_leave:
  assumes "sends cmd_send client_send M w0 w"
  shows "sends cmd_send client_send M w0 (snd (leave_on_close cmd_send state session w))"
proof (cases "session_current_room session")
  case None
  with assms show ?thesis by (simp add: leave_on_close_def)
next
  case (Some d)
  let ?c = "RoomLeave d (session_client_id session)"
  obtain res w' where sent: "cmd_send (handle_tx (app_rooms state)) ?c w = (res, w')" by (metis surj_pair)
  then have "snd (leave_on_close cmd_send state session w) = w'"
    using Some by (cases res) (simp_all add: leave_on_close_def leave_room_def)
  with sends_command [OF assms, of "handle_tx (app_rooms state)" ?c] sent show ?thesis by simp
qed

lemma sends_outcomes:
  "m \<in> M \<Longrightarrow> sends cmd_send client_send M w0 w \<Longrightarrow>
    sends cmd_send client_send M w0 (snd (outcomes client_send m clients w))"
proof (induction clients arbitrary: w)
  case (Cons c clients)
  obtain cid tx where c: "c = (cid, tx)" by (cases c)
  obtain r w1 where sent: "client_send tx m w = (r, w1)" by (metis surj_pair)
  from Cons.IH [OF Cons.prems(1) sends_messageD [OF sent Cons.prems]] show ?case
    by (cases "outcomes client_send m clients w1") (simp add: c sent)
qed simp

text \<open>The actor sends what is broadcast, and nothing else.\<close>

fun broadcast_of :: "('tx, 'r) room_command \<Rightarrow> server_message set" where
  "broadcast_of (RoomBroadcast room m) = {m}"
| "broadcast_of _ = {}"

lemma sends_step:
  assumes "sends cmd_send client_send (broadcast_of c) w0 (co_world st)"
  shows "sends cmd_send client_send (broadcast_of c) w0 (co_world (coordinator_step client_send c st))"
proof (cases c)
  case (RoomBroadcast room m)
  obtain rs w' where rs: "outcomes client_send m (clients_in st room) (co_world st) = (rs, w')"
    by (metis surj_pair)
  show ?thesis
    using sends_outcomes [OF _ assms, of m "clients_in st room"]
    by (simp only: RoomBroadcast broadcast_effect(2) [OF rs] rs snd_conv broadcast_of.simps singletonI)
qed (use assms in \<open>simp_all only: step_join_leave_world\<close>)

lemma sends_deliveries:
  "sends cmd_send client_send M w0 w \<Longrightarrow>
    sends cmd_send client_send M w0 (snd (deliveries (rooms_send_invalidation cmd_send sink) t routed w))"
proof (induction routed arbitrary: w)
  case (Cons x routed)
  obtain d hs where x: "x = (d, hs)" by (cases x)
  let ?c = "RoomBroadcast d (Invalidation (map to_key hs) t)"
  obtain r w1 where sent: "cmd_send (handle_tx (sink_rooms sink)) ?c w = (r, w1)" by (metis surj_pair)
  then have "\<exists>r'. rooms_send_invalidation cmd_send sink d hs t w = (r', w1)"
    by (simp add: rooms_send_invalidation_def broadcast_to_room_def room_result_cases)
  with Cons.IH [OF sends_commandD [OF sent Cons.prems]] show ?case
    by (auto simp: x split: prod.split)
qed simp

lemma sends_reader:
  assumes "sends cmd_send client_send M w0 (wal_world s)"
  shows "sends cmd_send client_send M w0
    (wal_world (snd (reader_step (rooms_send_invalidation cmd_send sink) i s)))"
  by (cases rule: reader_step_cases [of i "rooms_send_invalidation cmd_send sink" s])
    (use assms in \<open>auto simp: handle_commit_deliveries intro: sends_deliveries\<close>)

section \<open>The world of a turn\<close>

context server_channels
begin

abbreviation sends_from :: "server_message set \<Rightarrow> 'w \<Rightarrow> 'w \<Rightarrow> bool" where
  "sends_from \<equiv> sends (op_cmd_send ops) (op_client_send ops)"

lemma frame_sends:
  assumes "frame_turn ops cid env str s = Some s'"
  shows "sends_from replies (srv_world s) (srv_world s')"
proof -
  obtain session where sess: "srv_sessions s cid = Some (session, None)"
    using assms by (auto simp: frame_turn_def split: option.splits)
  show ?thesis
  proof (cases "\<exists>d. op_from_json ops str = Inr (Join d)")
    case True
    then obtain d where d: "op_from_json ops str = Inr (Join d)" by blast
    obtain res app w where send: "join_send (op_cmd_send ops) (call_responder env) d (srv_app s) session
        (srv_world s) = (res, app, w)" by (metis prod_cases3)
    then have "w = snd (op_cmd_send ops (handle_tx (app_rooms (srv_app s)))
        (RoomJoin d (session_client_id session) (session_tx session) (call_responder env)) (srv_world s))"
      by (auto simp: join_send_eq answer_send_def)
    then have "sends_from replies (srv_world s) w" by (auto intro: sends_intros)
    with assms sess d send show ?thesis
      by (cases res) (auto simp: frame_turn_def reply_error_def split: if_splits intro!: sends_message)
  next
    case False
    obtain app session' w where h: "handle_text (op_cmd_send ops) (op_client_send ops) (op_from_json ops) env str
        (srv_app s) session (srv_world s) = (app, session', w)" by (metis prod_cases3)
    have "srv_world s' = w"
      using assms sess h False by (auto simp: frame_turn_def split: sum.splits client_message.splits)
    with sends_text [OF h sends_none] show ?thesis by simp
  qed
qed

lemma answer_sends:
  assumes "answer_turn ops cid answer s = Some s'"
  shows "sends_from replies (srv_world s) (srv_world s')"
proof -
  obtain session r d where sess: "srv_sessions s cid = Some (session, Some (r, d))"
    using assms by (auto simp: answer_turn_def split: option.splits)
  obtain x w where w: "op_client_send ops (session_tx session) (Joined (session_client_id session) d)
      (srv_world s) = (x, w)" by (metis surj_pair)
  have err: "sends_from replies (srv_world s) (snd (op_client_send ops (session_tx session) m (srv_world s)))"
    if "m \<in> replies" for m
    using sends_message [OF sends_none [of "op_cmd_send ops" "op_client_send ops" replies "srv_world s"] that,
        of "session_tx session"] by simp
  show ?thesis
  proof (cases answer)
    case Acked
    have "sends_from replies (srv_world s) w"
      using sends_message [OF sends_none [of "op_cmd_send ops" "op_client_send ops" replies "srv_world s"],
          of "Joined (session_client_id session) d" "session_tx session"] w by simp
    with Acked assms sess w show ?thesis
      by (auto simp: answer_turn_def join_finish_def split: if_splits)
  qed (use assms sess err in \<open>auto simp: answer_turn_def join_finish_def reply_error_def\<close>)
qed

lemma frame_history:
  "frame_turn ops cid env str s = Some s' \<Longrightarrow> srv_history s' = srv_history s \<and> srv_received s' = srv_received s \<and> srv_rooms s' = srv_rooms s"
  by (auto simp: frame_turn_def
      split: option.splits prod.splits sum.splits client_message.splits if_splits)

lemma answer_history:
  "answer_turn ops cid answer s = Some s' \<Longrightarrow> srv_history s' = srv_history s \<and> srv_received s' = srv_received s \<and> srv_rooms s' = srv_rooms s"
  by (auto simp: answer_turn_def split: option.splits prod.splits sum.splits if_splits)

text \<open>
  What a step does to the channels and the history: a task other than the actor sends commands and
  replies, the actor takes a command and sends what it broadcasts, a client takes a message, or its
  channel is dropped.
\<close>

lemma step_world_cases [consumes 1, case_names task actor reads gone]:
  assumes "server_step ops s s'"
  obtains "sends_from replies (srv_world s) (srv_world s')"
      "srv_history s' = srv_history s \<and> srv_received s' = srv_received s \<and> srv_rooms s' = srv_rooms s"
  | c w where "op_cmd_recv ops (handle_tx (app_rooms (srv_app s))) (srv_world s) = (Some c, w)"
      "sends_from (broadcast_of c) w (srv_world s')" "srv_history s' = srv_history s @ [c]"
      "srv_received s' = srv_received s" "rooms_turn ops s = Some s'"
  | tx m where "op_client_recv ops tx (srv_world s) = (m, srv_world s')" "srv_history s' = srv_history s"
      "srv_received s' = srv_received s @ (case m of None \<Rightarrow> [] | Some x \<Rightarrow> [(tx, x)])"
      "srv_rooms s' = srv_rooms s"
  | tx where "srv_world s' = op_client_drop ops tx (srv_world s)" "srv_history s' = srv_history s"
      "srv_received s' = srv_received s" "srv_rooms s' = srv_rooms s"
  using assms
proof (cases rule: server_step.cases)
  case (accepted_client cid tx)
  then show ?thesis using that(1) by (auto simp: accept_turn_def sends_none split: if_splits)
next
  case (received_frame cid env str)
  then show ?thesis using that(1) [OF frame_sends frame_history] by blast
next
  case (answered_join cid answer)
  then show ?thesis using that(1) [OF answer_sends answer_history] by blast
next
  case (closed_socket cid)
  then obtain session waiting where "srv_sessions s cid = Some (session, waiting)"
    by (auto simp: close_turn_def split: option.splits)
  with closed_socket have "srv_world s' = snd (leave_on_close (op_cmd_send ops) (srv_app s) session (srv_world s))"
    "srv_history s' = srv_history s \<and> srv_received s' = srv_received s \<and> srv_rooms s' = srv_rooms s"
    by (auto simp: close_turn_def split: prod.splits)
  then show ?thesis by (intro that(1)) (simp_all add: sends_leave sends_none)
next
  case rooms_actor
  then obtain c w where recv: "op_cmd_recv ops (handle_tx (app_rooms (srv_app s))) (srv_world s) = (Some c, w)"
    by (auto simp: rooms_turn_def split: prod.splits option.splits)
  let ?st = "\<lparr>co_rooms = srv_rooms s, co_acks = srv_acks s, co_metrics = app_metrics (srv_app s), co_world = w\<rparr>"
  have "srv_world s' = co_world (coordinator_step (op_client_send ops) c ?st)" "srv_history s' = srv_history s @ [c]"
    "srv_received s' = srv_received s"
    using rooms_actor recv by (auto simp: rooms_turn_def Let_def set_metrics_def)
  moreover have "sends_from (broadcast_of c) w (co_world (coordinator_step (op_client_send ops) c ?st))"
    by (rule sends_step) (simp add: sends_none)
  ultimately show ?thesis using that(2) recv rooms_actor by simp
next
  case (wal_reader_input i)
  let ?rd = "(srv_reader s)\<lparr>wal_metrics := app_metrics (srv_app s), wal_world := srv_world s\<rparr>"
  have "srv_world s' = wal_world (snd (reader_step (rooms_send_invalidation (op_cmd_send ops)
      \<lparr>sink_rooms = app_rooms (srv_app s)\<rparr>) i ?rd))" "srv_history s' = srv_history s \<and> srv_received s' = srv_received s \<and> srv_rooms s' = srv_rooms s"
    using wal_reader_input by (auto simp: reader_turn_def set_metrics_def split: if_splits prod.splits)
  moreover have "sends_from replies (srv_world s) (wal_world (snd (reader_step (rooms_send_invalidation (op_cmd_send ops)
      \<lparr>sink_rooms = app_rooms (srv_app s)\<rparr>) i ?rd)))"
    by (rule sends_reader) (simp add: sends_none)
  ultimately show ?thesis using that(1) by simp
next
  case (client_reads tx)
  obtain m w where "op_client_recv ops tx (srv_world s) = (m, w)" by (metis surj_pair)
  with client_reads that(3) show ?thesis by (auto simp: client_turn_def)
next
  case (client_gone tx)
  with that(4) show ?thesis by (auto simp: drop_turn_def)
next
  case (sampled_resources process)
  with that(1) show ?thesis by (auto simp: sampler_turn_def set_metrics_def sends_none)
qed

section \<open>Bounds\<close>

definition bounded :: "'w \<Rightarrow> bool" where
  "bounded w \<longleftrightarrow> (\<forall>h. length (cmd_queue w h) \<le> cmd_capacity h)
    \<and> (\<forall>tx. length (client_queue w tx) \<le> client_capacity tx)"

lemma sends_bounded:
  "sends_from M w w' \<Longrightarrow> bounded w \<Longrightarrow> bounded w'"
  by (induction rule: sends.induct)
    (auto simp: bounded_def cmd_frame client_frame cmds.send_bounded clients.send_bounded)

lemma cmd_recv_bounded:
  assumes "op_cmd_recv ops h w = (c, w')" "bounded w"
  shows "bounded w'"
proof (cases c)
  case None
  with assms cmd_recv_none show ?thesis by blast
next
  case (Some x)
  note got = cmd_recv_some [OF assms(1) [unfolded Some]]
  have "length (cmd_queue w' h') \<le> length (cmd_queue w h')" for h' using got by simp
  with assms(2) got show ?thesis by (auto simp: bounded_def intro: le_trans)
qed

lemma client_recv_bounded:
  assumes "op_client_recv ops tx w = (c, w')" "bounded w"
  shows "bounded w'"
proof (cases c)
  case None
  with assms client_recv_none show ?thesis by blast
next
  case (Some x)
  note got = client_recv_some [OF assms(1) [unfolded Some]]
  have "length (client_queue w' tx') \<le> length (client_queue w tx')" for tx' using got by simp
  with assms(2) got show ?thesis by (auto simp: bounded_def intro: le_trans)
qed

lemma step_bounded:
  assumes "server_step ops s s'" "bounded (srv_world s)"
  shows "bounded (srv_world s')"
  using assms(1)
proof (cases rule: step_world_cases)
  case task
  with assms(2) sends_bounded show ?thesis by blast
next
  case (actor c w)
  with assms(2) sends_bounded cmd_recv_bounded show ?thesis by blast
next
  case (reads tx m)
  with assms(2) client_recv_bounded show ?thesis by blast
next
  case (gone tx)
  with assms(2) client_dropped [of tx "srv_world s"] show ?thesis by (auto simp: bounded_def)
qed

lemma reachable_bounded: "reachable ops s0 s \<Longrightarrow> bounded (srv_world s0) \<Longrightarrow> bounded (srv_world s)"
  by (induction rule: reachable.induct) (auto intro: step_bounded)

end

section \<open>The reference channels of the server\<close>

definition chan_recv :: "'tx \<Rightarrow> ('tx, 'm) channels \<Rightarrow> 'm option \<times> ('tx, 'm) channels" where
  "chan_recv tx w =
    (case chan_queue w tx of
       [] \<Rightarrow> (None, w)
     | m # ms \<Rightarrow> (Some m, w\<lparr>chan_queue := (chan_queue w)(tx := ms)\<rparr>))"

definition chan_drop :: "'tx \<Rightarrow> ('tx, 'm) channels \<Rightarrow> ('tx, 'm) channels" where
  "chan_drop tx w = w\<lparr>chan_queue := (chan_queue w)(tx := []), chan_closed := (chan_closed w)(tx := True)\<rparr>"

type_synonym ('h, 'tx, 'r) ref_world =
  "('h, ('tx, 'r) room_command) channels \<times> ('tx, server_message) channels"

definition ref_ops ::
    "('h \<Rightarrow> nat) \<Rightarrow> ('tx \<Rightarrow> nat) \<Rightarrow> (string \<Rightarrow> string + client_message) \<Rightarrow>
      ('h, 'tx, 'r, ('h, 'tx, 'r) ref_world) channel_ops" where
  "ref_ops cap cap' from_json =
    \<lparr>op_cmd_send = on_fst (chan_try_send cap),
     op_cmd_recv = (\<lambda>h w. case chan_recv h (fst w) of (c, w') \<Rightarrow> (c, (w', snd w))),
     op_client_send = on_snd (chan_try_send cap'),
     op_client_recv = (\<lambda>tx w. case chan_recv tx (snd w) of (m, w') \<Rightarrow> (m, (fst w, w'))),
     op_client_drop = (\<lambda>tx w. (fst w, chan_drop tx (snd w))),
     op_from_json = from_json\<rparr>"

interpretation ref_server: server_channels "ref_ops cap cap' from_json"
  "\<lambda>w. chan_queue (fst w)" "\<lambda>w. chan_closed (fst w)" cap
  "\<lambda>w. chan_queue (snd w)" "\<lambda>w. chan_closed (snd w)" cap'
  for cap cap' from_json
  by unfold_locales
    (auto simp: ref_ops_def on_fst_def on_snd_def chan_try_send_def chan_recv_def chan_drop_def
      split: list.splits)

end
