(* ===== verification/Server_Delivery.thy ===== *)
theory Server_Delivery
  imports Server_Bounds
begin

text \<open>
  Progress of the running server: the rooms actor can always take the next command, so what was
  accepted is handled, in order; and a change committed while its client is a member of the room
  reaches that client's channel.
\<close>

fun rooms_turns ::
    "('h, 'tx, 'r, 'w) channel_ops \<Rightarrow> nat \<Rightarrow> ('h, 'c, 'tx, 'r, 'w) server \<Rightarrow> ('h, 'c, 'tx, 'r, 'w) server option" where
  "rooms_turns ops 0 s = Some s"
| "rooms_turns ops (Suc n) s = Option.bind (rooms_turn ops s) (rooms_turns ops n)"

lemma rooms_turns_reachable:
  "reachable ops s0 s \<Longrightarrow> rooms_turns ops n s = Some s' \<Longrightarrow> reachable ops s0 s'"
proof (induction n arbitrary: s)
  case (Suc n)
  from Suc.prems(2) obtain s1 where "rooms_turn ops s = Some s1" "rooms_turns ops n s1 = Some s'"
    by (auto simp: bind_eq_Some_conv)
  with Suc.IH [OF reach_step [OF Suc.prems(1) rooms_actor]] show ?case by blast
qed simp

context server_channels
begin

text \<open>One turn of the actor: it takes the first command and leaves the other queues alone.\<close>

lemma rooms_turn_effect:
  assumes "pending s = c # cs"
  obtains s' w where "rooms_turn ops s = Some s'"
    and "pending s' = cs" "srv_history s' = srv_history s @ [c]" "app_rooms (srv_app s') = app_rooms (srv_app s)"
    and "srv_sessions s' = srv_sessions s" "srv_reader s' = srv_reader s" "srv_clients s' = srv_clients s"
    and "client_closed (srv_world s') = client_closed (srv_world s)"
    and "client_queue w = client_queue (srv_world s)" "client_closed w = client_closed (srv_world s)"
    and "srv_rooms s' = co_rooms (coordinator_step (op_client_send ops) c
        \<lparr>co_rooms = srv_rooms s, co_acks = srv_acks s, co_metrics = app_metrics (srv_app s), co_world = w\<rparr>)"
    and "srv_world s' = co_world (coordinator_step (op_client_send ops) c
        \<lparr>co_rooms = srv_rooms s, co_acks = srv_acks s, co_metrics = app_metrics (srv_app s), co_world = w\<rparr>)"
proof -
  let ?h = "handle_tx (app_rooms (srv_app s))"
  obtain x w where recv: "op_cmd_recv ops ?h (srv_world s) = (x, w)" by (metis surj_pair)
  obtain c' where x: "x = Some c'" using cmd_recv_none [of ?h "srv_world s" w] recv assms by (cases x) auto
  note got = cmd_recv_some [OF recv [unfolded x]]
  have c': "c' = c" "cmd_queue w ?h = cs" using got assms by auto
  let ?st = "\<lparr>co_rooms = srv_rooms s, co_acks = srv_acks s, co_metrics = app_metrics (srv_app s), co_world = w\<rparr>"
  let ?st' = "coordinator_step (op_client_send ops) c ?st"
  let ?s' = "set_metrics (co_metrics ?st') (s\<lparr>srv_rooms := co_rooms ?st', srv_acks := co_acks ?st',
      srv_world := co_world ?st', srv_history := srv_history s @ [c]\<rparr>)"
  have closed: "client_closed (co_world ?st') = client_closed w" using fan.step_closed [of c ?st] by simp
  show thesis
    by (rule that [of ?s' w])
      (use recv x c' got step_frame [of c ?st] closed in \<open>simp_all add: rooms_turn_def Let_def set_metrics_def\<close>)
qed

text \<open>The pending commands are handled, all of them and in order.\<close>

lemma rooms_drain:
  "\<exists>s'. rooms_turns ops (length (pending s)) s = Some s' \<and> pending s' = []
    \<and> srv_history s' = srv_history s @ pending s \<and> srv_sessions s' = srv_sessions s
    \<and> srv_reader s' = srv_reader s \<and> srv_clients s' = srv_clients s"
proof (induction "pending s" arbitrary: s)
  case Nil
  then show ?case by (intro exI [of _ s]) simp
next
  case (Cons c cs)
  from rooms_turn_effect [OF Cons.hyps(2) [symmetric]] obtain s1 where
    s1: "rooms_turn ops s = Some s1" "pending s1 = cs" "srv_history s1 = srv_history s @ [c]"
      "app_rooms (srv_app s1) = app_rooms (srv_app s)" "srv_sessions s1 = srv_sessions s"
      "srv_reader s1 = srv_reader s" "srv_clients s1 = srv_clients s" by metis
  from Cons.hyps(1) [OF s1(2) [symmetric]] s1 show ?case
    unfolding Cons.hyps(2) [symmetric] by auto
qed

text \<open>The commands up to some point, and then the next.\<close>

lemma rooms_drain_to:
  "pending s = cs @ ds \<Longrightarrow> \<exists>s'. rooms_turns ops (length cs) s = Some s' \<and> pending s' = ds
    \<and> srv_sessions s' = srv_sessions s"
proof (induction cs arbitrary: s)
  case (Cons c cs)
  then have "pending s = c # (cs @ ds)" by simp
  from rooms_turn_effect [OF this] obtain s1 where
    s1: "rooms_turn ops s = Some s1" "pending s1 = cs @ ds" "srv_sessions s1 = srv_sessions s" by metis
  with Cons.IH [OF s1(2)] show ?case by auto
qed simp

lemma rooms_turns_last:
  "rooms_turns ops n s = Some s1 \<Longrightarrow> rooms_turn ops s1 = Some s2 \<Longrightarrow> rooms_turns ops (Suc n) s = Some s2"
  by (induction n arbitrary: s) (auto simp: bind_eq_Some_conv)

lemma leave_turn:
  assumes "pending s = [RoomLeave d cid]"
  obtains s' where "rooms_turn ops s = Some s'" "pending s' = []" "srv_sessions s' = srv_sessions s"
    and "cid \<notin> fst ` set (entry_list (srv_rooms s') d)"
proof -
  from rooms_turn_effect [OF assms] obtain s' w where turn: "rooms_turn ops s = Some s'" "pending s' = []"
    "srv_sessions s' = srv_sessions s"
    and rooms: "srv_rooms s' = co_rooms (coordinator_step (op_client_send ops) (RoomLeave d cid)
        \<lparr>co_rooms = srv_rooms s, co_acks = srv_acks s, co_metrics = app_metrics (srv_app s), co_world = w\<rparr>)"
    by metis
  show thesis
    by (rule that [OF turn]) (auto simp: rooms Let_def entry_list_def split: option.split)
qed

text \<open>A connection that ends leaves its room, once its leave was accepted and the actor has caught up.\<close>

lemma close_leaves:
  assumes "ok s" "srv_sessions s cid = Some (session, waiting)" "session_current_room session = Some d"
    and "cmds.accepts (srv_world s) (handle_tx (app_rooms (srv_app s)))"
  shows "\<exists>s1 s2. close_turn ops cid s = Some s1 \<and> rooms_turns ops (length (pending s1)) s1 = Some s2
    \<and> pending s2 = [] \<and> srv_sessions s2 cid = None \<and> cid \<notin> fst ` set (entry_list (srv_rooms s2) d)"
proof -
  have cid: "session_client_id session = cid"
    using ok_session [OF assms(1,2)] by (simp add: session_ok_def)
  obtain app w where leave: "leave_on_close (op_cmd_send ops) (srv_app s) session (srv_world s) = (app, w)"
    by (metis surj_pair)
  let ?s1 = "s\<lparr>srv_app := app, srv_world := w, srv_sessions := (srv_sessions s)(cid := None)\<rparr>"
  have turn: "close_turn ops cid s = Some ?s1" using assms(2) leave by (simp add: close_turn_def)
  have pend: "pending ?s1 = pending s @ [RoomLeave d cid]"
    using leave_commands [of "srv_app s" session "srv_world s"] leave leave_effect(1) [OF leave] assms(3,4) cid
    by simp
  from rooms_drain_to [OF pend] obtain s' where s': "rooms_turns ops (length (pending s)) ?s1 = Some s'"
    "pending s' = [RoomLeave d cid]" "srv_sessions s' = srv_sessions ?s1" by blast
  from leave_turn [OF s'(2)] obtain s2 where s2: "rooms_turn ops s' = Some s2" "pending s2 = []"
    "srv_sessions s2 = srv_sessions s'" "cid \<notin> fst ` set (entry_list (srv_rooms s2) d)" by metis
  have "rooms_turns ops (length (pending ?s1)) ?s1 = Some s2"
    unfolding pend using rooms_turns_last [OF s'(1) s2(1)] by simp
  moreover have "srv_sessions s2 cid = None" by (simp add: s2(3) s'(3))
  ultimately show ?thesis using turn s2(2,4) by blast
qed

text \<open>A connection that awaits the answer to its join gets it once its command was handled.\<close>

lemma join_completes:
  assumes "ok s" "srv_sessions s cid = Some (session, Some (r, d))"
  shows "\<exists>s1 s2. rooms_turns ops (length (pending s)) s = Some s1 \<and> pending s1 = []
    \<and> srv_history s1 = srv_history s @ pending s \<and> answer_turn ops cid Acked s1 = Some s2
    \<and> srv_sessions s2 cid = Some (session\<lparr>session_current_room := Some d\<rparr>, None)"
proof -
  from rooms_drain [of s] obtain s1 where s1: "rooms_turns ops (length (pending s)) s = Some s1"
    "pending s1 = []" "srv_history s1 = srv_history s @ pending s" "srv_sessions s1 = srv_sessions s" by blast
  have "ok s1" by (rule reachable_ok [OF rooms_turns_reachable [OF reach_start s1(1)] assms(1)])
  then have acks: "srv_acks s1 = concat (map ack_of (srv_history s @ pending s))"
    using s1(3) by (simp add: server_ok_def members_ok_def Let_def)
  have "RoomJoin d cid (session_tx session) r \<in> set (srv_history s @ pending s)"
    using ok_session [OF assms] by (simp add: session_ok_def)
  then have "r \<in> set (srv_acks s1)" unfolding acks by force
  then show ?thesis
    using s1 assms(2) by (auto simp: answer_turn_def join_finish_def Let_def split: prod.split)
qed

text \<open>A broadcast to another room than the channel's, and one to its room.\<close>

lemma broadcast_turn:
  assumes "pending s = RoomBroadcast room m # cs"
  obtains s' where "rooms_turn ops s = Some s'" "pending s' = cs"
    and "client_closed (srv_world s') = client_closed (srv_world s)"
    and "\<And>d. d \<noteq> room \<Longrightarrow> entry_list (srv_rooms s') d = entry_list (srv_rooms s) d"
    and "set (entry_list (srv_rooms s') room) \<subseteq> set (entry_list (srv_rooms s) room)"
    and "\<And>tx. tx \<notin> snd ` set (entry_list (srv_rooms s) room) \<Longrightarrow>
        client_queue (srv_world s') tx = client_queue (srv_world s) tx"
    and "\<And>tx. distinct (map snd (entry_list (srv_rooms s) room)) \<Longrightarrow>
        tx \<in> snd ` set (entry_list (srv_rooms s) room) \<Longrightarrow> clients.accepts (srv_world s) tx \<Longrightarrow>
        client_queue (srv_world s') tx = client_queue (srv_world s) tx @ [m]"
proof -
  from rooms_turn_effect [OF assms] obtain s' w where turn: "rooms_turn ops s = Some s'" "pending s' = cs"
    "client_closed (srv_world s') = client_closed (srv_world s)"
    and w: "client_queue w = client_queue (srv_world s)" "client_closed w = client_closed (srv_world s)"
    and st: "srv_rooms s' = co_rooms (coordinator_step (op_client_send ops) (RoomBroadcast room m)
        \<lparr>co_rooms = srv_rooms s, co_acks = srv_acks s, co_metrics = app_metrics (srv_app s), co_world = w\<rparr>)"
      "srv_world s' = co_world (coordinator_step (op_client_send ops) (RoomBroadcast room m)
        \<lparr>co_rooms = srv_rooms s, co_acks = srv_acks s, co_metrics = app_metrics (srv_app s), co_world = w\<rparr>)"
    by metis
  let ?st = "\<lparr>co_rooms = srv_rooms s, co_acks = srv_acks s, co_metrics = app_metrics (srv_app s), co_world = w\<rparr>"
  let ?cs = "entry_list (srv_rooms s) room"
  note lists = fan.broadcast_clients [of room m ?st]
  have world: "srv_world s' = snd (outcomes (op_client_send ops) m ?cs w)"
    using broadcast_effect(2) [of "op_client_send ops" m ?st room, OF surjective_pairing]
    by (simp only: st) simp
  have acc: "clients.accepts w tx = clients.accepts (srv_world s) tx" for tx
    using w by (simp add: clients.accepts_def)
  show thesis
  proof (rule that [OF turn])
    show "entry_list (srv_rooms s') d = entry_list (srv_rooms s) d" if "d \<noteq> room" for d
      using lists [of d] that by (simp only: st) simp
    show "set (entry_list (srv_rooms s') room) \<subseteq> set ?cs"
      using lists [of room] by (simp only: st) auto
    show "client_queue (srv_world s') tx = client_queue (srv_world s) tx" if "tx \<notin> snd ` set ?cs" for tx
      using fan.outcomes_other [OF that, of m w] by (simp add: world w)
    show "client_queue (srv_world s') tx = client_queue (srv_world s) tx @ [m]"
      if "distinct (map snd ?cs)" "tx \<in> snd ` set ?cs" "clients.accepts (srv_world s) tx" for tx
      using fan.outcomes_queue [OF that(1), of m w tx] that(2,3) acc by (simp add: world w)
  qed
qed

text \<open>Broadcasts to rooms the channel is not in leave its queue alone.\<close>

abbreviation commands_of :: "(document_id \<times> server_message) list \<Rightarrow> ('tx, 'r) room_command list" where
  "commands_of es \<equiv> map (\<lambda>(d, m). RoomBroadcast d m) es"

lemma drain_others:
  assumes "pending s = commands_of es" "\<forall>(d, m) \<in> set es. tx \<notin> snd ` set (entry_list (srv_rooms s) d)"
  shows "\<exists>s'. rooms_turns ops (length es) s = Some s' \<and> pending s' = []
    \<and> client_queue (srv_world s') tx = client_queue (srv_world s) tx"
  using assms
proof (induction es arbitrary: s)
  case Nil
  then show ?case by simp
next
  case (Cons e es)
  obtain room m where e: "e = (room, m)" by (cases e)
  with Cons.prems(1) have "pending s = RoomBroadcast room m # commands_of es" by simp
  from broadcast_turn [OF this] obtain s1 where s1: "rooms_turn ops s = Some s1" "pending s1 = commands_of es"
    "\<And>d. d \<noteq> room \<Longrightarrow> entry_list (srv_rooms s1) d = entry_list (srv_rooms s) d"
    "set (entry_list (srv_rooms s1) room) \<subseteq> set (entry_list (srv_rooms s) room)"
    "tx \<notin> snd ` set (entry_list (srv_rooms s) room) \<Longrightarrow>
        client_queue (srv_world s1) tx = client_queue (srv_world s) tx" by metis
  have "tx \<notin> snd ` set (entry_list (srv_rooms s1) d)" if "(d, m') \<in> set es" for d m'
    using Cons.prems(2) that s1(3,4) by (cases "d = room") (auto simp: e)
  with Cons.IH [OF s1(2)] obtain s' where "rooms_turns ops (length es) s1 = Some s'" "pending s' = []"
    "client_queue (srv_world s') tx = client_queue (srv_world s1) tx" by blast
  moreover have "client_queue (srv_world s1) tx = client_queue (srv_world s) tx"
    using s1(5) Cons.prems(2) by (simp add: e)
  ultimately show ?case using s1(1) by auto
qed

lemma drain_delivers:
  assumes "pending s = commands_of es" "distinct (map fst es)" "(d, m) \<in> set es"
    and "tx \<in> snd ` set (entry_list (srv_rooms s) d)" "distinct (map snd (entry_list (srv_rooms s) d))"
    and "\<forall>d'. d' \<noteq> d \<longrightarrow> tx \<notin> snd ` set (entry_list (srv_rooms s) d')"
    and "clients.accepts (srv_world s) tx"
  shows "\<exists>s'. rooms_turns ops (length es) s = Some s' \<and> pending s' = []
    \<and> client_queue (srv_world s') tx = client_queue (srv_world s) tx @ [m]"
  using assms
proof (induction es arbitrary: s)
  case Nil
  then show ?case by simp
next
  case (Cons e es)
  obtain room m' where e: "e = (room, m')" by (cases e)
  with Cons.prems(1) have "pending s = RoomBroadcast room m' # commands_of es" by simp
  from broadcast_turn [OF this] obtain s1 where s1: "rooms_turn ops s = Some s1" "pending s1 = commands_of es"
    and closed: "client_closed (srv_world s1) = client_closed (srv_world s)"
    and rooms: "\<And>d. d \<noteq> room \<Longrightarrow> entry_list (srv_rooms s1) d = entry_list (srv_rooms s) d"
      "set (entry_list (srv_rooms s1) room) \<subseteq> set (entry_list (srv_rooms s) room)"
    and other: "tx \<notin> snd ` set (entry_list (srv_rooms s) room) \<Longrightarrow>
        client_queue (srv_world s1) tx = client_queue (srv_world s) tx"
    and own: "distinct (map snd (entry_list (srv_rooms s) room)) \<Longrightarrow>
        tx \<in> snd ` set (entry_list (srv_rooms s) room) \<Longrightarrow> clients.accepts (srv_world s) tx \<Longrightarrow>
        client_queue (srv_world s1) tx = client_queue (srv_world s) tx @ [m']" by metis
  show ?case
  proof (cases "room = d")
    case True
    with Cons.prems(2,3) have m: "m' = m" and rest: "d \<notin> fst ` set es" by (auto simp: e image_iff)
    have "\<forall>(d', x) \<in> set es. tx \<notin> snd ` set (entry_list (srv_rooms s1) d')"
      using rest Cons.prems(6) rooms(1) True by (force simp: image_iff)
    from drain_others [OF s1(2) this] obtain s' where "rooms_turns ops (length es) s1 = Some s'" "pending s' = []"
      "client_queue (srv_world s') tx = client_queue (srv_world s1) tx" by blast
    with own Cons.prems(4,5,7) s1(1) True m show ?thesis by auto
  next
    case False
    have queue: "client_queue (srv_world s1) tx = client_queue (srv_world s) tx"
      using other Cons.prems(6) False by simp
    have away: "\<forall>d'. d' \<noteq> d \<longrightarrow> tx \<notin> snd ` set (entry_list (srv_rooms s1) d')"
      using Cons.prems(6) rooms by (metis image_mono subsetD)
    have "\<exists>s'. rooms_turns ops (length es) s1 = Some s' \<and> pending s' = []
        \<and> client_queue (srv_world s') tx = client_queue (srv_world s1) tx @ [m]"
      by (rule Cons.IH [OF s1(2) _ _ _ _ away])
        (use Cons.prems False rooms(1) queue closed in \<open>auto simp: e clients.accepts_def\<close>)
    with queue s1(1) show ?thesis by auto
  qed
qed

text \<open>A commit with space on the command channel: one broadcast per touched document is pending.\<close>

lemma sends_closed:
  "sends_from M w w' \<Longrightarrow> client_closed w' = client_closed w"
  by (induction rule: sends.induct) (simp_all add: cmd_frame clients.send_keeps_closed)

lemma broadcasts_commands:
  "broadcasts t entries = commands_of (map (\<lambda>(d, hs). (d, Invalidation (map to_key hs) t)) entries)"
  by (simp add: broadcasts_def case_prod_beta)

lemma commit_turn:
  assumes "srv_flow s = Continue"
    and "\<not> cmd_closed (srv_world s) (handle_tx (app_rooms (srv_app s)))"
    and "length (pending s) + length (commit_entries env (wal_transaction (srv_reader s)))
      \<le> cmd_capacity (handle_tx (app_rooms (srv_app s)))"
  obtains s1 where "reader_turn ops (ReplRecv env (Inr (Some (Commit lsn)))) s = Some s1"
    and "pending s1 = pending s @ broadcasts (ce_now env) (commit_entries env (wal_transaction (srv_reader s)))"
    and "srv_rooms s1 = srv_rooms s" "app_rooms (srv_app s1) = app_rooms (srv_app s)"
    and "client_queue (srv_world s1) = client_queue (srv_world s)"
    and "client_closed (srv_world s1) = client_closed (srv_world s)"
proof -
  let ?sink = "\<lparr>sink_rooms = app_rooms (srv_app s)\<rparr>"
  let ?send = "rooms_send_invalidation (op_cmd_send ops) ?sink"
  let ?rd = "(srv_reader s)\<lparr>wal_metrics := app_metrics (srv_app s), wal_world := srv_world s\<rparr>"
  let ?rd' = "handle_commit ?send env lsn ?rd"
  let ?s1 = "set_metrics (wal_metrics ?rd') (s\<lparr>srv_reader := ?rd', srv_flow := Continue, srv_world := wal_world ?rd'\<rparr>)"
  note cmds = command_channel.intro [OF cmds.mpsc_axioms]
  have queue: "cmd_queue (wal_world ?rd') (handle_tx (app_rooms (srv_app s))) =
      pending s @ broadcasts (ce_now env) (commit_entries env (wal_transaction (srv_reader s)))"
    using command_channel.transaction_delivered(1) [OF cmds, of ?rd ?sink env lsn] assms(2,3) by simp
  have world: "wal_world ?rd' = snd (deliveries ?send (ce_now env)
      (commit_entries env (wal_transaction (srv_reader s))) (srv_world s))"
    by (simp add: handle_commit_deliveries)
  have "sends_from {} (srv_world s) (wal_world ?rd')"
    unfolding world by (rule sends_deliveries [OF sends_none])
  note closed = sends_closed [OF this]
  have quiet: "client_queue (wal_world ?rd') = client_queue (srv_world s)"
    using sink_commands [OF surjective_pairing] unfolding world by blast
  show thesis
    by (rule that [of ?s1]) (use assms(1) queue closed quiet in \<open>simp_all add: reader_turn_def set_metrics_def\<close>)
qed

text \<open>From the commit to the member's channel.\<close>

lemma change_delivered:
  assumes "ok s" and "srv_flow s = Continue" and "wal_transaction (srv_reader s) = Some b"
    and "h |\<in>| tx_hints b" and "orders_ok env"
    and "\<not> cmd_closed (srv_world s) (handle_tx (app_rooms (srv_app s)))" "pending s = []"
    and "card (hint_value ` fset (tx_hints b)) \<le> cmd_capacity (handle_tx (app_rooms (srv_app s)))"
    and "tx \<in> snd ` set (entry_list (srv_rooms s) (hint_value h))"
    and "distinct (map snd (entry_list (srv_rooms s) (hint_value h)))"
    and "\<forall>d. d \<noteq> hint_value h \<longrightarrow> tx \<notin> snd ` set (entry_list (srv_rooms s) d)"
    and "clients.accepts (srv_world s) tx"
  shows "\<exists>s1 s' ks. reader_turn ops (ReplRecv env (Inr (Some (Commit lsn)))) s = Some s1
    \<and> rooms_turns ops (length (pending s1)) s1 = Some s' \<and> pending s' = []
    \<and> client_queue (srv_world s') tx = client_queue (srv_world s) tx @ [Invalidation ks (ce_now env)]
    \<and> distinct ks \<and> set ks = to_key ` {h'. h' |\<in>| tx_hints b \<and> hint_value h' = hint_value h}"
proof -
  let ?entries = "commit_entries env (Some b)" and ?d = "hint_value h"
  have routed: "route_key h' = Some (hint_value h')" if "h' \<in> fset (tx_hints b)" for h'
    using ok_reader [OF assms(1)] assms(3) that by (simp add: reader_inv_def buffer_ok_def)
  have exact: "exact_invalidations (fset (tx_hints b)) ?entries"
    by (rule commit_entries_exact [OF assms(5) refl routed])
  have "?d \<in> fst ` set ?entries" using exact assms(4) by (auto simp: exact_invalidations_def)
  then obtain hs where entry: "(?d, hs) \<in> set ?entries" by force
  then have hs: "set hs = {h'. h' |\<in>| tx_hints b \<and> hint_value h' = ?d}"
    using exact by (auto simp: exact_invalidations_def)
  have keys: "distinct (map to_key hs)"
    using commit_entries_ok [OF assms(5) entry, of "ce_now env"] by (simp add: invalidation_ok_def)
  have "length (pending s) + length (commit_entries env (wal_transaction (srv_reader s)))
      \<le> cmd_capacity (handle_tx (app_rooms (srv_app s)))"
    using assms(3,7,8) exact_invalidations_length [OF exact] by simp
  from commit_turn [OF assms(2,6) this, of lsn] obtain s1 where s1:
    "reader_turn ops (ReplRecv env (Inr (Some (Commit lsn)))) s = Some s1"
    "pending s1 = commands_of (map (\<lambda>(d, hs). (d, Invalidation (map to_key hs) (ce_now env))) ?entries)"
    "srv_rooms s1 = srv_rooms s" "app_rooms (srv_app s1) = app_rooms (srv_app s)"
    "client_queue (srv_world s1) = client_queue (srv_world s)"
    "client_closed (srv_world s1) = client_closed (srv_world s)"
    using assms(3,7) by (metis append_Nil broadcasts_commands)
  let ?es = "map (\<lambda>(d, hs). (d, Invalidation (map to_key hs) (ce_now env))) ?entries"
  have "distinct (map fst ?es)" using exact by (simp add: exact_invalidations_def case_prod_beta comp_def)
  moreover have "(?d, Invalidation (map to_key hs) (ce_now env)) \<in> set ?es" using entry by force
  ultimately have "\<exists>s'. rooms_turns ops (length ?es) s1 = Some s' \<and> pending s' = []
      \<and> client_queue (srv_world s') tx = client_queue (srv_world s1) tx @ [Invalidation (map to_key hs) (ce_now env)]"
    using assms(9-12) s1(3,5,6) by (intro drain_delivers [OF s1(2)]) (simp_all add: clients.accepts_def)
  then obtain s' where s': "rooms_turns ops (length (pending s1)) s1 = Some s'" "pending s' = []"
    "client_queue (srv_world s') tx = client_queue (srv_world s) tx @ [Invalidation (map to_key hs) (ce_now env)]"
    unfolding s1(5) by (auto simp: s1(2))
  have "set (map to_key hs) = to_key ` {h'. h' |\<in>| tx_hints b \<and> hint_value h' = ?d}" using hs by simp
  with s1(1) s' keys show ?thesis by blast
qed

end

end
