(* ===== verification/Server_Main.thy ===== *)
theory Server_Main
  imports Server_Delivery Wal_Start
begin

text \<open>
  \<^verbatim>\<open>src/lib.rs\<close>: how the server comes up, and that it comes up in a state from which the invariants of
  the running server hold. What the machine provides is a record of functions: the environment, the
  database and its client, tokio's channels, the replication client, and binding the port. What
  \<^verbatim>\<open>axum::serve\<close> does from then on, and the \<^verbatim>\<open>expect\<close> on its end, are axum's run of the tasks.
\<close>

section \<open>The start\<close>

record ('h, 'c, 'e, 'db, 'w) machine =
  mach_env :: "string \<Rightarrow> string option"
  mach_db :: 'db
  mach_tokio_connect :: "string \<Rightarrow> 'db \<Rightarrow> ('e + unit) \<times> 'db"
  mach_as_db_error :: "'e \<Rightarrow> db_error option"
  mach_execute :: "('e, 'db) execute"
  mach_query_opt :: "('e, 'db) query_opt"
  mach_query_one :: "('e, 'db) query_one"
  mach_cmd_channel :: "nat \<Rightarrow> 'w \<Rightarrow> 'h \<times> 'w"
  mach_reader_channel :: "nat \<Rightarrow> 'w \<Rightarrow> 'c \<times> 'w"
  mach_url_parse :: "string \<Rightarrow> 'e + parsed_url"
  mach_repl_connect :: "replication_config \<Rightarrow> 'e + unit"
  mach_sql_connect :: "string \<Rightarrow> 'e + unit"
  mach_bind :: "string \<Rightarrow> 'e + unit"

text \<open>The setup of the database, with the answers of this machine's database.\<close>

definition mach_setup :: "('h, 'c, 'e, 'db, 'w) machine \<Rightarrow> postgres_config \<Rightarrow> 'e setup_error + unit" where
  "mach_setup mach config =
    fst (setup_postgres (mach_tokio_connect mach) (mach_as_db_error mach) (mach_execute mach)
      (mach_query_opt mach) (mach_query_one mach) config (mach_db mach))"

text \<open>The table of routes; matching a request against it is axum's.\<close>

datatype route_target = WebsocketHandler | DebugMetricsHandler | StaticFiles string

definition router :: "(string \<times> route_target) list" where
  "router = [(''/ws'', WebsocketHandler), (''/debug/metrics'', DebugMetricsHandler),
    (''/'', StaticFiles ''static'')]"

text \<open>The task of the WAL reader as it is when its loop begins, or over when it gave up.\<close>

definition spawn_reader ::
    "'w wal_reader option \<Rightarrow> ('h, 'c, 'tx, 'r, 'w) server \<Rightarrow> ('h, 'c, 'tx, 'r, 'w) server" where
  "spawn_reader reader s =
    (case reader of None \<Rightarrow> s\<lparr>srv_flow := Break\<rparr> | Some rd \<Rightarrow> s\<lparr>srv_reader := rd, srv_flow := Continue\<rparr>)"

text \<open>The exit on a failed setup, the \<^verbatim>\<open>expect\<close> on the port, or the server with its routes.\<close>

datatype ('h, 'c, 'tx, 'r, 'w) server_outcome =
    ExitedWith nat
  | Panicked string
  | Serving "(string \<times> route_target) list" "('h, 'c, 'tx, 'r, 'w) server"

definition run_server :: "('h, 'c, 'e, 'db, 'w) machine \<Rightarrow> 'w \<Rightarrow> ('h, 'c, 'tx, 'r, 'w) server_outcome" where
  "run_server mach w =
    (let m = new_metrics;
         pg_config = from_env (mach_env mach)
     in case mach_setup mach pg_config of
          Inl err \<Rightarrow> ExitedWith 1
        | Inr _ \<Rightarrow>
           (let (rooms, w1) = rooms_handle_start (mach_cmd_channel mach) w;
                (wal_reader, w2) = wal_reader_handle_start (mach_reader_channel mach) w1;
                reader = reader_connect (mach_url_parse mach) (mach_repl_connect mach)
                  (mach_sql_connect mach) pg_config m w2;
                server = spawn_reader reader (server_start rooms wal_reader False w2)
            in case mach_bind mach ''0.0.0.0:3030'' of
                 Inl err \<Rightarrow> Panicked ''Failed to bind to 0.0.0.0:3030''
               | Inr _ \<Rightarrow> Serving router server))"

section \<open>From the start to every reachable state\<close>

text \<open>\<^verbatim>\<open>mpsc::channel(n)\<close>: an empty channel of capacity \<open>n\<close>, and nothing else changes.\<close>

locale start_channels = server_channels ops cmd_queue cmd_closed cmd_capacity
    client_queue client_closed client_capacity
  for ops :: "('h, 'tx, 'r, 'w) channel_ops"
    and cmd_queue cmd_closed cmd_capacity client_queue client_closed client_capacity +
  fixes new_cmd_channel :: "nat \<Rightarrow> 'w \<Rightarrow> 'h \<times> 'w"
    and new_reader_channel :: "nat \<Rightarrow> 'w \<Rightarrow> 'c \<times> 'w"
  assumes new_cmd: "new_cmd_channel n w = (h, w') \<Longrightarrow>
      cmd_capacity h = n \<and> \<not> cmd_closed w' h \<and> cmd_queue w' = (cmd_queue w)(h := []) \<and> client_queue w' = client_queue w"
    and new_reader: "new_reader_channel n w = (c, w') \<Longrightarrow>
      cmd_queue w' = cmd_queue w \<and> cmd_closed w' = cmd_closed w \<and> client_queue w' = client_queue w"
begin

lemma served:
  assumes "mach_cmd_channel mach = new_cmd_channel" "mach_reader_channel mach = new_reader_channel"
    and empty: "\<And>h. cmd_queue w h = []" "\<And>tx. client_queue w tx = []"
    and run: "run_server mach w = Serving routes s"
  obtains "routes = router" "ok s" "bounded (srv_world s)"
    "cmd_capacity (handle_tx (app_rooms (srv_app s))) = rooms_channel_capacity"
    "\<not> cmd_closed (srv_world s) (handle_tx (app_rooms (srv_app s)))"
    "srv_flow s = Continue \<longleftrightarrow> reader_connect (mach_url_parse mach) (mach_repl_connect mach)
      (mach_sql_connect mach) (from_env (mach_env mach)) new_metrics (srv_world s) \<noteq> None"
proof -
  obtain h w1 where h: "new_cmd_channel rooms_channel_capacity w = (h, w1)" by (metis surj_pair)
  obtain c w2 where c: "new_reader_channel wal_reader_channel_capacity w1 = (c, w2)" by (metis surj_pair)
  let ?reader = "reader_connect (mach_url_parse mach) (mach_repl_connect mach) (mach_sql_connect mach)
      (from_env (mach_env mach)) new_metrics w2"
  let ?s = "server_start \<lparr>handle_tx = h\<rparr> \<lparr>reader_tx = c\<rparr> False w2"
  have s: "routes = router" "s = spawn_reader ?reader ?s"
    using run assms(1,2) h c
    by (auto simp: run_server_def rooms_handle_start_def wal_reader_handle_start_def Let_def split: sum.splits)
  have world: "srv_world s = w2" "app_rooms (srv_app s) = \<lparr>handle_tx = h\<rparr>"
    by (auto simp: s(2) spawn_reader_def server_start_def new_app_state_def split: option.split)
  have queues: "cmd_queue w2 h' = []" "client_queue w2 tx = []" for h' tx
    using new_cmd [OF h] new_reader [OF c] empty by simp_all
  have "ok ?s" by (rule server_ok_start) (rule queues)+
  moreover have "reader_inv rd" if "?reader = Some rd" for rd
    using reader_connect_start [OF that] by (auto simp: reader_inv_start)
  ultimately have "ok s"
    by (auto simp: s(2) spawn_reader_def server_ok_def members_ok_def Let_def inbox_def received_by_def
        split: option.split)
  moreover have "bounded (srv_world s)" by (simp add: bounded_def world queues)
  moreover have "srv_flow s = Continue \<longleftrightarrow> ?reader \<noteq> None"
    by (auto simp: s(2) spawn_reader_def split: option.split)
  ultimately show thesis
    using that s(1) new_cmd [OF h] new_reader [OF c] by (simp add: world)
qed

end

text \<open>The reference channels name a command channel by its capacity.\<close>

definition ref_channel :: "nat \<Rightarrow> (nat, 'tx, 'r) ref_world \<Rightarrow> nat \<times> (nat, 'tx, 'r) ref_world" where
  "ref_channel n w =
    (n, ((fst w)\<lparr>chan_queue := (chan_queue (fst w))(n := []), chan_closed := (chan_closed (fst w))(n := False)\<rparr>,
      snd w))"

interpretation ref_start: start_channels "ref_ops (\<lambda>n. n) cap' from_json"
  "\<lambda>w. chan_queue (fst w)" "\<lambda>w. chan_closed (fst w)" "\<lambda>n. n"
  "\<lambda>w. chan_queue (snd w)" "\<lambda>w. chan_closed (snd w)" cap' ref_channel "\<lambda>n w. (c, w)"
  for cap' from_json c
  by unfold_locales (auto simp: ref_channel_def)

end
