(* ===== verification/Server_Order.thy ===== *)
theory Server_Order
  imports Server_Delivery "HOL-Library.Sublist"
begin

text \<open>
  Order in the running server: what a client received and what waits for it was broadcast, in the
  order in which the actor handled the broadcasts, to rooms this client had joined before, and no
  broadcast more often than the client had joined the room.
\<close>

section \<open>Positions in the history\<close>

fun joins_room :: "'tx \<Rightarrow> document_id \<Rightarrow> ('tx, 'r) room_command \<Rightarrow> bool" where
  "joins_room tx d (RoomJoin room cid tx' r) \<longleftrightarrow> tx' = tx \<and> room = d"
| "joins_room tx d (RoomLeave room cid) \<longleftrightarrow> False"
| "joins_room tx d (RoomBroadcast room m) \<longleftrightarrow> False"

definition joins_of :: "'tx \<Rightarrow> document_id \<Rightarrow> ('tx, 'r) room_command list \<Rightarrow> nat" where
  "joins_of tx d cs = length (filter (joins_room tx d) cs)"

lemma joins_of_append [simp]: "joins_of tx d (cs @ cs') = joins_of tx d cs + joins_of tx d cs'"
  by (simp add: joins_of_def)

lemma joins_of_single: "joins_of tx d [c] = of_bool (joins_room tx d c)"
  by (simp add: joins_of_def)

text \<open>The command at position \<open>i\<close> broadcast \<open>m\<close>.\<close>

definition sent_at :: "('tx, 'r) room_command list \<Rightarrow> nat \<Rightarrow> server_message \<Rightarrow> bool" where
  "sent_at history i m \<longleftrightarrow> i < length history \<and> (\<exists>d. history ! i = RoomBroadcast d m)"

text \<open>How often a position may occur: as often as its room had been joined by then.\<close>

definition at_most_joined :: "('tx, 'r) room_command list \<Rightarrow> 'tx \<Rightarrow> nat list \<Rightarrow> bool" where
  "at_most_joined history tx positions \<longleftrightarrow>
    (\<forall>i < length history. \<forall>d m. history ! i = RoomBroadcast d m \<longrightarrow>
      count_list positions i \<le> joins_of tx d (take i history))"

definition in_order :: "('tx, 'r) room_command list \<Rightarrow> 'tx \<Rightarrow> server_message list \<Rightarrow> bool" where
  "in_order history tx ms \<longleftrightarrow>
    (\<exists>ps. sorted ps \<and> list_all2 (sent_at history) ps ms \<and> at_most_joined history tx ps)"

lemma in_order_Nil [simp]: "in_order history tx []"
  by (auto simp: in_order_def at_most_joined_def intro!: exI [of _ "[]"])

lemma in_order_prefix:
  assumes "in_order history tx (ms @ ms')"
  shows "in_order history tx ms"
proof -
  from assms obtain ps ps' where "sorted (ps @ ps')" "list_all2 (sent_at history) ps ms"
    "at_most_joined history tx (ps @ ps')"
    by (auto simp: in_order_def list_all2_append2)
  moreover have "count_list ps i \<le> count_list (ps @ ps') i" for i by simp
  ultimately show ?thesis
    unfolding in_order_def at_most_joined_def sorted_append by (meson le_trans)
qed

lemma sent_below: "list_all2 (sent_at history) ps ms \<Longrightarrow> p \<in> set ps \<Longrightarrow> p < length history"
  by (metis in_set_conv_nth list_all2_nthD sent_at_def)

lemma in_order_broadcast:
  assumes "in_order history tx ms" "k \<le> joins_of tx d history"
  shows "in_order (history @ [RoomBroadcast d m]) tx (ms @ replicate k m)"
proof -
  let ?h = "history @ [RoomBroadcast d m]" and ?n = "length history"
  from assms(1) obtain ps where ps: "sorted ps" "list_all2 (sent_at history) ps ms" "at_most_joined history tx ps"
    by (auto simp: in_order_def)
  note below = sent_below [OF ps(2)]
  have "sorted (ps @ replicate k ?n)"
    using ps(1) below by (auto simp: sorted_append intro: less_imp_le)
  moreover have "list_all2 (sent_at ?h) ps ms"
    using ps(2) by (rule list_all2_mono) (auto simp: sent_at_def nth_append)
  then have "list_all2 (sent_at ?h) (ps @ replicate k ?n) (ms @ replicate k m)"
    by (rule list_all2_appendI) (simp add: list_all2_conv_all_nth sent_at_def)
  moreover have "at_most_joined ?h tx (ps @ replicate k ?n)"
    unfolding at_most_joined_def
  proof (intro allI impI)
    fix i d' m'
    assume i: "i < length ?h" "?h ! i = RoomBroadcast d' m'"
    show "count_list (ps @ replicate k ?n) i \<le> joins_of tx d' (take i ?h)"
    proof (cases "i = ?n")
      case True
      moreover have "count_list ps ?n = 0" using below by (auto simp: count_list_0_iff)
      moreover have "count_list (replicate k ?n) ?n = k" by (induction k) simp_all
      ultimately show ?thesis using i assms(2) by simp
    next
      case False
      then have "count_list (replicate k ?n) i = 0" by (auto simp: count_list_0_iff)
      with False i ps(3) show ?thesis by (auto simp: at_most_joined_def nth_append)
    qed
  qed
  ultimately show ?thesis unfolding in_order_def by blast
qed

text \<open>Other commands only lengthen the history.\<close>

lemma in_order_grows:
  assumes "in_order history tx ms"
  shows "in_order (history @ [c]) tx ms"
proof -
  from assms obtain ps where ps: "sorted ps" "list_all2 (sent_at history) ps ms" "at_most_joined history tx ps"
    by (auto simp: in_order_def)
  have "list_all2 (sent_at (history @ [c])) ps ms"
    using ps(2) by (rule list_all2_mono) (auto simp: sent_at_def nth_append)
  moreover have "count_list ps (length history) = 0"
    using sent_below [OF ps(2)] by (auto simp: count_list_0_iff)
  with ps(3) have "at_most_joined (history @ [c]) tx ps"
    by (auto simp: at_most_joined_def nth_append less_Suc_eq)
  ultimately show ?thesis using ps(1) unfolding in_order_def by blast
qed

section \<open>Clients that joined once\<close>

definition broadcasts_to :: "document_id \<Rightarrow> ('tx, 'r) room_command list \<Rightarrow> server_message list" where
  "broadcasts_to d history =
    List.map_filter (\<lambda>c. case c of RoomBroadcast room m \<Rightarrow> if room = d then Some m else None | _ \<Rightarrow> None) history"

text \<open>Values picked at strictly increasing positions are a subsequence.\<close>

lemma subseq_positions:
  "sorted_wrt (<) ps \<Longrightarrow> list_all2 (\<lambda>i m. i < length xs \<and> f (xs ! i) = Some m) ps ms \<Longrightarrow>
    subseq ms (List.map_filter f xs)"
proof (induction xs arbitrary: ps ms)
  case Nil
  then show ?case by (cases ps) (auto simp: list_all2_Cons1)
next
  case (Cons x xs)
  have later: "subseq ms' (List.map_filter f xs)"
    if "sorted_wrt (<) qs" "list_all2 (\<lambda>i m. i < length (x # xs) \<and> f ((x # xs) ! i) = Some m) qs ms'"
      "0 \<notin> set qs" for qs ms'
  proof (rule Cons.IH)
    show "sorted_wrt (<) (map (\<lambda>i. i - 1) qs)"
      unfolding sorted_wrt_map using that(1)
      by (rule sorted_wrt_mono_rel [rotated]) (use that(3) in \<open>metis diff_less_mono less_one linorder_le_less_linear\<close>)
    show "list_all2 (\<lambda>i m. i < length xs \<and> f (xs ! i) = Some m) (map (\<lambda>i. i - 1) qs) ms'"
      unfolding list_all2_map1 using that(2)
      by (rule list.rel_mono_strong) (use that(3) in \<open>auto simp: nth_Cons' split: if_splits\<close>)
  qed
  show ?case
  proof (cases "0 \<in> set ps")
    case True
    with Cons.prems obtain qs m ms' where ps: "ps = 0 # qs" "ms = m # ms'"
      by (cases ps) (auto simp: list_all2_Cons1)
    have "subseq ms' (List.map_filter f xs)" using Cons.prems by (intro later [of qs]) (auto simp: ps)
    with Cons.prems ps show ?thesis by (simp add: map_filter_simps)
  next
    case False
    with later Cons.prems have "subseq ms (List.map_filter f xs)" by blast
    then show ?thesis by (cases "f x") (simp_all add: map_filter_simps list_emb_Cons)
  qed
qed

lemma in_order_once:
  assumes "in_order history tx ms" "\<And>room. joins_of tx room history \<le> of_bool (room = d)"
  shows "subseq ms (broadcasts_to d history)"
proof -
  let ?f = "\<lambda>c. case c of RoomBroadcast room m \<Rightarrow> if room = d then Some m else None | _ \<Rightarrow> None"
  from assms(1) obtain ps where ps: "sorted ps" "list_all2 (sent_at history) ps ms" "at_most_joined history tx ps"
    by (auto simp: in_order_def)
  have joined: "count_list ps i \<le> of_bool (room = d)" if "i < length history" "history ! i = RoomBroadcast room m"
    for i room m
  proof -
    have "joins_of tx room history = joins_of tx room (take i history) + joins_of tx room (drop i history)"
      by (metis append_take_drop_id joins_of_append)
    with ps(3) that assms(2) [of room] show ?thesis
      unfolding at_most_joined_def by (metis le_add1 le_trans)
  qed
  have here: "room = d \<and> count_list ps i = 1" if "i \<in> set ps" "i < length history" "history ! i = RoomBroadcast room m"
    for i room m
  proof -
    have "0 < count_list ps i" using that(1) by (simp add: count_list_0_iff neq0_conv [symmetric])
    with joined [OF that(2,3)] show ?thesis by (auto split: if_splits simp: of_bool_def)
  qed
  have picked: "list_all2 (\<lambda>i m. i < length history \<and> ?f (history ! i) = Some m) ps ms"
    using ps(2) by (rule list.rel_mono_strong) (use here in \<open>auto simp: sent_at_def\<close>)
  have "\<exists>room m. i < length history \<and> history ! i = RoomBroadcast room m" if "i \<in> set ps" for i
    using ps(2) that by (metis in_set_conv_nth list_all2_nthD sent_at_def)
  with here have "\<forall>i \<in> set ps. count_list ps i = 1" by blast
  then have "distinct ps"
    by (induction ps) (auto simp: count_list_0_iff split: if_splits)
  with ps(1) have "sorted_wrt (<) ps" by (simp add: strict_sorted_iff)
  from subseq_positions [OF this picked] show ?thesis by (simp add: broadcasts_to_def)
qed

section \<open>Copies in a room\<close>

definition copies :: "'tx \<Rightarrow> 'tx clients \<Rightarrow> nat" where
  "copies tx cs = length (filter (\<lambda>c. snd c = tx) cs)"

lemma copies_filter: "copies tx (filter P cs) \<le> copies tx cs"
proof -
  have "filter (\<lambda>c. snd c = tx) (filter P cs) = filter P (filter (\<lambda>c. snd c = tx) cs)"
    by (simp add: conj_commute)
  then show ?thesis unfolding copies_def by (simp only: length_filter_le)
qed

lemma copies_step:
  "copies tx (clients_in (coordinator_step try_send c st) d) \<le> copies tx (clients_in st d) + of_bool (joins_room tx d c)"
proof (cases c)
  case (RoomJoin room i tx' ack)
  then show ?thesis by (simp add: entry_list_def Let_def copies_def split: option.split)
next
  case (RoomLeave room i)
  then show ?thesis unfolding RoomLeave clients_leave using copies_filter by auto
next
  case (RoomBroadcast room m)
  obtain rs w' where rs: "outcomes try_send m (clients_in st room) (co_world st) = (rs, w')"
    by (metis surj_pair)
  show ?thesis
    unfolding RoomBroadcast broadcast_effect(1) [OF rs] by (simp add: keep_alive_def copies_filter)
qed

context client_channels
begin

lemma outcomes_copies:
  "\<exists>k \<le> copies tx clients. queue (snd (outcomes try_send message clients w)) tx = queue w tx @ replicate k message"
proof (induction clients arbitrary: w)
  case (Cons c clients)
  let ?w = "snd (try_send (snd c) message w)"
  from Cons.IH [of ?w] obtain k where k: "k \<le> copies tx clients"
    "queue (snd (outcomes try_send message clients ?w)) tx = queue ?w tx @ replicate k message" by blast
  show ?case
  proof (cases "tx = snd c \<and> accepts w tx")
    case True
    with k show ?thesis
      by (intro exI [of _ "Suc k"]) (auto simp: outcomes_Cons Let_def copies_def send_queue)
  next
    case False
    with k show ?thesis
      by (intro exI [of _ k]) (auto simp: outcomes_Cons Let_def copies_def send_queue)
  qed
qed (simp add: copies_def)

end

section \<open>The invariant\<close>

context server_channels
begin

lemma sends_queue:
  "sends_from M w w' \<Longrightarrow> \<exists>es. client_queue w' tx = client_queue w tx @ es \<and> set es \<subseteq> M"
  by (induction rule: sends.induct) (auto simp: cmd_frame clients.send_queue)

definition ordered :: "('h, 'c, 'tx, 'r, 'w) server \<Rightarrow> bool" where
  "ordered s \<longleftrightarrow> (\<forall>tx. in_order (srv_history s) tx (filter (\<lambda>m. \<not> is_reply m) (inbox client_queue s tx)))
    \<and> (\<forall>tx d. copies tx (entry_list (srv_rooms s) d) \<le> joins_of tx d (srv_history s))"

lemma actor_ordered:
  assumes "ordered s" and turn: "rooms_turn ops s = Some s'"
    and recv: "op_cmd_recv ops (handle_tx (app_rooms (srv_app s))) (srv_world s) = (Some c, w0)"
    and received: "srv_received s' = srv_received s"
  shows "ordered s'"
proof -
  have "pending s = c # cmd_queue w0 (handle_tx (app_rooms (srv_app s)))"
    using cmd_recv_some [OF recv] by simp
  from rooms_turn_effect [OF this] turn obtain w where
    hist: "srv_history s' = srv_history s @ [c]" and w: "client_queue w = client_queue (srv_world s)"
    and rooms: "srv_rooms s' = co_rooms (coordinator_step (op_client_send ops) c
        \<lparr>co_rooms = srv_rooms s, co_acks = srv_acks s, co_metrics = app_metrics (srv_app s), co_world = w\<rparr>)"
    and world: "srv_world s' = co_world (coordinator_step (op_client_send ops) c
        \<lparr>co_rooms = srv_rooms s, co_acks = srv_acks s, co_metrics = app_metrics (srv_app s), co_world = w\<rparr>)"
    by (metis option.inject)
  let ?st = "\<lparr>co_rooms = srv_rooms s, co_acks = srv_acks s, co_metrics = app_metrics (srv_app s), co_world = w\<rparr>"
  have few: "copies tx (entry_list (srv_rooms s) d) \<le> joins_of tx d (srv_history s)" for tx d
    using assms(1) by (simp add: ordered_def)
  have "copies tx (entry_list (srv_rooms s') d) \<le> joins_of tx d (srv_history s')" for tx d
  proof -
    have "copies tx (entry_list (srv_rooms s') d) \<le> copies tx (entry_list (srv_rooms s) d) + of_bool (joins_room tx d c)"
      using copies_step [of tx "op_client_send ops" c ?st d] by (simp only: rooms) simp
    with few [of tx d] show ?thesis by (simp add: hist joins_of_single)
  qed
  moreover have "in_order (srv_history s') tx (filter (\<lambda>m. \<not> is_reply m) (inbox client_queue s' tx))" for tx
  proof -
    let ?bs = "filter (\<lambda>m. \<not> is_reply m) (inbox client_queue s tx)"
    have before: "in_order (srv_history s) tx ?bs" using assms(1) by (simp add: ordered_def)
    have same: "received_by s' tx = received_by s tx" by (rule inbox_same [OF received])
    show ?thesis
    proof (cases c)
      case (RoomBroadcast room m)
      obtain rs w1 where rs: "outcomes (op_client_send ops) m (clients_in ?st room) (co_world ?st) = (rs, w1)"
        by (metis surj_pair)
      have "srv_world s' = w1" using broadcast_effect(2) [OF rs] by (simp only: world RoomBroadcast)
      with fan.outcomes_copies [of tx "clients_in ?st room" m w] rs w obtain k where
        k: "k \<le> copies tx (entry_list (srv_rooms s) room)"
          "client_queue (srv_world s') tx = client_queue (srv_world s) tx @ replicate k m" by auto
      have new: "filter (\<lambda>m. \<not> is_reply m) (inbox client_queue s' tx) = ?bs @ replicate (if is_reply m then 0 else k) m"
        by (simp add: inbox_def same k(2))
      show ?thesis unfolding new hist RoomBroadcast
        by (rule in_order_broadcast [OF before]) (use k(1) few [of tx room] in auto)
    qed (use before in_order_grows [OF before, of c] in
        \<open>simp_all add: hist inbox_def same world step_join_leave_world w del: coordinator_step.simps\<close>)
  qed
  ultimately show ?thesis by (simp add: ordered_def)
qed

lemma step_ordered:
  assumes "ordered s" "server_step ops s s'"
  shows "ordered s'"
  using assms(2)
proof (cases rule: step_world_cases)
  case task
  have "filter (\<lambda>m. \<not> is_reply m) (inbox client_queue s' tx) = filter (\<lambda>m. \<not> is_reply m) (inbox client_queue s tx)" for tx
    using sends_queue [OF task(1), of tx] inbox_same [of s' s tx] task(2)
    by (auto simp: filter_empty_conv inbox_def)
  with assms(1) task(2) show ?thesis by (simp add: ordered_def)
next
  case (actor c w)
  with actor_ordered [OF assms(1)] show ?thesis by blast
next
  case (reads tx m)
  have "inbox client_queue s' tx' = inbox client_queue s tx'" for tx'
    using reads client_recv_none [of tx "srv_world s" "srv_world s'"]
      client_recv_some [of tx "srv_world s" _ "srv_world s'"]
    by (cases m) (auto simp: inbox_def received_by_def)
  with assms(1) reads show ?thesis by (simp add: ordered_def)
next
  case (gone tx)
  have "\<exists>lost. inbox client_queue s tx' = inbox client_queue s' tx' @ lost" for tx'
    using gone(1) client_dropped [of tx "srv_world s"] inbox_same [OF gone(3), of tx']
    by (auto simp: inbox_def)
  then have "in_order (srv_history s) tx' (filter (\<lambda>m. \<not> is_reply m) (inbox client_queue s' tx'))" for tx'
    using assms(1) in_order_prefix unfolding ordered_def by (metis filter_append)
  with assms(1) gone show ?thesis by (simp add: ordered_def)
qed

lemma reachable_ordered: "reachable ops s0 s \<Longrightarrow> ordered s0 \<Longrightarrow> ordered s"
  by (induction rule: reachable.induct) (blast intro: step_ordered)+

lemma ordered_start:
  "(\<And>tx. client_queue w tx = []) \<Longrightarrow> ordered (server_start rooms wal_reader has_sql w)"
  by (simp add: ordered_def server_start_def inbox_def received_by_def entry_list_def copies_def)

end

end
