(* ===== verification/Server_Fifo.thy ===== *)
theory Server_Fifo
  imports Server_Order
begin

text \<open>
  What a sender says and what reaches the clients: the chat messages of a sender in the actor's
  history, and so in the inbox of every client that joined one room once, are some of what this sender
  said, in the order in which it said it and no more often.
\<close>

section \<open>What was said and what was commanded\<close>

fun said_in :: "string + client_message \<Rightarrow> string option" where
  "said_in (Inr (SendMessage str)) = Some str"
| "said_in (Inr (SendMessageTo d str)) = Some str"
| "said_in (Inr (Join d)) = None"
| "said_in (Inl e) = None"

definition said :: "(string \<Rightarrow> string + client_message) \<Rightarrow> client_id \<Rightarrow> (client_id \<times> string) list \<Rightarrow> string list" where
  "said from_json cid frames =
    List.map_filter (\<lambda>(sender, str). if sender = cid then said_in (from_json str) else None) frames"

fun message_text :: "client_id \<Rightarrow> server_message \<Rightarrow> string option" where
  "message_text cid (Message sender str t) = (if sender = cid then Some str else None)"
| "message_text cid (Joined c d) = None"
| "message_text cid (Invalidation ks t) = None"
| "message_text cid (ErrorMessage e) = None"

definition texts_from :: "client_id \<Rightarrow> server_message list \<Rightarrow> string list" where
  "texts_from cid ms = List.map_filter (message_text cid) ms"

fun command_text :: "client_id \<Rightarrow> ('tx, 'r) room_command \<Rightarrow> string option" where
  "command_text cid (RoomBroadcast d m) = message_text cid m"
| "command_text cid (RoomJoin d c tx r) = None"
| "command_text cid (RoomLeave d c) = None"

definition command_texts :: "client_id \<Rightarrow> ('tx, 'r) room_command list \<Rightarrow> string list" where
  "command_texts cid cs = List.map_filter (command_text cid) cs"

lemma map_filter_append [simp]: "List.map_filter f (xs @ ys) = List.map_filter f xs @ List.map_filter f ys"
  by (induction xs) (simp_all add: map_filter_simps split: option.split)

lemma map_filter_none: "(\<And>x. x \<in> set xs \<Longrightarrow> f x = None) \<Longrightarrow> List.map_filter f xs = []"
  by (induction xs) (simp_all add: map_filter_simps)

lemma said_append [simp]: "said fj cid (fs @ fs') = said fj cid fs @ said fj cid fs'"
  by (simp add: said_def)

lemma command_texts_append [simp]: "command_texts cid (cs @ cs') = command_texts cid cs @ command_texts cid cs'"
  by (simp add: command_texts_def)

lemma texts_from_append [simp]: "texts_from cid (ms @ ms') = texts_from cid ms @ texts_from cid ms'"
  by (simp add: texts_from_def)

text \<open>Mapping and filtering keep a subsequence one.\<close>

lemma subseq_map_filter: "subseq xs ys \<Longrightarrow> subseq (List.map_filter f xs) (List.map_filter f ys)"
proof (induction rule: list_emb.induct)
  case (list_emb_Cons xs ys y)
  then show ?case by (cases "f y") (simp_all add: map_filter_simps list_emb.list_emb_Cons)
next
  case (list_emb_Cons2 x y xs ys)
  then show ?case by (cases "f y") (simp_all add: map_filter_simps)
qed (simp add: map_filter_simps)

lemma broadcasts_texts: "subseq (texts_from cid (broadcasts_to d history)) (command_texts cid history)"
proof (induction history)
  case (Cons c history)
  then show ?case
    by (cases c) (auto simp: texts_from_def broadcasts_to_def command_texts_def map_filter_simps
        split: option.splits if_splits)
qed (simp add: texts_from_def broadcasts_to_def command_texts_def map_filter_simps)

lemma texts_without_replies: "texts_from cid (filter (\<lambda>m. \<not> is_reply m) ms) = texts_from cid ms"
proof (induction ms)
  case (Cons m ms)
  then show ?case by (cases m) (simp_all add: texts_from_def map_filter_simps)
qed (simp add: texts_from_def map_filter_simps)

section \<open>A frame\<close>

context session_channels
begin

lemma handle_text_texts:
  assumes "handle_text cmd_send client_send from_json env str state session w = (state', session', w')"
  shows "app_rooms state' = app_rooms state"
    and "\<exists>cs. commands_to state w' = commands_to state w @ cs
      \<and> (\<forall>cid. subseq (command_texts cid cs) (said from_json cid [(session_client_id session, str)]))"
proof -
  show "app_rooms state' = app_rooms state" by (rule handle_text_commands(1) [OF assms])
  show "\<exists>cs. commands_to state w' = commands_to state w @ cs
      \<and> (\<forall>cid. subseq (command_texts cid cs) (said from_json cid [(session_client_id session, str)]))"
  proof (cases "from_json str")
    case (Inl e)
    with assms show ?thesis
      by (auto simp: handle_text_def client_frame command_texts_def map_filter_simps intro!: exI [of _ "[]"])
  next
    case (Inr msg)
    obtain res s1 session1 w1 where h:
      "handle_client_message cmd_send client_send env msg state session w = (res, s1, session1, w1)"
      by (metis prod_cases4)
    have now: "commands_to state w' = commands_to state w1"
      using assms Inr h by (cases res; auto simp: handle_text_def client_frame)+
    have one: "subseq (command_texts cid [c]) (said from_json cid [(session_client_id session, str)])"
      if "command_of env msg session = Some c" for c cid
      using that Inr
      by (cases msg) (auto simp: command_texts_def said_def map_filter_simps new_message_def split: option.splits if_splits)
    have none: "subseq (command_texts cid []) ts" for cid ts
      by (simp add: command_texts_def map_filter_simps)
    show ?thesis
      using handle_commands [OF h] one none unfolding now
      by (cases "command_of env msg session") (auto intro: exI [of _ "[]"])
  qed
qed

end

section \<open>The steps\<close>

context server_channels
begin

lemma client_frame_result: "op_client_send ops tx m w = (r, w') \<Longrightarrow> cmd_queue w' = cmd_queue w"
  using client_frame(1) [of tx m w] by simp

abbreviation commanded :: "('h, 'c, 'tx, 'r, 'w) server \<Rightarrow> ('tx, 'r) room_command list" where
  "commanded s \<equiv> srv_history s @ pending s"

text \<open>What a step adds to the commands was said in the frames it adds.\<close>

definition speaks :: "('h, 'c, 'tx, 'r, 'w) server \<Rightarrow> ('h, 'c, 'tx, 'r, 'w) server \<Rightarrow> bool" where
  "speaks s s' \<longleftrightarrow> (\<exists>cs fs. commanded s' = commanded s @ cs \<and> srv_frames s' = srv_frames s @ fs
    \<and> (\<forall>cid. subseq (command_texts cid cs) (said (op_from_json ops) cid fs)))"

lemma speaks_silent:
  assumes "commanded s' = commanded s @ cs" "\<And>cid c. c \<in> set cs \<Longrightarrow> command_text cid c = None"
    and "\<exists>fs. srv_frames s' = srv_frames s @ fs"
  shows "speaks s s'"
proof -
  have "command_texts cid cs = []" for cid
    unfolding command_texts_def by (rule map_filter_none) (rule assms(2))
  with assms(1,3) show ?thesis unfolding speaks_def by fastforce
qed

lemma frame_speaks:
  assumes inv: "ok s" and turn: "frame_turn ops cid env str s = Some s'"
  shows "speaks s s'"
proof -
  obtain session where sess: "srv_sessions s cid = Some (session, None)"
    using turn by (auto simp: frame_turn_def split: option.splits)
  have cid: "session_client_id session = cid"
    using ok_session [OF inv sess] by (simp add: session_ok_def)
  show ?thesis
  proof (cases "\<exists>d. op_from_json ops str = Inr (Join d)")
    case True
    then obtain d where d: "op_from_json ops str = Inr (Join d)" by blast
    obtain res app w where send: "join_send (op_cmd_send ops) (call_responder env) d (srv_app s) session
        (srv_world s) = (res, app, w)" by (metis prod_cases3)
    from join_send_effect [OF send] obtain cs where eff: "app_rooms app = app_rooms (srv_app s)"
      "cmd_queue w (handle_tx (app_rooms (srv_app s))) = pending s @ cs"
      "set cs \<subseteq> {RoomJoin d (session_client_id session) (session_tx session) (call_responder env)}" by blast
    have "srv_app s' = app \<and> srv_history s' = srv_history s \<and> srv_frames s' = srv_frames s @ [(cid, str)]
        \<and> cmd_queue (srv_world s') h = cmd_queue w h" for h
      using turn d sess send client_frame
      by (cases res) (auto simp: frame_turn_def reply_error_def split: if_splits)
    with eff show ?thesis by (intro speaks_silent [of s' s cs]) auto
  next
    case False
    obtain app session' w where h: "handle_text (op_cmd_send ops) (op_client_send ops) (op_from_json ops) env str
        (srv_app s) session (srv_world s) = (app, session', w)" by (metis prod_cases3)
    have s': "srv_app s' = app" "srv_world s' = w" "srv_history s' = srv_history s"
        "srv_frames s' = srv_frames s @ [(cid, str)]"
      using turn sess h False by (auto simp: frame_turn_def split: sum.splits client_message.splits)
    from handle_text_texts [OF h] obtain cs where "app_rooms app = app_rooms (srv_app s)"
      "cmd_queue w (handle_tx (app_rooms (srv_app s))) = pending s @ cs"
      "\<forall>c. subseq (command_texts c cs) (said (op_from_json ops) c [(cid, str)])"
      by (auto simp: cid)
    then show ?thesis
      unfolding speaks_def by (intro exI [of _ cs] exI [of _ "[(cid, str)]"]) (simp add: s')
  qed
qed

lemma close_speaks:
  assumes "close_turn ops cid s = Some s'"
  shows "speaks s s'"
proof -
  obtain session waiting where sess: "srv_sessions s cid = Some (session, waiting)"
    using assms by (auto simp: close_turn_def split: option.splits)
  obtain app w where leave: "leave_on_close (op_cmd_send ops) (srv_app s) session (srv_world s) = (app, w)"
    by (metis surj_pair)
  from leave_effect [OF leave] obtain cs where eff: "app_rooms app = app_rooms (srv_app s)"
    "cmd_queue w (handle_tx (app_rooms (srv_app s))) = pending s @ cs"
    "set cs \<subseteq> {RoomLeave d (session_client_id session) | d. True}" by blast
  have silent: "command_text c x = None" if "x \<in> set cs" for c x using eff(3) that by auto
  show ?thesis
    by (rule speaks_silent [OF _ silent]) (use assms sess leave eff in \<open>auto simp: close_turn_def\<close>)
qed

lemma step_speaks:
  assumes inv: "ok s" and step: "server_step ops s s'"
  shows "speaks s s'"
  using step
proof (cases rule: server_step.cases)
  case (accepted_client cid tx)
  then show ?thesis by (intro speaks_silent [where cs = "[]"]) (auto simp: accept_turn_def split: if_splits)
next
  case (received_frame cid env str)
  with inv show ?thesis by (blast intro: frame_speaks)
next
  case (answered_join cid answer)
  then have "commanded s' = commanded s \<and> srv_frames s' = srv_frames s"
    by (auto simp: answer_turn_def join_finish_def reply_error_def client_frame
        dest!: client_frame_result split: option.splits ack.splits prod.splits if_splits)
  then show ?thesis by (intro speaks_silent [where cs = "[]"]) auto
next
  case (closed_socket cid)
  then show ?thesis by (rule close_speaks)
next
  case rooms_actor
  then obtain c w where recv: "op_cmd_recv ops (handle_tx (app_rooms (srv_app s))) (srv_world s) = (Some c, w)"
    by (auto simp: rooms_turn_def split: prod.splits option.splits)
  then have p: "pending s = c # cmd_queue w (handle_tx (app_rooms (srv_app s)))"
    using cmd_recv_some [OF recv] by simp
  from rooms_turn_effect [OF p] rooms_actor have "pending s' = cmd_queue w (handle_tx (app_rooms (srv_app s)))"
    "srv_history s' = srv_history s @ [c]" by (metis option.inject)+
  then have "commanded s' = commanded s" by (simp only: p append_assoc append.simps)
  moreover have "srv_frames s' = srv_frames s"
    using rooms_actor recv by (auto simp: rooms_turn_def Let_def set_metrics_def)
  ultimately have "commanded s' = commanded s" "srv_frames s' = srv_frames s" by blast+
  then show ?thesis by (intro speaks_silent [where cs = "[]"]) auto
next
  case (wal_reader_input i)
  from reader_commands [OF this] obtain cs f rd where
    "s' = set_metrics (wal_metrics rd) (s\<lparr>srv_reader := rd, srv_flow := f, srv_world := wal_world rd\<rparr>)"
    "cmd_queue (wal_world rd) (handle_tx (app_rooms (srv_app s))) = pending s @ cs"
    "\<forall>c \<in> set cs. \<exists>d ks t. c = RoomBroadcast d (Invalidation ks t) \<and> invalidation_ok (d, ks, t)" by metis
  then show ?thesis
    by (intro speaks_silent [where cs = cs]) (auto simp: set_metrics_def)
next
  case (client_reads tx)
  obtain m w where "op_client_recv ops tx (srv_world s) = (m, w)" by (metis surj_pair)
  with client_reads client_recv_none [of tx "srv_world s" w] client_recv_some [of tx "srv_world s" _ w]
  show ?thesis
    by (intro speaks_silent [where cs = "[]"]; cases m) (auto simp: client_turn_def)
next
  case (client_gone tx)
  then show ?thesis
    using client_dropped by (intro speaks_silent [where cs = "[]"]) (auto simp: drop_turn_def)
next
  case (sampled_resources process)
  then show ?thesis by (intro speaks_silent [where cs = "[]"]) (auto simp: sampler_turn_def set_metrics_def)
qed

definition spoken :: "('h, 'c, 'tx, 'r, 'w) server \<Rightarrow> bool" where
  "spoken s \<longleftrightarrow> (\<forall>cid. subseq (command_texts cid (commanded s)) (said (op_from_json ops) cid (srv_frames s)))"

lemma speaks_spoken: "speaks s s' \<Longrightarrow> spoken s \<Longrightarrow> spoken s'"
  unfolding speaks_def spoken_def by (metis command_texts_append list_emb_append_mono said_append)

lemma reachable_spoken: "reachable ops s0 s \<Longrightarrow> ok s0 \<Longrightarrow> spoken s0 \<Longrightarrow> spoken s"
  by (induction rule: reachable.induct) (blast intro: speaks_spoken step_speaks reachable_ok)+

lemma spoken_start: "(\<And>h. cmd_queue w h = []) \<Longrightarrow> spoken (server_start rooms wal_reader has_sql w)"
  by (simp add: spoken_def server_start_def command_texts_def map_filter_simps)

text \<open>With the order of the history: what a client that joined one room once hears of a sender.\<close>

lemma heard_of_sender:
  assumes "ordered s" "spoken s" "\<And>room. joins_of tx room (srv_history s) \<le> of_bool (room = d)"
  shows "subseq (texts_from cid (inbox client_queue s tx)) (said (op_from_json ops) cid (srv_frames s))"
proof -
  have "subseq (filter (\<lambda>m. \<not> is_reply m) (inbox client_queue s tx)) (broadcasts_to d (srv_history s))"
  proof (rule in_order_once)
    show "in_order (srv_history s) tx (filter (\<lambda>m. \<not> is_reply m) (inbox client_queue s tx))"
      using assms(1) by (simp add: ordered_def)
  qed (rule assms(3))
  then have "subseq (texts_from cid (inbox client_queue s tx)) (texts_from cid (broadcasts_to d (srv_history s)))"
    using subseq_map_filter texts_without_replies unfolding texts_from_def by metis
  also have "subseq \<dots> (command_texts cid (srv_history s))" by (rule broadcasts_texts)
  also have "subseq \<dots> (command_texts cid (commanded s))"
    by (rule prefix_imp_subseq) (simp add: prefix_def)
  also have "subseq \<dots> (said (op_from_json ops) cid (srv_frames s))"
    using assms(2) by (simp add: spoken_def)
  finally show ?thesis .
qed

lemma reachable_heard:
  assumes "\<And>h. cmd_queue w h = []" "\<And>tx. client_queue w tx = []"
    and "reachable ops (server_start rooms wal_reader has_sql w) s"
    and "\<And>room. joins_of tx room (srv_history s) \<le> of_bool (room = d)"
  shows "subseq (texts_from cid (inbox client_queue s tx)) (said (op_from_json ops) cid (srv_frames s))"
proof (rule heard_of_sender)
  show "ordered s" by (rule reachable_ordered [OF assms(3) ordered_start]) (rule assms(2))
  have "ok (server_start rooms wal_reader has_sql w)" by (rule server_ok_start) (rule assms(1,2))+
  with assms(3) show "spoken s" by (rule reachable_spoken) (rule spoken_start [OF assms(1)])
qed (rule assms(4))

end

end
