(* ===== verification/Load_System.thy ===== *)
theory Load_System
  imports Load_Report Server_Fifo
begin

text \<open>
  The load test (\<^verbatim>\<open>src/bin/loadtest.rs\<close>) against the server: what the subscriber task counts are
  payloads the producer task sent, each once and in increasing order, when the subscriber's stream
  brings what the server put into its channel and the producer is the only one who speaks.
\<close>

section \<open>The subscriber's payloads\<close>

text \<open>The text frames of a stream, and the payload in one.\<close>

definition arrived_texts :: "stream_event list \<Rightarrow> string list" where
  "arrived_texts events =
    List.map_filter (\<lambda>e. case e of Arrived now (TextFrame str) \<Rightarrow> Some str | _ \<Rightarrow> None) events"

fun payload_in :: "('e, 'hist) subscriber_env \<Rightarrow> server_message \<Rightarrow> payload option" where
  "payload_in env (Message cid body ts) = (case env_payload env body of Inr p \<Rightarrow> Some p | Inl e \<Rightarrow> None)"
| "payload_in env _ = None"

definition decoded :: "('e, 'hist) subscriber_env \<Rightarrow> string \<Rightarrow> payload option" where
  "decoded env str = (case env_server_message env str of Inr m \<Rightarrow> payload_in env m | Inl e \<Rightarrow> None)"

lemma payloads_arrived:
  "subseq (map snd (payloads_of env events)) (List.map_filter (decoded env) (arrived_texts events))"
proof (induction env events rule: payloads_of.induct)
  case (5 env now str events)
  then show ?case
    by (auto simp: arrived_texts_def map_filter_simps decoded_def split: sum.split server_message.split)
qed (simp_all add: arrived_texts_def map_filter_simps)

lemma await_joined_suffix: "await_joined decode events = Some rest \<Longrightarrow> suffix rest events"
  by (induction decode events rule: await_joined.induct)
    (auto intro: suffix_ConsI split: sum.splits server_message.splits)

lemma decoded_inbox:
  assumes "\<And>m. m \<in> set ms \<Longrightarrow> env_server_message env (encode m) = Inr m"
  shows "List.map_filter (decoded env) (map encode ms) = List.map_filter (payload_in env) ms"
  using assms by (induction ms) (auto simp: map_filter_simps decoded_def split: option.split)

text \<open>If one sender is all that is heard, the payloads are in its texts.\<close>

definition payload_of_text :: "('e, 'hist) subscriber_env \<Rightarrow> string \<Rightarrow> payload option" where
  "payload_of_text env body = (case env_payload env body of Inr p \<Rightarrow> Some p | Inl e \<Rightarrow> None)"

lemma heard_payloads:
  assumes "\<And>c. c \<noteq> sender \<Longrightarrow> texts_from c ms = []"
  shows "List.map_filter (payload_in env) ms = List.map_filter (payload_of_text env) (texts_from sender ms)"
  using assms
proof (induction ms)
  case (Cons m ms)
  have later: "texts_from c ms = []" if "c \<noteq> sender" for c
    using Cons.prems [OF that] by (auto simp: texts_from_def map_filter_simps split: option.splits)
  show ?case
  proof (cases m)
    case (Message c body t)
    with Cons.prems [of c] have "c = sender" by (auto simp: texts_from_def map_filter_simps)
    with Message Cons.IH [OF later] show ?thesis
      by (simp add: texts_from_def map_filter_simps payload_of_text_def split: sum.split)
  qed (use Cons.IH [OF later] in \<open>simp_all add: texts_from_def map_filter_simps\<close>)
qed (simp add: texts_from_def map_filter_simps)

text \<open>Decoding what the producer wrote gives its payloads back.\<close>

lemma decoded_bodies:
  "(\<And>p. p \<in> set ps \<Longrightarrow> env_payload env (body p) = Inr p) \<Longrightarrow>
    List.map_filter (payload_of_text env) (map body ps) = ps"
  by (induction ps) (simp_all add: map_filter_simps payload_of_text_def)

lemma said_written:
  assumes "\<And>b. from_json (msg d b) = Inr (SendMessageTo d b)"
  shows "List.map_filter (said_in \<circ> from_json) (map (msg d) bodies) = bodies"
  by (induction bodies) (simp_all add: map_filter_simps assms)

lemma said_frames:
  "said from_json cid frames =
    List.map_filter (said_in \<circ> from_json) (map snd (filter (\<lambda>(c, str). c = cid) frames))"
  by (induction frames) (auto simp: said_def map_filter_simps split: option.split if_splits)

lemma subseq_set: "subseq xs ys \<Longrightarrow> set xs \<subseteq> set ys"
  by (induction rule: list_emb.induct) auto

lemma subseq_increasing: "subseq xs ys \<Longrightarrow> sorted_wrt P ys \<Longrightarrow> sorted_wrt P xs"
  by (induction rule: list_emb.induct) (auto dest: subseq_set)

text \<open>
  The chain from the producer's payloads to the subscriber's: said, heard in this order, written to the
  subscriber's stream, and decoded.
\<close>

lemma counted_payloads_sent:
  assumes "subseq (arrived_texts events) (map encode ms)"
    and "\<And>m. m \<in> set ms \<Longrightarrow> env_server_message env (encode m) = Inr m"
    and "\<And>c. c \<noteq> producer \<Longrightarrow> texts_from c ms = []"
    and "subseq (texts_from producer ms) (said from_json producer frames)"
    and "subseq (map snd (filter (\<lambda>(c, str). c = producer) frames)) (map (msg d \<circ> body) ps)"
    and "\<And>b. from_json (msg d b) = Inr (SendMessageTo d b)"
    and "\<And>p. p \<in> set ps \<Longrightarrow> env_payload env (body p) = Inr p"
    and "await_joined (env_server_message env) events = Some rest"
  shows "subseq (map snd (payloads_of env rest)) ps"
proof -
  have "subseq (arrived_texts rest) (arrived_texts events)"
    unfolding arrived_texts_def
    by (intro subseq_map_filter suffix_imp_subseq await_joined_suffix [OF assms(8)])
  then have "subseq (arrived_texts rest) (map encode ms)" using assms(1) by (rule subseq_order.trans)
  from subseq_map_filter [OF this, of "decoded env"]
  have "subseq (List.map_filter (decoded env) (arrived_texts rest)) (List.map_filter (payload_in env) ms)"
    by (simp only: decoded_inbox [where encode = encode and ms = ms and env = env, OF assms(2)])
  with payloads_arrived have "subseq (map snd (payloads_of env rest)) (List.map_filter (payload_in env) ms)"
    by (rule subseq_order.trans)
  also have "\<dots> = List.map_filter (payload_of_text env) (texts_from producer ms)"
    by (rule heard_payloads) (rule assms(3))
  also have "subseq \<dots> (List.map_filter (payload_of_text env) (said from_json producer frames))"
    by (rule subseq_map_filter) (rule assms(4))
  also have "subseq (said from_json producer frames) (map body ps)"
    using subseq_map_filter [OF assms(5), of "said_in \<circ> from_json"] said_written [of from_json msg d "map body ps", OF assms(6)]
    by (simp add: said_frames)
  then have "subseq (List.map_filter (payload_of_text env) (said from_json producer frames)) ps"
    using subseq_map_filter [of _ _ "payload_of_text env"] decoded_bodies [of ps env body, OF assms(7)] by metis
  finally show ?thesis .
qed

section \<open>The subscriber's accounts, the empty one included\<close>

lemma subscriber_accounts_all:
  fixes env :: "('e, 'hist) subscriber_env" and events :: "stream_event list"
  defines "seqs \<equiv> map unat (seqs_of (payloads_of env events))"
  assumes hist: "new_latency_hist (env_new_hist env) = Inr h" and "n < 2 ^ 64"
    and "sorted_wrt (<) seqs" "\<forall>s \<in> set seqs. s < n"
  shows "\<exists>r. measure_loop chk env events = Some (Inr r)
    \<and> unat (received r) = length seqs \<and> unat (received r) + unat (seq_gaps r) \<le> n"
proof (cases "seqs = []")
  case True
  then have "payloads_of env events = []" by (simp add: seqs_def)
  with hist True show ?thesis
    by (simp add: measure_loop_def subscriber_loop_payloads subscriber_result.defs)
next
  case False
  from subscriber_accounts [of env h n events chk] assms False show ?thesis by (auto simp: seqs_def)
qed

text \<open>Payloads numbered from zero, some of them counted: the whole subscriber task.\<close>

lemma subscriber_of_sent:
  assumes "env_connect env = Inr u" "env_encode env (Join d) = Inr join" "env_send env join = Inr u'"
    and "await_joined (env_server_message env) events = Some rest"
    and "new_latency_hist (env_new_hist env) = Inr h"
    and "subseq (map snd (payloads_of env rest)) (payloads_from 0 ticks)" "length ticks < 2 ^ 64"
  shows "\<exists>r. run_subscriber chk env d True events = (True, Some (Inr r))
    \<and> unat (received r) = length (payloads_of env rest)
    \<and> unat (received r) + unat (seq_gaps r) \<le> length ticks"
proof -
  let ?seqs = "map unat (seqs_of (payloads_of env rest))"
  have sent: "map (\<lambda>p. unat (payload_seq p)) (payloads_from 0 ticks) = [0 ..< length ticks]"
    using payloads_from_seqs [of 0 ticks] assms(7) by simp
  have counted: "?seqs = map (\<lambda>p. unat (payload_seq p)) (map snd (payloads_of env rest))"
    by (simp only: map_map o_def case_prod_beta)
  have sub: "subseq ?seqs [0 ..< length ticks]"
    unfolding counted sent [symmetric] by (rule subseq_map [OF assms(6)])
  have "sorted_wrt (<) ?seqs" by (rule subseq_increasing [OF sub]) simp
  moreover have "\<forall>s \<in> set ?seqs. s < length ticks"
    using subseq_set [OF sub] by (simp only: set_upt subset_iff atLeastLessThan_iff) blast
  ultimately obtain r where "measure_loop chk env rest = Some (Inr r)" "unat (received r) = length ?seqs"
    "unat (received r) + unat (seq_gaps r) \<le> length ticks"
    using subscriber_accounts_all [OF assms(5,7), of rest chk] by blast
  with assms(1-4) show ?thesis by (simp add: run_subscriber_def)
qed

end
