(* ===== verification/Test_Support.thy ===== *)
theory Test_Support
  imports Mini_Prelude "HOL-Library.Monad_Syntax"
begin

text \<open>
  What the program's own tests are made of. A test is a computation that panics (\<open>None\<close>) or returns
  (\<open>Some ()\<close>); \<^verbatim>\<open>assert!\<close>, \<^verbatim>\<open>unwrap\<close> and \<^verbatim>\<open>unwrap_err\<close> are its panics. The tests are translated
  beside the code they test and shown to pass, for every iteration order of the hash collections.
\<close>

definition assert_that :: "bool \<Rightarrow> unit option" where
  "assert_that b = (if b then Some () else None)"

fun unwrap :: "'e + 'a \<Rightarrow> 'a option" where
  "unwrap (Inr a) = Some a"
| "unwrap (Inl e) = None"

fun unwrap_err :: "'e + 'a \<Rightarrow> 'e option" where
  "unwrap_err (Inl e) = Some e"
| "unwrap_err (Inr a) = None"

lemma assert_that_iff: "assert_that b = Some u \<longleftrightarrow> b"
  by (simp add: assert_that_def)

lemma assert_that_simps [simp]: "assert_that True = Some ()" "assert_that False = None"
  by (simp_all add: assert_that_def)

text \<open>An assertion that holds is passed.\<close>

lemma assert_passes [simp]: "b \<Longrightarrow> Option.bind (assert_that b) f = f ()"
  by simp

end
