(* ===== verification/Index_Tests.thy ===== *)
theory Index_Tests
  imports Subscription_Index Test_Support
begin

text \<open>
  The unit tests of \<^verbatim>\<open>src/edge/subscription_index.rs\<close>, each as one definition over the index of
  the model; they pass for every order in which the hash sets are iterated.
\<close>

abbreviation hash_set :: "'a list \<Rightarrow> 'a fset" where
  "hash_set \<equiv> fset_of_list"

definition subscribe_registers_hints_in_both_indexes ::
    "(query_hint fset \<Rightarrow> query_hint list) \<Rightarrow> unit option" where
  "subscribe_registers_hints_in_both_indexes it =
    (let sub_id = ''sub_1'';
         hints = hash_set [QueryHint ''comments'' ''id'' ''123'', QueryHint ''comments'' ''document_id'' ''doc1''];
         (res, idx) = subscribe it sub_id hints empty_index
     in do {
       unwrap res;
       assert_that (hints_for_subscription sub_id idx = Some hints);
       assert_that (subscriptions_for_hint (QueryHint ''comments'' ''id'' ''123'') idx = hash_set [sub_id]);
       assert_that (subscriptions_for_hint (QueryHint ''comments'' ''document_id'' ''doc1'') idx = hash_set [sub_id])
     })"

definition unsubscribe_removes_subscription_from_all_hints ::
    "(query_hint fset \<Rightarrow> query_hint list) \<Rightarrow> unit option" where
  "unsubscribe_removes_subscription_from_all_hints it =
    (let comment_hint = QueryHint ''comments'' ''id'' ''123'';
         doc1_hint = QueryHint ''comments'' ''document_id'' ''doc1'';
         doc2_hint = QueryHint ''comments'' ''document_id'' ''doc2'';
         (res1, idx1) = subscribe it ''sub_1'' (hash_set [comment_hint, doc1_hint]) empty_index;
         (res2, idx2) = subscribe it ''sub_2'' (hash_set [comment_hint, doc2_hint]) idx1;
         (unsubscribed, idx) = unsubscribe it ''sub_1'' idx2
     in do {
       unwrap res1;
       unwrap res2;
       removed \<leftarrow> unsubscribed;
       assert_that (comment_hint |\<in>| removed);
       assert_that (subscriptions_for_hint comment_hint idx = hash_set [''sub_2'']);
       assert_that (subscriptions_for_hint doc1_hint idx = {||});
       assert_that (hints_for_subscription ''sub_1'' idx = None);
       assert_that (subscriptions_for_hint doc2_hint idx = hash_set [''sub_2'']);
       assert_that (hints_for_subscription ''sub_2'' idx = Some (hash_set [doc2_hint, comment_hint]))
     })"

definition update_hints_unregisters_removed_and_registers_added ::
    "(query_hint fset \<Rightarrow> query_hint list) \<Rightarrow> unit option" where
  "update_hints_unregisters_removed_and_registers_added it =
    (let (res1, idx1) = subscribe it ''sub_1''
           (hash_set [QueryHint ''comments'' ''id'' ''100'', QueryHint ''comments'' ''id'' ''101'',
             QueryHint ''comments'' ''document_id'' ''doc1'']) empty_index;
         (res2, idx) = update_hints it ''sub_1''
           (hash_set [QueryHint ''comments'' ''id'' ''101'', QueryHint ''comments'' ''id'' ''102'',
             QueryHint ''comments'' ''document_id'' ''doc1'']) idx1
     in do {
       unwrap res1;
       unwrap res2;
       assert_that (subscriptions_for_hint (QueryHint ''comments'' ''id'' ''100'') idx = {||});
       assert_that (subscriptions_for_hint (QueryHint ''comments'' ''id'' ''101'') idx = hash_set [''sub_1'']);
       assert_that (subscriptions_for_hint (QueryHint ''comments'' ''id'' ''102'') idx = hash_set [''sub_1''])
     })"

definition duplicate_subscribe_errors :: "(query_hint fset \<Rightarrow> query_hint list) \<Rightarrow> unit option" where
  "duplicate_subscribe_errors it =
    (let (res1, idx1) = subscribe it ''sub_1'' (hash_set [QueryHint ''comments'' ''id'' ''123'']) empty_index;
         (res2, idx) = subscribe it ''sub_1'' (hash_set [QueryHint ''comments'' ''id'' ''456'']) idx1
     in do {
       unwrap res1;
       err \<leftarrow> unwrap_err res2;
       assert_that (case err of AlreadySubscribed _ \<Rightarrow> True | _ \<Rightarrow> False)
     })"

definition unsubscribe_unknown_is_none :: "(query_hint fset \<Rightarrow> query_hint list) \<Rightarrow> unit option" where
  "unsubscribe_unknown_is_none it =
    (let (res, idx) = unsubscribe it ''nope'' empty_index
     in do {
       assert_that (res = None);
       assert_that (index_is_empty idx)
     })"

definition updae_hints_unknown_errors :: "(query_hint fset \<Rightarrow> query_hint list) \<Rightarrow> unit option" where
  "updae_hints_unknown_errors it =
    (let (res, idx) = update_hints it ''sub_1'' (hash_set [QueryHint ''comments'' ''id'' ''123'']) empty_index
     in do {
       err \<leftarrow> unwrap_err res;
       assert_that (case err of UnknownSubscription _ \<Rightarrow> True | _ \<Rightarrow> False)
     })"

lemmas index_test_simps = empty_index_def subscribe_def unsubscribe_def update_hints_def
  subscriptions_for_hint_def hints_for_subscription_def index_is_empty_def register_loop unregister_loop
  iteration_order_set assert_that_def Let_def

lemma index_tests_pass:
  assumes "iteration_order it"
  shows "subscribe_registers_hints_in_both_indexes it = Some ()"
    and "unsubscribe_removes_subscription_from_all_hints it = Some ()"
    and "update_hints_unregisters_removed_and_registers_added it = Some ()"
    and "duplicate_subscribe_errors it = Some ()"
    and "unsubscribe_unknown_is_none it = Some ()"
    and "updae_hints_unknown_errors it = Some ()"
  using assms
  by (auto simp: subscribe_registers_hints_in_both_indexes_def unsubscribe_removes_subscription_from_all_hints_def
      update_hints_unregisters_removed_and_registers_added_def duplicate_subscribe_errors_def
      unsubscribe_unknown_is_none_def updae_hints_unknown_errors_def index_test_simps)

end
