(* ===== verification/Hint_Tests.thy ===== *)
theory Hint_Tests
  imports Hint_Router Test_Support "HOL-Library.List_Lexorder" "HOL-Library.Char_ord"
begin

text \<open>
  The integration tests of \<^verbatim>\<open>tests/wal_hint_generation_test.rs\<close>: keys, hints of each kind of
  change, the transaction buffer and the router. They pass, the router's for every order in which its
  set of hints is iterated.
\<close>

text \<open>Collecting pairs into a map keeps the last value of a name.\<close>

definition test_tuple :: "(string \<times> wal_value) list \<Rightarrow> tuple_data" where
  "test_tuple columns = \<lparr>tuple_columns = fmap_of_list (rev columns)\<rparr>"

definition one_key :: "query_hint list \<Rightarrow> string \<Rightarrow> unit option" where
  "one_key hints key = do {
     assert_that (length hints = 1);
     assert_that (to_key (hints ! 0) = key)
   }"

definition query_hint_to_key_formats_table_column_value :: "unit option" where
  "query_hint_to_key_formats_table_column_value =
    assert_that (to_key (QueryHint ''comments'' ''document_id'' ''doc123'') = ''comments:document_id:doc123'')"

definition comment_insert_generates_document_hint :: "unit option" where
  "comment_insert_generates_document_hint = do {
     hints \<leftarrow> unwrap (generate_invalidation_hints
       (EvInsert 1 ''comments'' (test_tuple [(''document_id'', Text ''doc123'')])));
     one_key hints ''comments:document_id:doc123''
   }"

definition comment_update_generates_new_document_hint :: "unit option" where
  "comment_update_generates_new_document_hint = do {
     hints \<leftarrow> unwrap (generate_invalidation_hints
       (EvUpdate 1 ''comments'' None (test_tuple [(''document_id'', Text ''doc456'')])));
     one_key hints ''comments:document_id:doc456''
   }"

definition comment_delete_generates_document_hint_from_old_tuple :: "unit option" where
  "comment_delete_generates_document_hint_from_old_tuple = do {
     hints \<leftarrow> unwrap (generate_invalidation_hints
       (EvDelete 1 ''comments'' (test_tuple [(''document_id'', Text ''doc789'')])));
     one_key hints ''comments:document_id:doc789''
   }"

definition comment_update_changing_document_id_generates_both_hints :: "unit option" where
  "comment_update_changing_document_id_generates_both_hints = do {
     hints \<leftarrow> unwrap (generate_invalidation_hints
       (EvUpdate 1 ''comments'' (Some (test_tuple [(''document_id'', Text ''doc_a'')]))
         (test_tuple [(''document_id'', Text ''doc_b'')])));
     assert_that (sort (map to_key hints) = [''comments:document_id:doc_a'', ''comments:document_id:doc_b''])
   }"

definition document_delete_generates_id_hint :: "unit option" where
  "document_delete_generates_id_hint = do {
     hints \<leftarrow> unwrap (generate_invalidation_hints
       (EvDelete 2 ''documents'' (test_tuple [(''id'', Text ''doc999'')])));
     one_key hints ''documents:id:doc999''
   }"

definition document_insert_generates_no_hints_in_phase_1 :: "unit option" where
  "document_insert_generates_no_hints_in_phase_1 = do {
     hints \<leftarrow> unwrap (generate_invalidation_hints
       (EvInsert 2 ''documents'' (test_tuple [(''id'', Text ''doc111'')])));
     assert_that (hints = [])
   }"

definition unknown_table_generates_no_hints :: "unit option" where
  "unknown_table_generates_no_hints = do {
     hints \<leftarrow> unwrap (generate_invalidation_hints (EvInsert 3 ''users'' (test_tuple [])));
     assert_that (hints = [])
   }"

definition missing_document_id_returns_error :: "unit option" where
  "missing_document_id_returns_error = do {
     err \<leftarrow> unwrap_err (generate_invalidation_hints
       (EvInsert 1 ''comments'' (test_tuple [(''text'', Text ''hello'')])));
     assert_that (err = MissingColumn ''comments'' ''document_id'')
   }"

definition transaction_buffer_dedupes :: "unit option" where
  "transaction_buffer_dedupes =
    (let hint = QueryHint ''comments'' ''document_id'' ''doc1'';
         (taken, tx) = take_hints (add_all [hint, hint] empty_buffer)
     in do {
       assert_that (fcard taken = 1);
       assert_that (buffer_is_empty tx)
     })"

definition router_routes_document_scoped_hints ::
    "(query_hint fset \<Rightarrow> query_hint list) \<Rightarrow> unit option" where
  "router_routes_document_scoped_hints it =
    (let routed = route it (fset_of_list
           [QueryHint ''comments'' ''document_id'' ''doc1'', QueryHint ''documents'' ''id'' ''doc2''])
     in do {
       doc1 \<leftarrow> fmlookup routed ''doc1'';
       doc2 \<leftarrow> fmlookup (fmdrop ''doc1'' routed) ''doc2'';
       assert_that (fmdrop ''doc2'' (fmdrop ''doc1'' routed) = fmempty);
       one_key doc1 ''comments:document_id:doc1'';
       one_key doc2 ''documents:id:doc2''
     })"

lemmas hint_test_simps = one_key_def to_key_def test_tuple_def get_text_column_def require_text_column_def
  assert_that_def

lemma hint_tests_pass:
  "query_hint_to_key_formats_table_column_value = Some ()"
  "comment_insert_generates_document_hint = Some ()"
  "comment_update_generates_new_document_hint = Some ()"
  "comment_delete_generates_document_hint_from_old_tuple = Some ()"
  "comment_update_changing_document_id_generates_both_hints = Some ()"
  "document_delete_generates_id_hint = Some ()"
  "document_insert_generates_no_hints_in_phase_1 = Some ()"
  "unknown_table_generates_no_hints = Some ()"
  "missing_document_id_returns_error = Some ()"
  by (simp_all add: query_hint_to_key_formats_table_column_value_def comment_insert_generates_document_hint_def
      comment_update_generates_new_document_hint_def comment_delete_generates_document_hint_from_old_tuple_def
      comment_update_changing_document_id_generates_both_hints_def document_delete_generates_id_hint_def
      document_insert_generates_no_hints_in_phase_1_def unknown_table_generates_no_hints_def
      missing_document_id_returns_error_def hint_test_simps)

lemma buffer_test_passes: "transaction_buffer_dedupes = Some ()"
  by (simp add: transaction_buffer_dedupes_def take_hints_def add_all_def empty_buffer_def
      buffer_is_empty_def hint_test_simps fcard.rep_eq)

lemma two_elements:
  assumes "distinct xs" "set xs = {a, b}" "a \<noteq> b"
  shows "xs = [a, b] \<or> xs = [b, a]"
proof -
  have "length xs = 2" using assms distinct_card [OF assms(1)] by simp
  then obtain x y where "xs = [x, y]" by (auto simp: length_Suc_conv numeral_2_eq_2)
  with assms show ?thesis by (auto simp: doubleton_eq_iff)
qed

lemma router_test_passes:
  assumes "iteration_order it"
  shows "router_routes_document_scoped_hints it = Some ()"
proof -
  let ?c = "QueryHint ''comments'' ''document_id'' ''doc1''" and ?d = "QueryHint ''documents'' ''id'' ''doc2''"
  let ?r = "route it (fset_of_list [?c, ?d])"
  have "it (fset_of_list [?c, ?d]) = [?c, ?d] \<or> it (fset_of_list [?c, ?d]) = [?d, ?c]"
    by (rule two_elements) (simp_all add: iteration_order_distinct [OF assms] iteration_order_set [OF assms])
  then have looked_up: "fmlookup ?r d =
      (if d = ''doc1'' then Some [?c] else if d = ''doc2'' then Some [?d] else None)" for d
    by (auto simp: route_lookup route_key_def split: if_splits)
  then have "fmdrop ''doc2'' (fmdrop ''doc1'' ?r) = fmempty"
    by (intro fmap_ext) simp
  then show ?thesis
    by (simp add: router_routes_document_scoped_hints_def Let_def looked_up [simplified] hint_test_simps)
qed

end
