(* ===== verification/Pg_Tests.thy ===== *)
theory Pg_Tests
  imports Fixture_Rows Test_Support
begin

text \<open>
  The unit tests of \<^verbatim>\<open>src/wal/pgoutput.rs\<close> on the captured payload, and that they pass: the
  relations, rows and changes it holds, and the errors of three damaged copies. The bytes of the file
  are an argument; \<open>parse_uuid\<close> stands for the \<^verbatim>\<open>uuid\<close> crate.
\<close>

definition DOC_ID :: string where
  "DOC_ID = ''doc_fixture_pgoutput''"

definition TEXT_INSERT_1 :: string where
  "TEXT_INSERT_1 = ''fixture insert 1''"

definition TEXT_INSERT_2 :: string where
  "TEXT_INSERT_2 = ''fixture insert 2''"

definition TEXT_OLD :: string where
  "TEXT_OLD = ''fixture will update/delete''"

definition TEXT_NEW :: string where
  "TEXT_NEW = ''fixture updated''"

definition parse_relation_message :: "u8 list \<Rightarrow> unit option" where
  "parse_relation_message bytes = do {
     (messages, fx) \<leftarrow> fixture_load bytes;
     documents \<leftarrow> fx_documents_relation fx;
     comments \<leftarrow> fx_comments_relation fx;
     assert_that (rel_namespace documents = ''public'');
     assert_that (rel_name documents = ''documents'');
     assert_that (rel_columns documents = [''id'']);
     assert_that (rel_namespace comments = ''public'');
     assert_that (rel_name comments = ''comments'');
     assert_that (rel_columns comments = [''id'', ''document_id'', ''text''])
   }"

definition parse_insert_message :: "(string \<Rightarrow> 'e + 'u) \<Rightarrow> u8 list \<Rightarrow> unit option" where
  "parse_insert_message parse_uuid bytes = do {
     (messages, fx) \<leftarrow> fixture_load bytes;
     assert_that (list_ex (\<lambda>i. i = DOC_ID) (fx_document_ids_inserted fx));
     row_1 \<leftarrow> find (\<lambda>row. row_document_id row = DOC_ID \<and> row_text row = TEXT_INSERT_1) (fx_comment_inserts fx);
     row_2 \<leftarrow> find (\<lambda>row. row_document_id row = DOC_ID \<and> row_text row = TEXT_INSERT_2) (fx_comment_inserts fx);
     unwrap (parse_uuid (row_id row_1));
     unwrap (parse_uuid (row_id row_2));
     Some ()
   }"

definition expected_update :: "fixture \<Rightarrow> comment_update option" where
  "expected_update fx = find (\<lambda>u. row_document_id (update_old u) = DOC_ID \<and>
     row_text (update_old u) = TEXT_OLD \<and> row_text (update_new u) = TEXT_NEW) (fx_comment_updates fx)"

definition parse_update_message_with_old_and_new_tuple :: "u8 list \<Rightarrow> unit option" where
  "parse_update_message_with_old_and_new_tuple bytes = do {
     (messages, fx) \<leftarrow> fixture_load bytes;
     update \<leftarrow> expected_update fx;
     assert_that (row_id (update_old update) = row_id (update_new update));
     assert_that (row_document_id (update_old update) = row_document_id (update_new update))
   }"

definition parse_delete_message :: "u8 list \<Rightarrow> unit option" where
  "parse_delete_message bytes = do {
     (messages, fx) \<leftarrow> fixture_load bytes;
     update \<leftarrow> expected_update fx;
     deleted \<leftarrow> find (\<lambda>row. row_id row = row_id (update_new update)) (fx_comment_deletes fx);
     assert_that (row_document_id deleted = DOC_ID);
     assert_that (row_text deleted = TEXT_NEW)
   }"

text \<open>An index or a slice bound outside of the bytes panics.\<close>

definition unknown_tag_errors :: "u8 list \<Rightarrow> unit option" where
  "unknown_tag_errors bytes = do {
     assert_that (0 < length bytes);
     err \<leftarrow> unwrap_err (parse_pgoutput_messages (bytes[0 := tag CHR ''X'']));
     assert_that (err = UnknownMessageTag (tag CHR ''X''))
   }"

definition truncated_errors :: "u8 list \<Rightarrow> unit option" where
  "truncated_errors bytes = do {
     assert_that (0 < length bytes);
     assert_that (bytes ! 0 = tag CHR ''R'');
     err \<leftarrow> unwrap_err (parse_pgoutput_messages (take 1 bytes));
     assert_that (err = Truncated ''relation id'')
   }"

definition invalid_utf8_errors :: "u8 list \<Rightarrow> unit option" where
  "invalid_utf8_errors bytes = do {
     (t, reader1) \<leftarrow> unwrap (read_u8 ''message tag'' (new_reader bytes));
     assert_that (t = tag CHR ''R'');
     (rel_id, reader2) \<leftarrow> unwrap (read_u32 ''relation id'' reader1);
     assert_that (pos reader2 < length bytes);
     err \<leftarrow> unwrap_err (parse_pgoutput_messages (bytes[pos reader2 := 255]));
     assert_that (err = InvalidUtf8 ''relation namespace'')
   }"

definition fixture_sanity_invariants :: "u8 list \<Rightarrow> unit option" where
  "fixture_sanity_invariants bytes = do {
     (messages, fx) \<leftarrow> fixture_load bytes;
     assert_that (list_ex (\<lambda>m. case m of MsgRelation _ \<Rightarrow> True | _ \<Rightarrow> False) messages);
     assert_that (list_ex (\<lambda>m. case m of MsgInsert _ _ \<Rightarrow> True | _ \<Rightarrow> False) messages);
     assert_that (list_ex (\<lambda>m. case m of MsgUpdate _ _ _ \<Rightarrow> True | _ \<Rightarrow> False) messages);
     assert_that (list_ex (\<lambda>m. case m of MsgDelete _ _ \<Rightarrow> True | _ \<Rightarrow> False) messages)
   }"

section \<open>They pass on the capture\<close>

lemmas load_simps = fixture_load_def fixture_parsed fixture_wire_def relation_of_def last_old_def
  empty_fixture_def row_from_values_def column_idx_def Let_def

lemmas test_names = DOC_ID_def TEXT_INSERT_1_def TEXT_INSERT_2_def TEXT_OLD_def TEXT_NEW_def

lemma row_tests_pass:
  "parse_relation_message fixture_bytes = Some ()"
  "parse_update_message_with_old_and_new_tuple fixture_bytes = Some ()"
  "parse_delete_message fixture_bytes = Some ()"
  "fixture_sanity_invariants fixture_bytes = Some ()"
  by (simp_all add: parse_relation_message_def parse_update_message_with_old_and_new_tuple_def
      parse_delete_message_def fixture_sanity_invariants_def expected_update_def test_names load_simps)

lemma insert_test_passes:
  assumes "parse_uuid ''f26e6936-20be-4aac-80a2-19b6a62d5127'' = Inr u"
    and "parse_uuid ''f57647a1-c988-4e7c-9697-1158c946ef0c'' = Inr u'"
  shows "parse_insert_message parse_uuid fixture_bytes = Some ()"
  by (simp add: parse_insert_message_def test_names load_simps assms)

text \<open>The first bytes of the capture: a relation message with the namespace \<open>public\<close>.\<close>

lemma capture_head: "\<exists>rest. fixture_bytes =
    [82, 0, 0, 64, 1] @ [112, 117, 98, 108, 105, 99, 0] @ rest"
  by (simp add: fixture_bytes_def)

lemma tag_test_passes: "unknown_tag_errors fixture_bytes = Some ()"
proof -
  from capture_head obtain rest where bytes: "fixture_bytes = 82 # rest" by auto
  show ?thesis
    using unknown_tag_anywhere [of "tag CHR ''X''" "[]" rest]
    by (simp add: unknown_tag_errors_def bytes)
qed


lemma truncation_test_passes: "truncated_errors fixture_bytes = Some ()"
proof -
  from capture_head obtain rest where bytes: "fixture_bytes = 82 # rest" by auto
  have "parse_messages_loop (reader_at [] [82]) = Inl (Truncated ''relation id'')"
    by (subst parse_messages_loop.simps)
      (simp add: parse_message_def parse_relation_def and_then_def read_u8_first read_u32_def read_bytes_at byte_of_Char)
  then show ?thesis
    by (simp add: truncated_errors_def bytes byte_of_Char parse_pgoutput_messages_def new_reader_at)
qed

lemma utf8_test_passes: "invalid_utf8_errors fixture_bytes = Some ()"
proof -
  from capture_head obtain rest where
    bytes: "fixture_bytes = 82 # [0, 0, 64, 1] @ [112, 117, 98, 108, 105, 99, 0] @ rest" by auto
  have num: "read_u32 ctx (reader_at [82] ([0, 0, 64, 1] @ bs)) = Inr (16385, reader_at [82, 0, 0, 64, 1] bs)" for ctx bs
    by (simp add: read_u32_iff be_value_def)
  have "parse_messages_loop (reader_at [] (82 # [0, 0, 64, 1] @ [255, 117, 98, 108, 105, 99, 0] @ rest)) =
      Inl (InvalidUtf8 ''relation namespace'')"
    by (subst parse_messages_loop.simps)
      (simp add: parse_message_def parse_relation_def and_then_def read_u8_first num [simplified] read_cstring_at byte_of_Char from_utf8_def)
  then show ?thesis
    by (simp add: invalid_utf8_errors_def bytes byte_of_Char parse_pgoutput_messages_def new_reader_at read_u8_first num [simplified])
qed

end
