(* ===== verification/Spec2Isabelle.thy ===== *)
theory Spec2Isabelle
  imports Wal_Properties Room_Properties Host_Properties Pg_Errors Server_Main Load_System Index_Tests Hint_Tests
    Pg_Tests
begin

text \<open>
  Verification development for mini_graph, a server that lets the clients of a document know what
  changed in it. The program (paths below \<^verbatim>\<open>src/\<close> of the repository) has two sides that meet in
  the rooms actor.

  \<^bold>\<open>The WAL side.\<close> PostgreSQL streams its write-ahead log to a replication client, which hands
  pgoutput payloads and commits to the WAL reader (\<^verbatim>\<open>wal/replication.rs\<close>). The reader parses a payload
  (\<^verbatim>\<open>wal/byte_reader.rs\<close>, \<^verbatim>\<open>wal/pgoutput.rs\<close>), turns its messages into row-change events with a table
  of announced relations, derives invalidation hints from each event (\<^verbatim>\<open>wal/hint_generator.rs\<close>) and
  collects them for the transaction (\<^verbatim>\<open>wal/transaction.rs\<close>). At the commit it routes them to rooms
  (\<^verbatim>\<open>wal/router.rs\<close>), sends one invalidation per room through a sink (\<^verbatim>\<open>wal/sink.rs\<close>) and reports the
  position to the client.

  \<^bold>\<open>The live side.\<close> A WebSocket connection (\<^verbatim>\<open>websocket.rs\<close>) turns client messages into commands for
  the rooms actor (\<^verbatim>\<open>rooms.rs\<close>), which keeps the members of each room and copies a broadcast into
  their bounded channels. Both sides only ever \<open>try_send\<close>: a full channel is a counted drop.

  Around them: counters (\<^verbatim>\<open>metrics.rs\<close>), settings (\<^verbatim>\<open>postgres/config.rs\<close>, \<^verbatim>\<open>logging.rs\<close>), the setup of
  publication and slot (\<^verbatim>\<open>postgres/setup.rs\<close>), start-up (\<^verbatim>\<open>lib.rs\<close>, \<^verbatim>\<open>state.rs\<close>), the index the edge
  keeps from hints to subscriptions (\<^verbatim>\<open>edge/subscription_index.rs\<close>), a load test
  (\<^verbatim>\<open>bin/loadtest.rs\<close>) and a capture tool (\<^verbatim>\<open>bin/capture_pgoutput.rs\<close>).

  \<^bold>\<open>Theories, and what their lemmas show.\<close>

  \<^item> \<open>Mini_Prelude\<close>: machine integers, saturating arithmetic, the UTF-8 check, iteration orders of hash
    collections, the collections \<open>wire_simps\<close> and \<open>inv_intros\<close> and the shared lemmas.
  \<^item> \<open>Channel\<close>: tokio's bounded channels as the locale \<open>mpsc\<close>, inhabited by reference channels.
  \<^item> \<open>Byte_Reader\<close>: the cursor and its reading operations; the locale \<open>wire_format\<close> (a parser, the
    well-formed values, their encoding and what the parser returns) with counted lists as a sublocale.
    \<open>Pg_Output\<close>: the parser. \<open>Pg_Wire\<close>: the grammar, one interpretation of \<open>wire_format\<close> per nonterminal,
    and the equivalence of parser and grammar. \<open>Pg_Truncation\<close>: cut payloads. \<open>Pg_Errors\<close>: the texts of
    the errors. \<open>Pg_Fixture\<close> and \<open>Fixture_Rows\<close>: the payload captured from PostgreSQL under
    \<^verbatim>\<open>tests/fixtures\<close>, evaluated, and the row reading of the tests.
  \<^item> \<open>Wal_Types\<close>, \<open>Hint_Generator\<close>, \<open>Hint_Router\<close>, \<open>Pg_Convert\<close>: hints, tuples and events; the hints of
    an event against the documents a change touches; routing as a partition; the conversion with the
    relation table.
  \<^item> \<open>Sink\<close>: the trait as the locale \<open>invalidation_sink\<close>; the rooms sink is one for every channel that
    keeps the contract (a sublocale). \<open>Wal_Reader\<close>: one definition per branch of the loop's
    \<^verbatim>\<open>select!\<close>. \<open>Wal_Delivery\<close>: commits, runs and whole transactions. \<open>Wal_Typing\<close>: every string of the
    pipeline is UTF-8. \<open>Wal_Handle\<close>, \<open>Wal_Start\<close>: stopping
    the reader, starting it, and the capture tool.
  \<^item> \<open>Server_Types\<close>, \<open>Rooms\<close>, \<open>Session\<close>, \<open>Session_Rooms\<close>, \<open>Session_Cleanup\<close>: messages, the rooms actor, one
    connection from its first frame to its clean-up, what the commands of a connection do to the rooms,
    the answer to each frame, and what is left of a connection after it ended.
  \<^item> \<open>Server_System\<close>: the running server as the step relation \<open>server_step\<close> of its tasks and the
    \<open>reachable\<close> states. \<open>Server_Safety\<close>, \<open>Server_Bounds\<close>: their invariants, by induction over the steps.
    \<open>Server_Delivery\<close>: progress, from a commit to the members' channels, from a join to its answer and
    from the end of a connection to its clean-up.
    \<open>Server_Order\<close>: what a client received and what waits for it keep the order of the actor's history
    and its multiplicities. \<open>Server_Fifo\<close>: chat messages keep the order in which their sender said them.
    \<open>Server_Main\<close>: the start of the server, and that the invariants hold from it on.
  \<^item> \<open>Subscription_Index\<close> (refinement of a map from subscriptions to hints, locales \<open>hint_index\<close> and
    \<open>hash_order\<close>), \<open>Metrics\<close>, \<open>Pg_Config\<close>, \<open>Pg_Setup\<close>, \<open>Load_Test\<close>, \<open>Load_Report\<close>.
    \<open>Load_System\<close>: the tasks of the load test against the running server, from the payloads the producer
    writes to those a subscriber counts.
  \<^item> \<open>Test_Support\<close>, \<open>Index_Tests\<close>, \<open>Hint_Tests\<close>, \<open>Pg_Tests\<close>: the program's own unit and integration tests
    of the index, the hints, the router and the parser, translated and shown to pass on the model.
  \<^item> \<open>Wal_Properties\<close>, \<open>Room_Properties\<close>, \<open>Host_Properties\<close> and this theory state the properties, C1 to
    C40, each followed by an evaluation at a concrete input where it has hypotheses.

  \<^bold>\<open>How code becomes definitions.\<close> A struct is a record, an enum a datatype, \<open>u8\<close> to \<open>u64\<close> and \<open>i32\<close>,
  \<open>i64\<close> are words of that width, \<open>Result\<close> is a sum with the error on the left, a panic is \<open>None\<close>. A
  \<^verbatim>\<open>HashMap\<close> is a finite map and a \<^verbatim>\<open>HashSet\<close> a finite set; since their iteration order is
  unspecified, every loop over one takes the order as an argument and the properties quantify over
  it. Shared state (\<^verbatim>\<open>Arc\<close>, atomics, channels) is passed explicitly: a world \<open>'w\<close> that only the
  channel operations read and change. A loop over a channel or a stream is a recursion over the list
  of what it yields, a task of the server one step per stretch between two awaits; the state of the
  server also records what it has handled (commands, accepted clients, responders, frames, messages
  taken out of channels), which no step reads but to choose fresh names. The
  compare-and-exchange loop of \<open>saturating_fetch_add\<close> takes the list of what its attempts see, and
  \<open>None\<close> says it has not returned; C11 says when it has. The parser's loops are total functions with
  the rest of the input as measure. In the load test \<open>chk\<close> chooses the build with or without
  overflow checks; the accounting shows that neither overflows.

  \<^bold>\<open>Parameters.\<close> tokio's channels, JSON (\<^verbatim>\<open>serde\<close>), the replication and SQL clients, URL parsing, the
  histogram, \<^verbatim>\<open>sysinfo\<close> and the clocks are arguments; what is relied on is in the locales \<open>mpsc\<close>,
  \<open>session_channels\<close>, \<open>server_channels\<close>, \<open>start_channels\<close>, \<open>setup_database\<close> or a hypothesis. Each locale is interpreted,
  on reference channels or a reference database where the provider is not code of the repository.

  \<^bold>\<open>Not modelled.\<close> Log output; matching a request against the table of routes, static files, the
  upgrade to a WebSocket and serving (axum); the connection task tokio-postgres wants spawned; the pacing of the load test's interval
  and the formatting of its report; the browser page; an interleaving finer than between
  two awaits (tasks share only channels, atomics and one mutex, each held for one operation), as when
  a receive task that is aborted while it runs still reaches its next await after the leave was sent;
  the \<^verbatim>\<open>expect\<close> on the end of \<^verbatim>\<open>axum::serve\<close>; and
  weak memory; of the finer interleavings only those of the atomics (C11) are.
\<close>

section \<open>Concrete inputs\<close>

text \<open>
  The inputs at which the properties are evaluated: a clock and sorted iteration orders, a rooms
  handle, the reference channels, and the captured payload as the only payload of a transaction.
\<close>

definition capture_env :: commit_env where
  "capture_env = \<lparr>ce_now = 1700000000000, ce_hint_order = sorted_list_of_fset,
    ce_room_order = sorted_list_of_fset\<rparr>"

definition demo_sink :: "unit rooms_invalidation_sink" where
  "demo_sink = \<lparr>sink_rooms = \<lparr>handle_tx = ()\<rparr>\<rparr>"

definition demo_capacity :: "unit \<Rightarrow> nat" where
  "demo_capacity h = rooms_channel_capacity"

definition demo_inputs :: "reader_input list" where
  "demo_inputs = [SlotTick PollTimedOut, ReplRecv capture_env (Inr (Some (XLogData fixture_bytes))),
    ReplRecv capture_env (Inr (Some (KeepAlive 7 False)))]"

definition demo_reader :: "(unit, (nat, nat) room_command) channels wal_reader" where
  "demo_reader = reader_start True new_metrics open_channels"

lemma demo_orders: "orders_ok capture_env"
  by (simp add: capture_env_def orders_ok_def iteration_order_sorted)

lemma demo_converted:
  "convert_messages (wal_relations demo_reader) (run_messages demo_inputs) =
    (fixture_events, False, fixture_relations)"
  by (simp add: demo_reader_def reader_start_def demo_inputs_def run_messages_def fixture_parsed
      fixture_converted)

section \<open>From a transaction to the rooms\<close>

text \<open>
  C1. One transaction, end to end: the reader receives a begin, any payloads with keep-alives and
  slot polls between them in any order, and the commit. If no relation changed its schema and the
  open command channel has space for one command per touched document, the rooms actor is sent
  exactly one invalidation per document touched by a change with the columns it needs, carrying
  exactly the keys of that document's hints, once each, with the commit's timestamp; the position is
  reported once, nothing is counted as dropped and the transaction is over.
\<close>

theorem transaction_exactly_once:
  assumes "mpsc cmd_send queue closed capacity" and "orders_ok env" and "list_all quiet_input inputs"
    and "convert_messages (wal_relations s) (run_messages inputs) = (evs, False, r)"
    and "\<not> closed (wal_world s) (handle_tx (sink_rooms sink))"
    and "length (queue (wal_world s) (handle_tx (sink_rooms sink))) +
      card (hint_value ` transaction_hints evs) \<le> capacity (handle_tx (sink_rooms sink))"
  shows "\<exists>s' entries.
    reader_run (rooms_send_invalidation cmd_send sink)
      (ReplRecv env0 (Inr (Some Begin)) # inputs @ [ReplRecv env (Inr (Some (Commit end_lsn)))]) s
      = (Continue, s')
    \<and> exact_invalidations (transaction_hints evs) entries
    \<and> queue (wal_world s') (handle_tx (sink_rooms sink)) =
        queue (wal_world s) (handle_tx (sink_rooms sink)) @ broadcasts (ce_now env) entries
    \<and> wal_calls s' = wal_calls s @ [UpdateAppliedLsn end_lsn]
    \<and> wal_events_dropped_total (wal_metrics s') = wal_events_dropped_total (wal_metrics s)
    \<and> wal_transaction s' = None \<and> wal_relations s' = r"
proof -
  note cmds = command_channel.intro [OF assms(1)]
  from transaction_run [OF assms(3,4,2)] obtain s1 where
    run: "reader_run (rooms_send_invalidation cmd_send sink)
      (ReplRecv env0 (Inr (Some Begin)) # inputs @ [ReplRecv env (Inr (Some (Commit end_lsn)))]) s
      = (Continue, handle_commit (rooms_send_invalidation cmd_send sink) env end_lsn s1)"
    and s1: "wal_world s1 = wal_world s" "wal_relations s1 = r" "wal_calls s1 = wal_calls s"
      "wal_events_dropped_total (wal_metrics s1) = wal_events_dropped_total (wal_metrics s)"
    and exact: "exact_invalidations (transaction_hints evs) (commit_entries env (wal_transaction s1))"
    by metis
  have "length (queue (wal_world s1) (handle_tx (sink_rooms sink))) +
      length (commit_entries env (wal_transaction s1)) \<le> capacity (handle_tx (sink_rooms sink))"
    using assms(6) by (simp add: s1 exact_invalidations_length [OF exact])
  note delivered = command_channel.transaction_delivered [OF cmds _ this, of end_lsn]
  show ?thesis
    using run exact delivered assms(5)
    by (intro exI [of _ "handle_commit (rooms_send_invalidation cmd_send sink) env end_lsn s1"]
        exI [of _ "commit_entries env (wal_transaction s1)"]) (simp add: s1)
qed

theorem transaction_exactly_once_witness:
  "\<exists>s' entries.
    reader_run (rooms_send_invalidation (chan_try_send demo_capacity) demo_sink)
      (ReplRecv capture_env (Inr (Some Begin)) # demo_inputs @
        [ReplRecv capture_env (Inr (Some (Commit 99)))]) demo_reader = (Continue, s')
    \<and> exact_invalidations {QueryHint ''comments'' ''document_id'' ''doc_fixture_pgoutput''} entries
    \<and> chan_queue (wal_world s') () = broadcasts 1700000000000 entries
    \<and> wal_calls s' = [UpdateAppliedLsn 99]
    \<and> wal_events_dropped_total (wal_metrics s') = 0
    \<and> wal_transaction s' = None \<and> wal_relations s' = fixture_relations"
proof -
  have quiet: "list_all quiet_input demo_inputs" by (simp add: demo_inputs_def)
  have world: "\<not> chan_closed (wal_world demo_reader) (handle_tx (sink_rooms demo_sink))"
    "chan_queue (wal_world demo_reader) (handle_tx (sink_rooms demo_sink)) = []"
    "wal_calls demo_reader = []" "wal_events_dropped_total (wal_metrics demo_reader) = 0"
    by (simp_all add: demo_reader_def reader_start_def open_channels_def new_metrics_def)
  have space: "length (chan_queue (wal_world demo_reader) (handle_tx (sink_rooms demo_sink))) +
      card (hint_value ` transaction_hints fixture_events)
      \<le> demo_capacity (handle_tx (sink_rooms demo_sink))"
    using world by (simp add: fixture_hints demo_capacity_def rooms_channel_capacity_def)
  show ?thesis
    using transaction_exactly_once [OF ref_chan.mpsc_axioms [of demo_capacity],
        OF demo_orders quiet demo_converted world(1) space, of capture_env 99]
    unfolding world fixture_hints by (simp add: capture_env_def)
qed

text \<open>
  C5. At most once, in any run: over any sink that keeps the contract of the trait, whatever the
  inputs (payloads that do not parse, transactions without begin, failing sends), the invalidations
  accepted by a run are one group per commit at most; in a group no room occurs twice, and every
  invalidation has a nonempty list of distinct keys, all of its own room's document.
\<close>

theorem run_groups:
  assumes "invalidation_sink send accepted" and "list_all input_orders_ok inputs"
  shows "\<exists>groups. accepted (wal_world (snd (reader_run send inputs s))) =
      accepted (wal_world s) @ concat groups
    \<and> length groups \<le> length (commit_lsns inputs)
    \<and> (\<forall>g \<in> set groups. distinct (map fst g) \<and> list_all invalidation_ok g)"
  by (rule invalidation_sink.run_accepted [OF assms])

theorem run_groups_witness:
  "\<exists>groups. queued_invalidations (chan_queue (wal_world (snd (reader_run
      (rooms_send_invalidation (chan_try_send demo_capacity) demo_sink)
      (demo_inputs @ [ReplRecv capture_env (Inr (Some (Commit 5)))]) demo_reader))) ()) = concat groups
    \<and> length groups \<le> 1 \<and> (\<forall>g \<in> set groups. distinct (map fst g) \<and> list_all invalidation_ok g)"
proof -
  have orders: "list_all input_orders_ok (demo_inputs @ [ReplRecv capture_env (Inr (Some (Commit 5)))])"
    by (simp add: demo_inputs_def demo_orders)
  have handle: "handle_tx (sink_rooms demo_sink) = ()" by simp
  have start: "queued_invalidations (chan_queue (wal_world demo_reader) ()) = []"
    by (simp add: demo_reader_def reader_start_def open_channels_def queued_invalidations_def)
  have lsns: "length (commit_lsns (demo_inputs @ [ReplRecv capture_env (Inr (Some (Commit 5)))])) = 1"
    by (simp add: demo_inputs_def)
  show ?thesis
    using run_groups [OF ref_commands.sink.invalidation_sink_axioms orders, of demo_capacity demo_sink demo_reader]
    unfolding handle start lsns by simp
qed

text \<open>
  C6. What the reader reports to the replication client: a prefix of the inputs was handled, the
  applied position was reported exactly once per commit of that prefix and in its order, whatever
  happened to the deliveries; the client was told to stop only by a command, as the last call, and
  while the reader waits the prefix is all of the input.
\<close>

theorem reported_positions:
  "\<exists>n \<le> length inputs. \<exists>stops.
    wal_calls (snd (reader_run send inputs s)) =
      wal_calls s @ map UpdateAppliedLsn (commit_lsns (take n inputs)) @ stops
    \<and> (stops = [] \<or> stops = [ReplStop] \<and> 0 < n \<and> (\<exists>cmd. inputs ! (n - 1) = Command cmd))
    \<and> (fst (reader_run send inputs s) = Continue \<longrightarrow> n = length inputs \<and> stops = [])"
  by (rule reader_run_calls)

theorem reported_positions_witness:
  "\<exists>n \<le> 2. \<exists>stops.
    wal_calls (snd (reader_run (\<lambda>d hs t w. (Inr (), w))
      [ReplRecv capture_env (Inr (Some (Commit 3))), Command None] (reader_start False new_metrics ()))) =
      map UpdateAppliedLsn (commit_lsns (take n [ReplRecv capture_env (Inr (Some (Commit 3))), Command None])) @ stops"
  using reported_positions [of "[ReplRecv capture_env (Inr (Some (Commit 3))), Command None]"
      "\<lambda>d hs t w. (Inr (), w)" "reader_start False new_metrics ()"]
  by (auto simp: reader_start_def simp del: reader_run.simps)

section \<open>The running server\<close>

text \<open>
  A run for the concrete instances: a client connects, joins \<open>a\<close>, the actor handles the join, the
  answer arrives, the client says \<open>hi\<close>, and the actor broadcasts it.
\<close>

type_synonym demo_server = "(unit, unit, nat, nat, (unit, nat, nat) ref_world) server"

definition demo_ops :: "(unit, nat, nat, (unit, nat, nat) ref_world) channel_ops" where
  "demo_ops = ref_ops (\<lambda>_. rooms_channel_capacity) (\<lambda>_. client_channel_capacity) demo_json"

definition demo_start :: demo_server where
  "demo_start = server_start \<lparr>handle_tx = ()\<rparr> \<lparr>reader_tx = ()\<rparr> True demo_world"

text \<open>The state of the run: pending commands, the client's queue, rooms, acks, session, history, frames.\<close>

definition demo_srv ::
    "(nat, nat) room_command list \<Rightarrow> server_message list \<Rightarrow> (document_id, nat clients) fmap \<Rightarrow> nat list \<Rightarrow>
      document_id option \<Rightarrow> (nat \<times> document_id) option \<Rightarrow> (nat, nat) room_command list \<Rightarrow> string list \<Rightarrow> demo_server" where
  "demo_srv cmds msgs rooms acks room waiting history frames =
    \<lparr>srv_app = demo_state,
     srv_world = (\<lparr>chan_queue = (\<lambda>_. cmds), chan_closed = (\<lambda>_. False)\<rparr>,
       \<lparr>chan_queue = (\<lambda>_. [])(0 := msgs), chan_closed = (\<lambda>_. False)\<rparr>),
     srv_rooms = rooms, srv_acks = acks,
     srv_sessions = [''me'' \<mapsto> (\<lparr>session_client_id = ''me'', session_current_room = room, session_tx = 0\<rparr>, waiting)],
     srv_reader = reader_start True new_metrics demo_world, srv_flow = Continue,
     srv_history = history, srv_clients = [(''me'', 0)], srv_responders = (if frames = [] then [] else [1]),
     srv_received = [], srv_frames = map (Pair ''me'') frames\<rparr>"

definition demo_server :: demo_server where
  "demo_server = demo_srv [] [Joined ''me'' ''a'', Message ''me'' ''hi'' 9] (fmap_of_list [(''a'', [(''me'', 0)])]) [1]
    (Some ''a'') None [RoomJoin ''a'' ''me'' 0 1, RoomBroadcast ''a'' (Message ''me'' ''hi'' 9)]
    [''ja'', ''-hi'']"

lemma unit_upd: "(f :: unit \<Rightarrow> 'a)(u := x) = (\<lambda>_. x)"
  by (rule ext) simp

lemmas demo_turn_defs = demo_srv_def demo_ops_def ref_ops_def frame_turn_def join_send_eq answer_send_def
  rooms_turn_def chan_recv_def set_metrics_def answer_turn_def join_finish_def demo_call_def demo_state_def
  new_app_state_def handle_text_def send_to_room_eq on_fst_def on_snd_def chan_try_send_def
  rooms_channel_capacity_def client_channel_capacity_def Let_def new_message_def unit_upd entry_list_def

lemma demo_accepts: "accept_turn ''me'' 0 demo_start = Some (demo_srv [] [] fmempty [] None None [] [])"
  by (simp add: accept_turn_def demo_start_def server_start_def demo_srv_def demo_state_def new_session_def
      demo_world_def open_channels_def fun_eq_iff)

lemma demo_turns:
  "frame_turn demo_ops ''me'' (demo_call 1) ''ja'' (demo_srv [] [] fmempty [] None None [] []) =
    Some (demo_srv [RoomJoin ''a'' ''me'' 0 1] [] fmempty [] None (Some (1, ''a'')) [] [''ja''])"
  "rooms_turn demo_ops (demo_srv [RoomJoin ''a'' ''me'' 0 1] [] fmempty [] None (Some (1, ''a'')) [] [''ja'']) =
    Some (demo_srv [] [] (fmap_of_list [(''a'', [(''me'', 0)])]) [1] None (Some (1, ''a'')) [RoomJoin ''a'' ''me'' 0 1] [''ja''])"
  "answer_turn demo_ops ''me'' Acked (demo_srv [] [] (fmap_of_list [(''a'', [(''me'', 0)])]) [1] None
      (Some (1, ''a'')) [RoomJoin ''a'' ''me'' 0 1] [''ja'']) =
    Some (demo_srv [] [Joined ''me'' ''a''] (fmap_of_list [(''a'', [(''me'', 0)])]) [1] (Some ''a'') None
      [RoomJoin ''a'' ''me'' 0 1] [''ja''])"
  "frame_turn demo_ops ''me'' (demo_call 2) ''-hi'' (demo_srv [] [Joined ''me'' ''a'']
      (fmap_of_list [(''a'', [(''me'', 0)])]) [1] (Some ''a'') None [RoomJoin ''a'' ''me'' 0 1] [''ja'']) =
    Some (demo_srv [RoomBroadcast ''a'' (Message ''me'' ''hi'' 9)] [Joined ''me'' ''a''] (fmap_of_list [(''a'', [(''me'', 0)])])
      [1] (Some ''a'') None [RoomJoin ''a'' ''me'' 0 1] [''ja'', ''-hi''])"
  "rooms_turn demo_ops (demo_srv [RoomBroadcast ''a'' (Message ''me'' ''hi'' 9)] [Joined ''me'' ''a'']
      (fmap_of_list [(''a'', [(''me'', 0)])]) [1] (Some ''a'') None [RoomJoin ''a'' ''me'' 0 1] [''ja'', ''-hi'']) = Some demo_server"
  by (simp_all add: demo_turn_defs demo_server_def)

lemma demo_reachable: "reachable demo_ops demo_start demo_server"
proof -
  note steps = accepted_client [OF demo_accepts] received_frame [OF demo_turns(1)] rooms_actor [OF demo_turns(2)]
    answered_join [OF demo_turns(3)] received_frame [OF demo_turns(4)] rooms_actor [OF demo_turns(5)]
  show ?thesis
    by (rule reach_step [OF reach_step [OF reach_step [OF reach_step [OF reach_step [OF reach_step
      [OF reach_start steps(1)] steps(2)] steps(3)] steps(4)] steps(5)] steps(6)])
qed

lemma demo_queue:
  "chan_queue (snd (srv_world demo_server)) 0 = [Joined ''me'' ''a'', Message ''me'' ''hi'' 9]"
  by (simp add: demo_server_def demo_srv_def)

lemma demo_received: "srv_received demo_server = []"
  by (simp add: demo_server_def demo_srv_def)

lemma demo_world_empty: "chan_queue (fst demo_world) h = []" "chan_queue (snd demo_world) tx = []"
  by (simp_all add: demo_world_def open_channels_def)

lemma demo_channels:
  "server_channels demo_ops (\<lambda>w. chan_queue (fst w)) (\<lambda>w. chan_closed (fst w)) (\<lambda>_. rooms_channel_capacity)
    (\<lambda>w. chan_queue (snd w)) (\<lambda>w. chan_closed (snd w)) (\<lambda>_. client_channel_capacity)"
  unfolding demo_ops_def by (rule ref_server.server_channels_axioms)

lemmas demo_reached = demo_reachable [unfolded demo_start_def]

text \<open>
  C2. No client is ever sent what is not for it. In every reachable state of the server, whatever the
  interleaving of connections, the rooms actor and the WAL reader, a message that a client received or
  that waits for it is an error, the acknowledgement of a join of its own, or was broadcast to a room this very client
  joined; a chat message then carries the id of an accepted client, and an invalidation only distinct
  keys of hints of that very document.
\<close>

theorem clients_get_their_rooms:
  assumes "server_channels ops cmd_queue cmd_closed cmd_capacity client_queue client_closed client_capacity"
    and "\<And>h. cmd_queue w h = []" "\<And>tx. client_queue w tx = []"
    and "reachable ops (server_start rooms wal_reader has_sql w) s"
    and "(cid, tx) \<in> set (srv_clients s)" and "m \<in> set (inbox client_queue s tx)"
  shows "case m of
      ErrorMessage e \<Rightarrow> True
    | Joined joiner d \<Rightarrow> joiner = cid \<and> (\<exists>r. RoomJoin d cid tx r \<in> set (srv_history s))
    | Message sender body t \<Rightarrow> sender \<in> fst ` set (srv_clients s) \<and>
        (\<exists>d r. RoomJoin d cid tx r \<in> set (srv_history s) \<and> RoomBroadcast d m \<in> set (srv_history s))
    | Invalidation ks t \<Rightarrow>
        (\<exists>d r. RoomJoin d cid tx r \<in> set (srv_history s) \<and> RoomBroadcast d m \<in> set (srv_history s)
          \<and> invalidation_ok (d, ks, t))"
proof -
  have ok: "server_ok cmd_queue client_queue s"
    using server_channels.reachable_ok [OF assms(1,4)] server_ok_start [of cmd_queue w client_queue, OF assms(2,3)] by blast
  then have just: "message_ok (srv_history s) tx m"
    using assms(6) by (auto simp: server_ok_def Let_def list_all_iff)
  have commands: "command_ok (srv_clients s) (srv_responders s) c" if "c \<in> set (srv_history s)" for c
    using ok that by (auto simp: server_ok_def Let_def list_all_iff)
  have own: "joiner = cid" if "RoomJoin d joiner tx r \<in> set (srv_history s)" for d joiner r
    using commands [OF that] clients_ok_channel [of "srv_clients s" joiner tx cid] ok assms(5)
    by (simp add: server_ok_def Let_def)
  show ?thesis
  proof (cases m)
    case (Joined joiner d)
    with just own show ?thesis by auto
  next
    case (Message sender body t)
    with just obtain d joiner r where join: "RoomJoin d joiner tx r \<in> set (srv_history s)"
      and sent: "RoomBroadcast d (Message sender body t) \<in> set (srv_history s)" by auto
    from commands [OF sent] have "sender \<in> fst ` set (srv_clients s)" by (auto simp: new_message_def)
    with join sent own [OF join] show ?thesis using Message by auto
  next
    case (Invalidation ks t)
    with just obtain d joiner r where join: "RoomJoin d joiner tx r \<in> set (srv_history s)"
      and sent: "RoomBroadcast d (Invalidation ks t) \<in> set (srv_history s)" by auto
    from commands [OF sent] have "invalidation_ok (d, ks, t)" by (auto simp: new_message_def)
    with join sent own [OF join] show ?thesis using Invalidation by auto
  qed simp
qed

theorem clients_get_their_rooms_witness:
  "''me'' \<in> fst ` set (srv_clients demo_server) \<and>
    (\<exists>d r. RoomJoin d ''me'' 0 r \<in> set (srv_history demo_server)
      \<and> RoomBroadcast d (Message ''me'' ''hi'' 9) \<in> set (srv_history demo_server))"
proof -
  have "(''me'', 0) \<in> set (srv_clients demo_server)" by (simp add: demo_server_def demo_srv_def)
  from clients_get_their_rooms [OF demo_channels demo_world_empty demo_reached this,
      of "Message ''me'' ''hi'' 9"]
  show ?thesis by (simp add: inbox_def demo_queue)
qed

text \<open>
  C12. Sessions and rooms agree with what the actor has done: in every reachable state no two
  connections share an id or a channel; a session carries its own and is in a room only if the actor has handled a join of that room with its channel; every
  member of a room has joined it; no room is empty; and each handled join was acknowledged once.
\<close>

theorem sessions_agree_with_rooms:
  assumes "server_channels ops cmd_queue cmd_closed cmd_capacity client_queue client_closed client_capacity"
    and "\<And>h. cmd_queue w h = []" "\<And>tx. client_queue w tx = []"
    and "reachable ops (server_start rooms wal_reader has_sql w) s"
  shows "(\<forall>cid session waiting. srv_sessions s cid = Some (session, waiting) \<longrightarrow>
      session_client_id session = cid \<and> (cid, session_tx session) \<in> set (srv_clients s)
      \<and> (\<forall>d. session_current_room session = Some d \<longrightarrow>
        (\<exists>r. RoomJoin d cid (session_tx session) r \<in> set (srv_history s))))
    \<and> (\<forall>d cid tx. (cid, tx) \<in> set (entry_list (srv_rooms s) d) \<longrightarrow> (\<exists>r. RoomJoin d cid tx r \<in> set (srv_history s)))
    \<and> (\<forall>d. fmlookup (srv_rooms s) d \<noteq> Some [])
    \<and> srv_acks s = concat (map ack_of (srv_history s))
    \<and> distinct (map fst (srv_clients s)) \<and> distinct (map snd (srv_clients s))"
proof -
  have "server_ok cmd_queue client_queue s"
    using server_channels.reachable_ok [OF assms(1,4)] server_ok_start [of cmd_queue w client_queue, OF assms(2,3)] by blast
  then show ?thesis by (simp add: server_ok_def Let_def members_ok_def session_ok_def clients_ok_def)
qed

theorem sessions_agree_with_rooms_witness:
  "\<exists>r. RoomJoin ''a'' ''me'' 0 r \<in> set (srv_history demo_server)"
proof -
  have "srv_sessions demo_server ''me'' = Some (\<lparr>session_client_id = ''me'',
      session_current_room = Some ''a'', session_tx = 0\<rparr>, None)"
    by (simp add: demo_server_def demo_srv_def)
  with conjunct1 [OF sessions_agree_with_rooms [OF demo_channels demo_world_empty demo_reached]]
  show ?thesis by fastforce
qed

text \<open>
  C19. The server comes up right or not at all: it exits with 1 exactly when the setup of the database
  fails, panics exactly when only the port cannot be bound, and otherwise serves from a state from
  which every run keeps the invariant of the rooms, sessions, commands and queues, with a command
  channel that never holds more than 256 commands; the WAL reader runs exactly when it could connect.
\<close>

theorem server_comes_up:
  fixes mach :: "('h, 'c, 'e, 'db, 'w) machine" and ops :: "('h, 'tx, 'r, 'w) channel_ops"
  assumes "start_channels ops cmd_queue cmd_closed cmd_capacity client_queue client_closed client_capacity
      (mach_cmd_channel mach) (mach_reader_channel mach)"
    and "\<And>h. cmd_queue w h = []" "\<And>tx. client_queue w tx = []"
    and "out = (run_server mach w :: ('h, 'c, 'tx, 'r, 'w) server_outcome)"
  shows "(out = ExitedWith 1 \<longleftrightarrow> (\<exists>e. mach_setup mach (from_env (mach_env mach)) = Inl e))
    \<and> ((\<exists>msg. out = Panicked msg) \<longleftrightarrow>
        (\<exists>u. mach_setup mach (from_env (mach_env mach)) = Inr u) \<and> (\<exists>e. mach_bind mach ''0.0.0.0:3030'' = Inl e))
    \<and> (\<forall>routes s0 s. out = Serving routes s0 \<longrightarrow> reachable ops s0 s \<longrightarrow>
        server_ok cmd_queue client_queue s
        \<and> length (cmd_queue (srv_world s) (handle_tx (app_rooms (srv_app s0)))) \<le> 256
        \<and> (srv_flow s0 = Continue \<longleftrightarrow> reader_connect (mach_url_parse mach) (mach_repl_connect mach)
            (mach_sql_connect mach) (from_env (mach_env mach)) new_metrics (srv_world s0) \<noteq> None))"
proof (intro conjI allI impI)
  note chans = start_channels.axioms(1) [OF assms(1)]
  show "out = ExitedWith 1 \<longleftrightarrow> (\<exists>e. mach_setup mach (from_env (mach_env mach)) = Inl e)"
    and "(\<exists>msg. out = Panicked msg) \<longleftrightarrow>
      (\<exists>u. mach_setup mach (from_env (mach_env mach)) = Inr u) \<and> (\<exists>e. mach_bind mach ''0.0.0.0:3030'' = Inl e)"
    unfolding assms(4) by (auto simp: run_server_def Let_def split: sum.splits prod.splits)
  fix routes s0 s
  assume out: "out = Serving routes s0" and reach: "reachable ops s0 s"
  note start = start_channels.served [OF assms(1) refl refl assms(2,3) out [unfolded assms(4)]]
  show "server_ok cmd_queue client_queue s"
    by (rule start) (rule server_channels.reachable_ok [OF chans reach])
  show "length (cmd_queue (srv_world s) (handle_tx (app_rooms (srv_app s0)))) \<le> 256"
  proof (rule start)
    assume bounded: "server_channels.bounded cmd_queue cmd_capacity client_queue client_capacity (srv_world s0)"
      and cap: "cmd_capacity (handle_tx (app_rooms (srv_app s0))) = rooms_channel_capacity"
    from server_channels.reachable_bounded [OF chans reach bounded] cap show ?thesis
      by (metis rooms_channel_capacity_def server_channels.bounded_def [OF chans])
  qed
  show "srv_flow s0 = Continue \<longleftrightarrow> reader_connect (mach_url_parse mach) (mach_repl_connect mach)
      (mach_sql_connect mach) (from_env (mach_env mach)) new_metrics (srv_world s0) \<noteq> None"
    by (rule start)
qed

text \<open>A machine without variables in its environment, with a database and a free port.\<close>

definition demo_machine :: "(nat, unit, db_error, ref_db, (nat, nat, nat) ref_world) machine" where
  "demo_machine = \<lparr>mach_env = (\<lambda>_. None), mach_db = set_up_db, mach_tokio_connect = (\<lambda>_ db. (Inr (), db)),
    mach_as_db_error = Some, mach_execute = ref_execute, mach_query_opt = ref_query_opt,
    mach_query_one = ref_query_one, mach_cmd_channel = ref_channel,
    mach_reader_channel = (\<lambda>n w. ((), w)), mach_url_parse = (\<lambda>_. Inl (coded_error ''url'')), mach_repl_connect = (\<lambda>_. Inr ()),
    mach_sql_connect = (\<lambda>_. Inr ()), mach_bind = (\<lambda>_. Inr ())\<rparr>"

lemma demo_machine_setup: "mach_setup demo_machine config = Inr ()" if "config = from_env (mach_env demo_machine)"
  using ref_execute_table nth_mem [of _ table_queries]
  by (simp add: that mach_setup_def demo_machine_def setup_postgres_def connect_def run_setup_queries_def
      and_continue_def exec_def ensure_publication_def ref_execute_publication ensure_replication_slot_def
      ref_query_opt_def ref_query_one_def Let_def table_queries_def set_up_db_def from_env_def env_or_def
      slot_name_def ref_named_def ref_lower_def ref_upper_def)

theorem server_comes_up_witness:
  "\<exists>s0 :: (nat, unit, nat, nat, (nat, nat, nat) ref_world) server.
    run_server demo_machine (open_channels, open_channels) = Serving router s0 \<and> srv_flow s0 = Break
    \<and> server_ok (\<lambda>w. chan_queue (fst w)) (\<lambda>w. chan_queue (snd w)) s0"
proof -
  let ?out = "run_server demo_machine (open_channels, open_channels) ::
    (nat, unit, nat, nat, (nat, nat, nat) ref_world) server_outcome"
  obtain s0 where s0: "?out = Serving router s0" "srv_flow s0 = Break"
    by (simp add: run_server_def demo_machine_setup, simp add: demo_machine_def rooms_handle_start_def wal_reader_handle_start_def
        ref_channel_def reader_connect_def connection_info_of_def spawn_reader_def Let_def)
  have chans: "start_channels (ref_ops (\<lambda>n. n) (\<lambda>_. client_channel_capacity) demo_json)
      (\<lambda>w. chan_queue (fst w)) (\<lambda>w. chan_closed (fst w)) (\<lambda>n. n) (\<lambda>w. chan_queue (snd w))
      (\<lambda>w. chan_closed (snd w)) (\<lambda>_. client_channel_capacity)
      (mach_cmd_channel demo_machine) (mach_reader_channel demo_machine)"
    unfolding demo_machine_def machine.simps by (rule ref_start.start_channels_axioms)
  have empty: "chan_queue (fst (open_channels, open_channels)) h = []"
    "chan_queue (snd (open_channels, open_channels)) tx = []" for h tx
    by (simp_all add: open_channels_def)
  from server_comes_up [OF chans empty refl] s0 reach_start
  have "server_ok (\<lambda>w. chan_queue (fst w)) (\<lambda>w. chan_queue (snd w)) s0" by blast
  with s0 show ?thesis by blast
qed

section \<open>Progress\<close>

text \<open>
  C3. What a transaction changed gets to who is looking: in any reachable state with a transaction that
  touched the room of hint \<open>h\<close>, a commit and the turns of the actor it causes put one invalidation into
  the channel of each member of the room, with exactly the keys of the room's hints, once each. The
  command channel is open, empty and has space for one command per touched document; the member's
  channel has space, and is listed once and in no other room (joining twice or joining a second room is
  what C33 and C31 are about).
\<close>

theorem change_reaches_member:
  assumes "server_channels ops cmd_queue cmd_closed cmd_capacity client_queue client_closed client_capacity"
    and "\<And>h. cmd_queue w h = []" "\<And>tx. client_queue w tx = []"
    and "reachable ops (server_start rooms wal_reader has_sql w) s"
    and "srv_flow s = Continue" "wal_transaction (srv_reader s) = Some b" "h |\<in>| tx_hints b"
    and "orders_ok env" and "commands = handle_tx (app_rooms (srv_app s))"
    and "\<not> cmd_closed (srv_world s) commands" "cmd_queue (srv_world s) commands = []"
    and "card (hint_value ` fset (tx_hints b)) \<le> cmd_capacity commands"
    and "tx \<in> snd ` set (entry_list (srv_rooms s) (hint_value h))"
    and "distinct (map snd (entry_list (srv_rooms s) (hint_value h)))"
    and "\<forall>d. d \<noteq> hint_value h \<longrightarrow> tx \<notin> snd ` set (entry_list (srv_rooms s) d)"
    and "\<not> client_closed (srv_world s) tx" "length (client_queue (srv_world s) tx) < client_capacity tx"
  shows "\<exists>s1 s' ks. reader_turn ops (ReplRecv env (Inr (Some (Commit lsn)))) s = Some s1
    \<and> rooms_turns ops (length (cmd_queue (srv_world s1) (handle_tx (app_rooms (srv_app s1))))) s1 = Some s'
    \<and> cmd_queue (srv_world s') (handle_tx (app_rooms (srv_app s'))) = []
    \<and> client_queue (srv_world s') tx = client_queue (srv_world s) tx @ [Invalidation ks (ce_now env)]
    \<and> distinct ks \<and> set ks = to_key ` {h'. h' |\<in>| tx_hints b \<and> hint_value h' = hint_value h}"
proof -
  note chans = server_channels.axioms(1) [OF assms(1), THEN session_channels.axioms(2)]
  have "server_ok cmd_queue client_queue s"
    using server_channels.reachable_ok [OF assms(1,4)] server_ok_start [of cmd_queue w client_queue, OF assms(2,3)] by blast
  moreover have "mpsc.accepts client_queue client_closed client_capacity (srv_world s) tx"
    using assms(16,17) by (simp add: mpsc.accepts_def [OF chans])
  ultimately show ?thesis
    using server_channels.change_delivered [OF assms(1) _ assms(5,6,7,8) _ _ _ assms(13,14,15), of lsn] assms(9-12)
    by blast
qed

text \<open>A client in the room of the captured transaction, and the reader after its payload.\<close>

definition demo_doc :: document_id where
  "demo_doc = ''doc_fixture_pgoutput''"

definition demo_member :: demo_server where
  "demo_member = demo_srv [] [Joined ''me'' demo_doc] (fmap_of_list [(demo_doc, [(''me'', 0)])]) [1]
    (Some demo_doc) None [RoomJoin demo_doc ''me'' 0 1] [CHR ''j'' # demo_doc]"

lemma demo_member_turns:
  "frame_turn demo_ops ''me'' (demo_call 1) (CHR ''j'' # demo_doc) (demo_srv [] [] fmempty [] None None [] []) =
    Some (demo_srv [RoomJoin demo_doc ''me'' 0 1] [] fmempty [] None (Some (1, demo_doc)) [] [CHR ''j'' # demo_doc])"
  "rooms_turn demo_ops (demo_srv [RoomJoin demo_doc ''me'' 0 1] [] fmempty [] None (Some (1, demo_doc)) [] [CHR ''j'' # demo_doc]) =
    Some (demo_srv [] [] (fmap_of_list [(demo_doc, [(''me'', 0)])]) [1] None (Some (1, demo_doc))
      [RoomJoin demo_doc ''me'' 0 1] [CHR ''j'' # demo_doc])"
  "answer_turn demo_ops ''me'' Acked (demo_srv [] [] (fmap_of_list [(demo_doc, [(''me'', 0)])]) [1] None
      (Some (1, demo_doc)) [RoomJoin demo_doc ''me'' 0 1] [CHR ''j'' # demo_doc]) = Some demo_member"
  by (simp_all add: demo_turn_defs demo_member_def)

lemma demo_waiting:
  "reachable demo_ops demo_start
    (demo_srv [RoomJoin demo_doc ''me'' 0 1] [] fmempty [] None (Some (1, demo_doc)) [] [CHR ''j'' # demo_doc])"
  by (rule reach_step [OF reach_step [OF reach_start accepted_client [OF demo_accepts]]
        received_frame [OF demo_member_turns(1)]])

definition demo_open :: demo_server where
  "demo_open = (let rd = after_events fixture_events fixture_relations
      ((srv_reader demo_member)\<lparr>wal_transaction := Some empty_buffer\<rparr>)
    in set_metrics (wal_metrics rd) (demo_member\<lparr>srv_reader := rd\<lparr>wal_world := srv_world demo_member\<rparr>\<rparr>))"

lemma demo_opens:
  "reachable demo_ops demo_start demo_open"
proof -
  let ?s1 = "demo_member\<lparr>srv_reader := (srv_reader demo_member)\<lparr>wal_transaction := Some empty_buffer,
      wal_world := srv_world demo_member\<rparr>\<rparr>"
  have begin_turn: "reader_turn demo_ops (ReplRecv capture_env (Inr (Some Begin))) demo_member = Some ?s1"
    by (simp add: reader_turn_def demo_member_def demo_srv_def reader_start_def set_metrics_def
        demo_state_def new_app_state_def)
  have data_turn: "reader_turn demo_ops (ReplRecv capture_env (Inr (Some (XLogData fixture_bytes)))) ?s1 =
      Some demo_open"
    by (simp add: reader_turn_def demo_open_def demo_member_def demo_srv_def reader_start_def set_metrics_def
        demo_state_def new_app_state_def handle_xlog_data_def fixture_parsed messages_loop_eq fixture_converted
        after_events_def)
  note steps = rooms_actor [OF demo_member_turns(2)] answered_join [OF demo_member_turns(3)]
    wal_reader_input [OF _ begin_turn] wal_reader_input [OF _ data_turn]
  show ?thesis
    by (rule reach_step [OF reach_step [OF reach_step [OF reach_step [OF demo_waiting steps(1)] steps(2)]
          steps(3)] steps(4)]) (simp_all add: demo_orders)
qed

theorem change_reaches_member_witness:
  "\<exists>s1 s' ks. reader_turn demo_ops (ReplRecv capture_env (Inr (Some (Commit 99)))) demo_open = Some s1
    \<and> rooms_turns demo_ops (length (chan_queue (fst (srv_world s1)) (handle_tx (app_rooms (srv_app s1))))) s1 = Some s'
    \<and> chan_queue (snd (srv_world s')) 0 = [Joined ''me'' demo_doc, Invalidation ks 1700000000000]
    \<and> set ks = {to_key (QueryHint ''comments'' ''document_id'' demo_doc)}"
proof -
  let ?h = "QueryHint ''comments'' ''document_id'' demo_doc"
  let ?b = "buffer_events fixture_events empty_buffer"
  have b: "wal_transaction (srv_reader demo_open) = Some ?b"
    by (simp add: demo_open_def after_events_def set_metrics_def Let_def)
  have hints: "fset (tx_hints ?b) = {?h}"
    using fixture_hints by (simp add: buffered_hints demo_doc_def)
  then have h: "?h |\<in>| tx_hints ?b" by simp
  have state: "srv_flow demo_open = Continue" "srv_rooms demo_open = fmap_of_list [(demo_doc, [(''me'', 0)])]"
    "chan_queue (fst (srv_world demo_open)) x = []" "\<not> chan_closed (fst (srv_world demo_open)) x"
    "chan_queue (snd (srv_world demo_open)) 0 = [Joined ''me'' demo_doc]" "\<not> chan_closed (snd (srv_world demo_open)) 0"
    for x
    by (simp_all add: demo_open_def demo_member_def demo_srv_def set_metrics_def Let_def)
  have run: "\<exists>s1 s' ks. reader_turn demo_ops (ReplRecv capture_env (Inr (Some (Commit 99)))) demo_open = Some s1
    \<and> rooms_turns demo_ops (length (chan_queue (fst (srv_world s1)) (handle_tx (app_rooms (srv_app s1))))) s1 = Some s'
    \<and> chan_queue (fst (srv_world s')) (handle_tx (app_rooms (srv_app s'))) = []
    \<and> chan_queue (snd (srv_world s')) 0 = chan_queue (snd (srv_world demo_open)) 0 @ [Invalidation ks (ce_now capture_env)]
    \<and> distinct ks \<and> set ks = to_key ` {h'. h' |\<in>| tx_hints ?b \<and> hint_value h' = hint_value ?h}"
    by (rule change_reaches_member [OF demo_channels demo_world_empty demo_opens [unfolded demo_start_def]
          state(1) b h demo_orders refl])
      (simp_all add: state hints entry_list_def rooms_channel_capacity_def client_channel_capacity_def)
  have keys: "to_key ` {h'. h' |\<in>| B \<and> hint_value h' = hint_value h} = {to_key h}"
    if "fset B = {h}" for B h using that by auto
  have now: "ce_now capture_env = 1700000000000" by (simp add: capture_env_def)
  from run show ?thesis unfolding state(5) keys [OF hints] now append.simps by blast
qed

text \<open>
  C14. No connection waits for ever on the actor: in every reachable state, if a connection awaits the
  answer to its join, the actor can handle all pending commands, in their order and without help from
  anyone, and then the answer is there and puts the session into the room.
\<close>

theorem waiting_join_completes:
  assumes "server_channels ops cmd_queue cmd_closed cmd_capacity client_queue client_closed client_capacity"
    and "\<And>h. cmd_queue w h = []" "\<And>tx. client_queue w tx = []"
    and "reachable ops (server_start rooms wal_reader has_sql w) s"
    and "srv_sessions s cid = Some (session, Some (r, d))"
    and "commands = cmd_queue (srv_world s) (handle_tx (app_rooms (srv_app s)))"
  shows "\<exists>s1 s2. rooms_turns ops (length commands) s = Some s1
    \<and> cmd_queue (srv_world s1) (handle_tx (app_rooms (srv_app s1))) = []
    \<and> srv_history s1 = srv_history s @ commands
    \<and> answer_turn ops cid Acked s1 = Some s2
    \<and> srv_sessions s2 cid = Some (session\<lparr>session_current_room := Some d\<rparr>, None)"
proof -
  have "server_ok cmd_queue client_queue s"
    using server_channels.reachable_ok [OF assms(1,4)] server_ok_start [of cmd_queue w client_queue, OF assms(2,3)] by blast
  from server_channels.join_completes [OF assms(1) this assms(5)] show ?thesis unfolding assms(6) .
qed

theorem waiting_join_completes_witness:
  "\<exists>s1 s2. rooms_turns demo_ops 1
      (demo_srv [RoomJoin demo_doc ''me'' 0 1] [] fmempty [] None (Some (1, demo_doc)) [] [CHR ''j'' # demo_doc]) = Some s1
    \<and> srv_history s1 = [RoomJoin demo_doc ''me'' 0 1] \<and> answer_turn demo_ops ''me'' Acked s1 = Some s2
    \<and> srv_sessions s2 ''me'' = Some (\<lparr>session_client_id = ''me'', session_current_room = Some demo_doc,
        session_tx = 0\<rparr>, None)"
proof -
  let ?s = "demo_srv [RoomJoin demo_doc ''me'' 0 1] [] fmempty [] None (Some (1, demo_doc)) [] [CHR ''j'' # demo_doc]"
  have "srv_sessions ?s ''me'' = Some (\<lparr>session_client_id = ''me'', session_current_room = None,
      session_tx = 0\<rparr>, Some (1, demo_doc))" by (simp add: demo_srv_def)
  from waiting_join_completes [OF demo_channels demo_world_empty demo_waiting [unfolded demo_start_def] this refl]
  show ?thesis by (auto simp: demo_srv_def)
qed

text \<open>
  C15. Nothing overtakes and nothing is doubled: in every reachable state the chat messages and
  invalidations that a client received or that wait for it come, in this order, from broadcasts at
  nondecreasing positions of the actor's history, and each broadcast at most as often as the client had
  joined that room at earlier positions. So nothing from before a join is among them, and a client that
  joined once gets no broadcast twice.
\<close>

theorem messages_in_order:
  assumes "server_channels ops cmd_queue cmd_closed cmd_capacity client_queue client_closed client_capacity"
    and "\<And>tx. client_queue w tx = []"
    and "reachable ops (server_start rooms wal_reader has_sql w) s"
  shows "\<exists>positions. sorted positions
    \<and> list_all2 (sent_at (srv_history s)) positions (filter (\<lambda>m. \<not> is_reply m) (inbox client_queue s tx))
    \<and> at_most_joined (srv_history s) tx positions"
proof -
  note start = server_channels.ordered_start [OF assms(1,2), of rooms wal_reader has_sql]
  from server_channels.reachable_ordered [OF assms(1,3) start] show ?thesis
    by (simp add: server_channels.ordered_def [OF assms(1)] in_order_def)
qed

theorem messages_in_order_witness:
  "\<exists>positions. sorted positions
    \<and> list_all2 (sent_at (srv_history demo_server)) positions [Message ''me'' ''hi'' 9]
    \<and> at_most_joined (srv_history demo_server) 0 positions"
  using messages_in_order [OF demo_channels demo_world_empty(2) demo_reached, of 0]
  by (simp add: inbox_def received_by_def demo_queue demo_received)

text \<open>
  C16. Clients hear a sender in its own order: in every reachable state, what a client that joined one room
  once received from a sender, or has waiting, are texts this sender said in its frames, in the order in which it said
  them and no text more often. What is missing was refused by a full or closed channel, or went to
  another room.
\<close>

theorem heard_in_the_order_said:
  assumes "server_channels ops cmd_queue cmd_closed cmd_capacity client_queue client_closed client_capacity"
    and "\<And>h. cmd_queue w h = []" "\<And>tx. client_queue w tx = []"
    and "reachable ops (server_start rooms wal_reader has_sql w) s"
    and "\<And>room. joins_of tx room (srv_history s) \<le> of_bool (room = d)"
  shows "subseq (texts_from sender (inbox client_queue s tx))
    (said (op_from_json ops) sender (srv_frames s))"
  by (rule server_channels.reachable_heard [OF assms])

theorem heard_in_the_order_said_witness:
  "texts_from ''me'' (inbox (\<lambda>w. chan_queue (snd w)) demo_server 0) = [''hi'']
    \<and> said demo_json ''me'' (srv_frames demo_server) = [''hi'']
    \<and> subseq (texts_from ''me'' (inbox (\<lambda>w. chan_queue (snd w)) demo_server 0))
      (said demo_json ''me'' (srv_frames demo_server))"
proof -
  have once: "joins_of 0 room (srv_history demo_server) \<le> of_bool (room = ''a'')" for room
    by (simp add: demo_server_def demo_srv_def joins_of_def)
  have json: "op_from_json demo_ops = demo_json" by (simp add: demo_ops_def ref_ops_def)
  show ?thesis
    using heard_in_the_order_said [OF demo_channels demo_world_empty demo_reached once, of "''me''", unfolded json]
    by (simp add: inbox_def received_by_def demo_queue demo_received texts_from_def map_filter_simps
        said_def demo_server_def demo_srv_def)
qed

text \<open>
  C18. Who hangs up is forgotten: in every reachable state a connection that is in a room and ends while
  the command channel takes its leave is, once the actor has handled what is pending, in that room no
  more, under any channel it was entered with, and its session is gone.
\<close>

theorem closed_client_leaves:
  assumes "server_channels ops cmd_queue cmd_closed cmd_capacity client_queue client_closed client_capacity"
    and "\<And>h. cmd_queue w h = []" "\<And>tx. client_queue w tx = []"
    and "reachable ops (server_start rooms wal_reader has_sql w) s"
    and "srv_sessions s cid = Some (session, waiting)" "session_current_room session = Some d"
    and "commands = handle_tx (app_rooms (srv_app s))"
    and "\<not> cmd_closed (srv_world s) commands" "length (cmd_queue (srv_world s) commands) < cmd_capacity commands"
  shows "\<exists>s1 s2. close_turn ops cid s = Some s1
    \<and> rooms_turns ops (length (cmd_queue (srv_world s1) (handle_tx (app_rooms (srv_app s1))))) s1 = Some s2
    \<and> cmd_queue (srv_world s2) (handle_tx (app_rooms (srv_app s2))) = []
    \<and> srv_sessions s2 cid = None \<and> cid \<notin> fst ` set (entry_list (srv_rooms s2) d)"
proof -
  note chans = server_channels.axioms(1) [OF assms(1), THEN session_channels.axioms(1)]
  have "server_ok cmd_queue client_queue s"
    using server_channels.reachable_ok [OF assms(1,4)] server_ok_start [of cmd_queue w client_queue, OF assms(2,3)] by blast
  moreover have "mpsc.accepts cmd_queue cmd_closed cmd_capacity (srv_world s) commands"
    using assms(8,9) by (simp add: mpsc.accepts_def [OF chans])
  ultimately show ?thesis
    using server_channels.close_leaves [OF assms(1) _ assms(5,6)] assms(7) by blast
qed

theorem closed_client_leaves_witness:
  "\<exists>s1 s2. close_turn demo_ops ''me'' demo_server = Some s1
    \<and> rooms_turns demo_ops (length (chan_queue (fst (srv_world s1)) (handle_tx (app_rooms (srv_app s1))))) s1 = Some s2
    \<and> srv_sessions s2 ''me'' = None \<and> ''me'' \<notin> fst ` set (entry_list (srv_rooms s2) ''a'')"
proof -
  have session: "srv_sessions demo_server ''me'' = Some (\<lparr>session_client_id = ''me'',
      session_current_room = Some ''a'', session_tx = 0\<rparr>, None)"
    and space: "\<not> chan_closed (fst (srv_world demo_server)) x"
      "length (chan_queue (fst (srv_world demo_server)) x) < rooms_channel_capacity" for x
    by (simp_all add: demo_server_def demo_srv_def rooms_channel_capacity_def)
  from closed_client_leaves [OF demo_channels demo_world_empty demo_reached session _ refl space, of "''a''"]
  show ?thesis by (simp only: session.simps) blast
qed

section \<open>The load test against the server\<close>

text \<open>
  C17. The load test does not overcount: let the server be in any reachable state, the client of a
  subscriber task have joined the document's room once and no other, and the producer's be the only
  connection that says anything, with some first part of what its task wrote handled. If the stream
  of the subscriber brings the texts of some first part of its inbox, \<open>Joined\<close> among them, and serde
  reads back what it wrote, then the subscriber task announces its join and returns, without a panic in
  either build, and what it counts as received and as missed is together at most what the producer
  counts as sent.
\<close>

theorem load_test_on_server:
  fixes env :: "('e, 'hist) subscriber_env" and sent :: u64
  assumes "server_channels ops cmd_queue cmd_closed cmd_capacity client_queue client_closed client_capacity"
    and "\<And>h. cmd_queue w h = []" "\<And>tx. client_queue w tx = []"
    and "reachable ops (server_start rooms wal_reader has_sql w) s"
    and "\<And>room. joins_of tx room (srv_history s) \<le> of_bool (room = d)"
    and "\<And>c. c \<noteq> producer \<Longrightarrow> said (op_from_json ops) c (srv_frames s) = []"
    and "run_producer chk (Inr ()) payload_json msg_json d rate deadline ticks = Some (written, Inr sent)"
    and "prefix (map snd (filter (\<lambda>(c, str). c = producer) (srv_frames s))) written"
    and "prefix (arrived_texts events) (map encode (inbox client_queue s tx))"
    and "\<And>p. payload_json p = Inr (body p)" "\<And>d b. msg_json (SendMessageTo d b) = Inr (msg d b)"
    and "\<And>b. op_from_json ops (msg d b) = Inr (SendMessageTo d b)"
    and "\<And>p. p \<in> set (payloads_from 0 (sent_ticks deadline ticks)) \<Longrightarrow> env_payload env (body p) = Inr p"
    and "\<And>m. m \<in> set (inbox client_queue s tx) \<Longrightarrow> env_server_message env (encode m) = Inr m"
    and "env_connect env = Inr ()" "env_encode env (Join d) = Inr join" "env_send env join = Inr ()"
    and "new_latency_hist (env_new_hist env) = Inr h"
    and "await_joined (env_server_message env) events = Some rest"
    and "length ticks < 2 ^ 64"
  shows "\<exists>r. run_subscriber chk' env d True events = (True, Some (Inr r))
    \<and> unat (received r) = length (payloads_of env rest)
    \<and> unat (received r) + unat (seq_gaps r) \<le> unat sent"
proof -
  note heard = server_channels.reachable_heard [OF assms(1-5)]
  define ts where "ts = (if rate = 0 then [] else sent_ticks deadline ticks)"
  have "length (sent_ticks deadline ticks) \<le> length ticks" by (simp add: sent_ticks_def length_takeWhile_le)
  then have len: "length ts < 2 ^ 64" using assms(20) by (simp add: ts_def)
  have "producer_loop chk payload_json msg_json d deadline ticks 0 =
      Some (map (msg d \<circ> body) (payloads_from 0 (sent_ticks deadline ticks)), Inr (of_nat (length (sent_ticks deadline ticks))))"
    using producer_sends [where payload_json = payload_json and msg_json = msg_json, OF assms(10,11), of 0 ticks] assms(20)
    by simp
  with assms(7) have sent: "written = map (msg d \<circ> body) (payloads_from 0 ts)" "sent = of_nat (length ts)"
    by (auto simp: run_producer_def ts_def split: if_splits)
  have "subseq (map snd (payloads_of env rest)) (payloads_from 0 ts)"
  proof (rule counted_payloads_sent [where encode = encode and ms = "inbox client_queue s tx" and producer = producer
        and frames = "srv_frames s" and from_json = "op_from_json ops" and msg = msg and d = d and body = body])
    show "subseq (arrived_texts events) (map encode (inbox client_queue s tx))"
      by (rule prefix_imp_subseq) (rule assms(9))
    show "texts_from c (inbox client_queue s tx) = []" if "c \<noteq> producer" for c
      using heard [of c] assms(6) [OF that] by simp
    show "subseq (map snd (filter (\<lambda>(c, str). c = producer) (srv_frames s))) (map (msg d \<circ> body) (payloads_from 0 ts))"
      using prefix_imp_subseq [OF assms(8)] by (simp only: sent)
    show "env_payload env (body p) = Inr p" if "p \<in> set (payloads_from 0 ts)" for p
      using that by (intro assms(13)) (simp add: ts_def split: if_splits)
  qed (rule assms(12,14,19) heard | assumption)+
  from subscriber_of_sent [OF assms(15-17,19,18) this len, of chk'] show ?thesis
    using len by (simp add: sent(2) unat_of_nat)
qed

text \<open>
  A subscriber and a producer: the first of two payloads was handled and broadcast, the second is on
  its way. A frame starts with the kind of its message, a body is as long as its number.
\<close>

fun load_json :: "string \<Rightarrow> string + client_message" where
  "load_json [] = Inl ''EOF''"
| "load_json (c # cs) = (if c = CHR ''j'' then Inr (Join cs) else Inr (SendMessageTo ''a'' cs))"

fun load_msg :: "client_message \<Rightarrow> string + string" where
  "load_msg (SendMessageTo d b) = Inr (CHR ''m'' # b)"
| "load_msg m = Inl ''other''"

fun load_encode :: "server_message \<Rightarrow> string" where
  "load_encode (Message c b t) = CHR ''M'' # b"
| "load_encode m = ''J''"

definition load_env :: "(string, u64 list) subscriber_env" where
  "load_env = demo_env\<lparr>env_server_message :=
    (\<lambda>t. Inr (if t = ''J'' then Joined ''sub'' ''a'' else Message ''pub'' (tl t) 9))\<rparr>"

definition load_ticks :: "producer_tick list" where
  "load_ticks = map (\<lambda>t. \<lparr>tick_instant = t, tick_now_us = 1, tick_written = True\<rparr>) [1, 2]"

definition load_ops :: "(unit, nat, nat, (unit, nat, nat) ref_world) channel_ops" where
  "load_ops = ref_ops (\<lambda>_. rooms_channel_capacity) (\<lambda>_. client_channel_capacity) load_json"

definition load_srv ::
    "(nat, nat) room_command list \<Rightarrow> server_message list \<Rightarrow> (document_id, nat clients) fmap \<Rightarrow> nat list \<Rightarrow>
      document_id option \<Rightarrow> (nat \<times> document_id) option \<Rightarrow> (nat, nat) room_command list \<Rightarrow>
      (client_id \<times> string) list \<Rightarrow> demo_server" where
  "load_srv cmds msgs rooms acks room waiting history frames = (demo_srv cmds msgs rooms acks room waiting history [])
    \<lparr>srv_sessions := [''sub'' \<mapsto> (\<lparr>session_client_id = ''sub'', session_current_room = room, session_tx = 0\<rparr>, waiting),
        ''pub'' \<mapsto> (new_session ''pub'' 1, None)],
     srv_clients := [(''sub'', 0), (''pub'', 1)], srv_responders := (if frames = [] then [] else [1]), srv_frames := frames\<rparr>"

definition load_server :: demo_server where
  "load_server = load_srv [] [Joined ''sub'' ''a'', Message ''pub'' [] 9] (fmap_of_list [(''a'', [(''sub'', 0)])]) [1]
    (Some ''a'') None [RoomJoin ''a'' ''sub'' 0 1, RoomBroadcast ''a'' (Message ''pub'' [] 9)]
    [(''sub'', ''ja''), (''pub'', ''m'')]"

lemma load_turns:
  "Option.bind (accept_turn ''sub'' 0 demo_start) (accept_turn ''pub'' 1) = Some (load_srv [] [] fmempty [] None None [] [])"
  "frame_turn load_ops ''sub'' (demo_call 1) ''ja'' (load_srv [] [] fmempty [] None None [] []) =
    Some (load_srv [RoomJoin ''a'' ''sub'' 0 1] [] fmempty [] None (Some (1, ''a'')) [] [(''sub'', ''ja'')])"
  "rooms_turn load_ops (load_srv [RoomJoin ''a'' ''sub'' 0 1] [] fmempty [] None (Some (1, ''a'')) [] [(''sub'', ''ja'')]) =
    Some (load_srv [] [] (fmap_of_list [(''a'', [(''sub'', 0)])]) [1] None (Some (1, ''a''))
      [RoomJoin ''a'' ''sub'' 0 1] [(''sub'', ''ja'')])"
  "answer_turn load_ops ''sub'' Acked (load_srv [] [] (fmap_of_list [(''a'', [(''sub'', 0)])]) [1] None (Some (1, ''a''))
      [RoomJoin ''a'' ''sub'' 0 1] [(''sub'', ''ja'')]) =
    Some (load_srv [] [Joined ''sub'' ''a''] (fmap_of_list [(''a'', [(''sub'', 0)])]) [1] (Some ''a'') None
      [RoomJoin ''a'' ''sub'' 0 1] [(''sub'', ''ja'')])"
  "frame_turn load_ops ''pub'' (demo_call 2) ''m'' (load_srv [] [Joined ''sub'' ''a'']
      (fmap_of_list [(''a'', [(''sub'', 0)])]) [1] (Some ''a'') None [RoomJoin ''a'' ''sub'' 0 1] [(''sub'', ''ja'')]) =
    Some (load_srv [RoomBroadcast ''a'' (Message ''pub'' [] 9)] [Joined ''sub'' ''a''] (fmap_of_list [(''a'', [(''sub'', 0)])])
      [1] (Some ''a'') None [RoomJoin ''a'' ''sub'' 0 1] [(''sub'', ''ja''), (''pub'', ''m'')])"
  "rooms_turn load_ops (load_srv [RoomBroadcast ''a'' (Message ''pub'' [] 9)] [Joined ''sub'' ''a'']
      (fmap_of_list [(''a'', [(''sub'', 0)])]) [1] (Some ''a'') None [RoomJoin ''a'' ''sub'' 0 1]
      [(''sub'', ''ja''), (''pub'', ''m'')]) = Some load_server"
  by (simp_all add: demo_turn_defs load_ops_def load_srv_def load_server_def new_session_def accept_turn_def
      demo_start_def server_start_def demo_world_def open_channels_def fun_eq_iff fun_upd_twist handle_eqs)

lemma load_reachable: "reachable load_ops demo_start load_server"
proof -
  from load_turns(1) obtain s where accepts: "accept_turn ''sub'' 0 demo_start = Some s"
    "accept_turn ''pub'' 1 s = Some (load_srv [] [] fmempty [] None None [] [])" by (auto simp: bind_eq_Some_conv)
  note steps = accepted_client [OF accepts(1)] accepted_client [OF accepts(2)] received_frame [OF load_turns(2)]
    rooms_actor [OF load_turns(3)] answered_join [OF load_turns(4)] received_frame [OF load_turns(5)]
    rooms_actor [OF load_turns(6)]
  show ?thesis
    by (rule reach_step [OF reach_step [OF reach_step [OF reach_step [OF reach_step [OF reach_step [OF reach_step
      [OF reach_start steps(1)] steps(2)] steps(3)] steps(4)] steps(5)] steps(6)] steps(7)])
qed

theorem load_test_on_server_witness:
  "\<exists>r. run_subscriber True load_env ''a'' True [Arrived 5 (TextFrame ''J''), Arrived 6 (TextFrame ''M''), TimerFired] =
      (True, Some (Inr r))
    \<and> unat (received r) = 1 \<and> unat (received r) + unat (seq_gaps r) \<le> 2"
proof -
  let ?inbox = "inbox (\<lambda>w. chan_queue (snd w)) load_server 0"
  let ?events = "[Arrived 5 (TextFrame ''J''), Arrived 6 (TextFrame ''M''), TimerFired]"
  have channels: "server_channels load_ops (\<lambda>w. chan_queue (fst w)) (\<lambda>w. chan_closed (fst w)) (\<lambda>_. rooms_channel_capacity)
    (\<lambda>w. chan_queue (snd w)) (\<lambda>w. chan_closed (snd w)) (\<lambda>_. client_channel_capacity)"
    unfolding load_ops_def by (rule ref_server.server_channels_axioms)
  have json: "op_from_json load_ops = load_json" by (simp add: load_ops_def ref_ops_def)
  have frames: "srv_frames load_server = [(''sub'', ''ja''), (''pub'', ''m'')]"
    by (simp add: load_server_def load_srv_def)
  have once: "joins_of 0 room (srv_history load_server) \<le> of_bool (room = ''a'')" for room
    by (simp add: load_server_def load_srv_def demo_srv_def joins_of_def)
  have silent: "said (op_from_json load_ops) c (srv_frames load_server) = []" if "c \<noteq> ''pub''" for c
    using that by (simp add: said_def map_filter_simps frames json)
  have produced: "run_producer True (Inr ()) (\<lambda>p. Inr (demo_body p)) load_msg ''a'' 1 9 load_ticks =
      Some ([''m'', ''mx''], Inr 2)"
    by (simp add: run_producer_def load_ticks_def u64_add_def demo_body_def)
  have inbox: "?inbox = [Joined ''sub'' ''a'', Message ''pub'' [] 9]"
    by (simp add: inbox_def received_by_def load_server_def load_srv_def demo_srv_def)
  have begun: "prefix (map snd (filter (\<lambda>(c, str). c = ''pub'') (srv_frames load_server))) [''m'', ''mx'']"
    by (simp add: frames)
  have arrived: "prefix (arrived_texts ?events) (map load_encode ?inbox)"
    by (simp add: inbox arrived_texts_def map_filter_simps)
  have bodies: "env_payload load_env (demo_body p) = Inr p"
    if "p \<in> set (payloads_from 0 (sent_ticks 9 load_ticks))" for p
    using that by (auto simp: sent_ticks_def load_ticks_def load_env_def demo_env_def demo_body_def)
  have decodes: "env_server_message load_env (load_encode m) = Inr m" if "m \<in> set ?inbox" for m
    using that by (auto simp: inbox load_env_def)
  have env: "env_connect load_env = Inr ()" "env_encode load_env (Join ''a'') = Inr []" "env_send load_env [] = Inr ()"
    "new_latency_hist (env_new_hist load_env) = Inr []"
    "await_joined (env_server_message load_env) ?events = Some [Arrived 6 (TextFrame ''M''), TimerFired]"
    "payloads_of load_env [Arrived 6 (TextFrame ''M''), TimerFired] = [(6, \<lparr>payload_seq = 0, payload_sent_at_us = 1\<rparr>)]"
    by (simp_all add: load_env_def demo_env_def new_latency_hist_def)
  have ticks: "length load_ticks < 2 ^ 64" by (simp add: load_ticks_def)
  have "op_from_json load_ops (CHR ''m'' # b) = Inr (SendMessageTo ''a'' b)" for b by (simp add: json)
  from load_test_on_server [where msg = "\<lambda>d b. CHR ''m'' # b" and chk' = True,
      OF channels demo_world_empty load_reachable [unfolded demo_start_def] once silent produced begun arrived refl
        load_msg.simps(1) this bodies decodes env(1-5) ticks]
  show ?thesis unfolding env(6) by simp
qed

end
